(* ===== verification/Prelude.thy ===== *)
theory Prelude
  imports Main "HOL-Library.Word" "HOL-Library.Char_ord" "HOL-Library.List_Lexorder"
    "HOL-Library.Product_Lexorder" "HOL-Library.Option_ord"
begin

text \<open>
  Shared vocabulary of the development: machine integers, the part of Rust's string and
  integer formatting that the modelled components use, and the generic lemmas on lists,
  options, sums and maps that carry the component proofs.

  Conventions used throughout:
  \<^item> \<open>Result<T, E>\<close> is \<open>'e + 'a\<close> with \<open>Inl\<close> for the error; a function that can panic
    returns an \<open>option\<close> with \<open>None\<close> for the panic (arithmetic overflow included: the
    workspace builds every profile with overflow checks).
  \<^item> \<open>str\<close> is \<^typ>\<open>string\<close>; one HOL character stands for one Unicode scalar value below
    256, so lengths count characters and no other scalar value is representable.
  \<^item> The wall clock is an argument: a function that reads \<open>SystemTime::now()\<close> or
    \<open>Utc::now()\<close> takes the instant it read.
\<close>

section \<open>Collections of rewrite rules\<close>

named_theorems str_simps \<open>formatting and parsing of text\<close>
named_theorems bits_simps \<open>bit level facts on words\<close>

section \<open>Machine integers\<close>

type_synonym u8 = "8 word"
type_synonym u32 = "32 word"
type_synonym u64 = "64 word"
type_synonym u128 = "128 word"

text \<open>\<open>x as i64\<close> for a non-negative \<open>x\<close>: keep the low 64 bits, read as two's complement.\<close>

definition as_i64 :: "nat \<Rightarrow> int" where
  "as_i64 n = (let m = n mod 2 ^ 64 in if m < 2 ^ 63 then int m else int m - 2 ^ 64)"

lemma as_i64_small [simp]: "n < 2 ^ 63 \<Longrightarrow> as_i64 n = int n"
  by (simp add: as_i64_def)

text \<open>Rust's integer division and remainder truncate towards zero.\<close>

definition quot :: "int \<Rightarrow> int \<Rightarrow> int" where
  "quot a b = sgn a * sgn b * (\<bar>a\<bar> div \<bar>b\<bar>)"

definition rmd :: "int \<Rightarrow> int \<Rightarrow> int" where
  "rmd a b = sgn a * (\<bar>a\<bar> mod \<bar>b\<bar>)"

lemma quot_nonneg [simp]: "0 \<le> a \<Longrightarrow> 0 < b \<Longrightarrow> quot a b = a div b"
  by (cases "a = 0") (simp_all add: quot_def)

lemma rmd_nonneg [simp]: "0 \<le> a \<Longrightarrow> 0 < b \<Longrightarrow> rmd a b = a mod b"
  by (cases "a = 0") (simp_all add: rmd_def)

lemma quot_nonpos: "a \<le> 0 \<Longrightarrow> 0 < b \<Longrightarrow> quot a b \<le> 0"
proof -
  assume "a \<le> 0" "0 < b"
  then have "0 \<le> \<bar>a\<bar> div \<bar>b\<bar>" by (simp add: pos_imp_zdiv_nonneg_iff)
  with \<open>a \<le> 0\<close> \<open>0 < b\<close> show ?thesis by (cases "a = 0") (simp_all add: quot_def)
qed

lemma rmd_nonpos: "a \<le> 0 \<Longrightarrow> 0 < b \<Longrightarrow> rmd a b \<le> 0"
  by (cases "a = 0") (simp_all add: rmd_def)

section \<open>Lists\<close>

lemma option_eqI: "(\<And>a. x = Some a \<longleftrightarrow> y = Some a) \<Longrightarrow> x = y"
  by (cases x; cases y) auto

lemma find_SomeD: "find P xs = Some x \<Longrightarrow> P x \<and> x \<in> set xs"
  by (induction xs) (auto split: if_splits)

lemma filter_remove1_not: "\<not> P x \<Longrightarrow> filter P (remove1 x xs) = filter P xs"
  by (induction xs) auto

lemma length_remove1_le: "length (remove1 x xs) \<le> length xs"
  by (simp add: length_remove1)

lemma length_remove1_less: "x \<in> set xs \<Longrightarrow> length (remove1 x xs) < length xs"
  by (induction xs) auto

lemma sorted_wrt_less_remove1: "sorted_wrt (<) xs \<Longrightarrow> sorted_wrt (<) (remove1 (x::'a::linorder) xs)"
  by (simp add: strict_sorted_iff sorted_remove1)

lemma sorted_le_last: "sorted xs \<Longrightarrow> x \<in> set xs \<Longrightarrow> (x::'a::linorder) \<le> last xs"
  by (induction xs) auto

lemma last_filter_le:
  assumes "sorted_wrt (<) xs" "x \<in> set xs" "P x"
  shows "filter P xs \<noteq> [] \<and> last (filter P xs) \<in> set xs \<and> P (last (filter P xs)) \<and>
    (x::'a::linorder) \<le> last (filter P xs)"
proof -
  have ne: "filter P xs \<noteq> []" using assms(2,3) by (auto simp: filter_empty_conv)
  then have l: "last (filter P xs) \<in> set (filter P xs)" by (rule last_in_set)
  have "sorted (filter P xs)"
    using assms(1) by (simp add: sorted_wrt_filter strict_sorted_imp_sorted)
  moreover have "x \<in> set (filter P xs)" using assms by simp
  ultimately have "x \<le> last (filter P xs)" by (rule sorted_le_last)
  with ne l show ?thesis by simp
qed

section \<open>Text\<close>

text \<open>\<open>char::is_whitespace\<close> on the scalar values below 256.\<close>

definition is_whitespace :: "char \<Rightarrow> bool" where
  "is_whitespace c \<longleftrightarrow> (let n = (of_char c :: nat) in (9 \<le> n \<and> n \<le> 13) \<or> n = 32 \<or> n = 133 \<or> n = 160)"

definition trim :: "string \<Rightarrow> string" where
  "trim s = rev (dropWhile is_whitespace (rev (dropWhile is_whitespace s)))"

lemma trim_id:
  assumes "s \<noteq> []" "\<not> is_whitespace (hd s)" "\<not> is_whitespace (last s)"
  shows "trim s = s"
proof -
  have "dropWhile is_whitespace s = s"
    using assms(1,2) by (cases s) auto
  moreover have "dropWhile is_whitespace (rev s) = rev s"
    using assms(1,3) by (cases s rule: rev_cases) auto
  ultimately show ?thesis by (simp add: trim_def)
qed

text \<open>\<open>str::split\<close> on one character: never empty, one more part than separators.\<close>

fun split_on :: "char \<Rightarrow> string \<Rightarrow> string list" where
  "split_on c [] = [[]]"
| "split_on c (x # xs) =
     (if x = c then [] # split_on c xs
      else (case split_on c xs of [] \<Rightarrow> [[x]] | y # ys \<Rightarrow> (x # y) # ys))"

lemma split_on_nonempty [simp]: "split_on c s \<noteq> []"
  by (induction s) (auto split: list.splits)

lemma split_on_none [str_simps]: "c \<notin> set s \<Longrightarrow> split_on c s = [s]"
  by (induction s) auto

lemma split_on_app [str_simps]: "c \<notin> set s \<Longrightarrow> split_on c (s @ c # t) = s # split_on c t"
  by (induction s) auto

lemma length_split_on: "length (split_on c s) = Suc (count_list s c)"
proof (induction s)
  case (Cons x xs)
  then show ?case
    by (cases "split_on c xs") auto
qed simp

text \<open>\<open>[String]::join\<close>.\<close>

fun join :: "string \<Rightarrow> string list \<Rightarrow> string" where
  "join sep [] = []"
| "join sep [x] = x"
| "join sep (x # y # ys) = x @ sep @ join sep (y # ys)"

text \<open>Decimal digits.\<close>

definition digit_char :: "nat \<Rightarrow> char" where
  "digit_char d = char_of (48 + d)"

definition is_digit :: "char \<Rightarrow> bool" where
  "is_digit c \<longleftrightarrow> (48::nat) \<le> of_char c \<and> of_char c \<le> (57::nat)"

definition digit_val :: "char \<Rightarrow> nat" where
  "digit_val c = of_char c - 48"

lemma digit_char_code: "d < 10 \<Longrightarrow> of_char (digit_char d) = 48 + d"
  by (simp add: digit_char_def)

lemma digit_char_digit [simp]: "d < 10 \<Longrightarrow> is_digit (digit_char d)"
  by (simp add: is_digit_def digit_char_code)

lemma digit_val_char [simp]: "d < 10 \<Longrightarrow> digit_val (digit_char d) = d"
  by (simp add: digit_val_def digit_char_code)

lemma is_digit_not_ws: "is_digit c \<Longrightarrow> \<not> is_whitespace c"
  by (auto simp: is_digit_def is_whitespace_def Let_def)

text \<open>\<open>format!("{}", n)\<close> for an unsigned \<open>n\<close>, and for a signed one.\<close>

fun show_nat :: "nat \<Rightarrow> string" where
  "show_nat n = (if n < 10 then [digit_char n] else show_nat (n div 10) @ [digit_char (n mod 10)])"

declare show_nat.simps [simp del]

definition show_int :: "int \<Rightarrow> string" where
  "show_int i = (if i < 0 then CHR ''-'' # show_nat (nat (- i)) else show_nat (nat i))"

lemma show_nat_digits: "\<forall>c \<in> set (show_nat n). is_digit c"
proof (induction n rule: show_nat.induct)
  case (1 n)
  show ?case
    by (cases "n < 10") (use 1 in \<open>auto simp: show_nat.simps [of n]\<close>)
qed

lemma show_nat_nonempty [simp]: "show_nat n \<noteq> []"
  by (simp add: show_nat.simps [of n])

lemma show_nat_no_minus [simp]: "CHR ''-'' \<notin> set (show_nat n)"
  using show_nat_digits [of n] by (auto simp: is_digit_def)

lemma show_nat_hd_digit [simp]: "is_digit (hd (show_nat n))"
  using show_nat_digits [of n] by (cases "show_nat n") auto

lemma show_nat_last_digit [simp]: "is_digit (last (show_nat n))"
  using show_nat_digits [of n] last_in_set [OF show_nat_nonempty [of n]] by blast

text \<open>
  \<open>str::parse\<close> into an unsigned integer of at most \<open>mx\<close>: an optional leading plus sign, then
  at least one digit; a larger value is an error.
\<close>

fun parse_dec :: "nat \<Rightarrow> string \<Rightarrow> nat option" where
  "parse_dec acc [] = Some acc"
| "parse_dec acc (c # cs) = (if is_digit c then parse_dec (10 * acc + digit_val c) cs else None)"

definition parse_uint :: "nat \<Rightarrow> string \<Rightarrow> nat option" where
  "parse_uint mx s =
     (let ds = (case s of c # cs \<Rightarrow> if c = CHR ''+'' then cs else s | [] \<Rightarrow> s)
      in if ds = [] then None
         else (case parse_dec 0 ds of None \<Rightarrow> None | Some n \<Rightarrow> if n \<le> mx then Some n else None))"

lemma parse_dec_app:
  "parse_dec acc (s @ t) = (case parse_dec acc s of None \<Rightarrow> None | Some n \<Rightarrow> parse_dec n t)"
  by (induction s arbitrary: acc) auto

lemma parse_dec_show [str_simps]: "parse_dec 0 (show_nat n) = Some n"
proof (induction n rule: show_nat.induct)
  case (1 n)
  show ?case
    by (cases "n < 10") (use 1 in \<open>auto simp: show_nat.simps [of n] parse_dec_app\<close>)
qed

lemma parse_uint_show [str_simps]: "n \<le> mx \<Longrightarrow> parse_uint mx (show_nat n) = Some n"
proof -
  assume le: "n \<le> mx"
  have "hd (show_nat n) \<noteq> CHR ''+''"
    using show_nat_hd_digit [of n] by (auto simp: is_digit_def)
  then have "(case show_nat n of c # cs \<Rightarrow> if c = CHR ''+'' then cs else show_nat n
      | [] \<Rightarrow> show_nat n) = show_nat n"
    by (cases "show_nat n") auto
  with le show ?thesis
    by (simp add: parse_uint_def parse_dec_show)
qed

lemma parse_uint_le: "parse_uint mx s = Some n \<Longrightarrow> n \<le> mx"
  by (auto simp: parse_uint_def Let_def split: if_splits option.splits)

lemma show_nat_inj: "show_nat m = show_nat n \<Longrightarrow> m = n"
  by (metis option.inject parse_dec_show)

end
