(* ===== verification/Dyadic.thy ===== *)
theory Dyadic
  imports Prelude
begin

text \<open>
  Aligned power-of-two intervals of naturals. The address range of an IP prefix is such an
  interval, and containment, siblings, halves and parents of prefixes are arithmetic on
  its block number \<open>k\<close> and its exponent \<open>m\<close>. This theory holds that arithmetic and its
  connection with the bit operations the code uses.
\<close>

definition dyad :: "nat \<Rightarrow> nat \<Rightarrow> nat set" where
  "dyad m k = {x. x div 2 ^ m = k}"

lemma dyad_iff: "x \<in> dyad m k \<longleftrightarrow> k * 2 ^ m \<le> x \<and> x < Suc k * 2 ^ m"
proof -
  have "x div 2 ^ m = k \<longleftrightarrow> k * 2 ^ m \<le> x \<and> x < (k + 1) * 2 ^ m"
  proof
    assume "x div 2 ^ m = k"
    then show "k * 2 ^ m \<le> x \<and> x < (k + 1) * 2 ^ m"
      using div_times_less_eq_dividend [of x "2 ^ m"] dividend_less_div_times [of "2 ^ m" x]
      by (auto simp: algebra_simps)
  next
    assume a: "k * 2 ^ m \<le> x \<and> x < (k + 1) * 2 ^ m"
    then have "k \<le> x div 2 ^ m" by (simp add: less_eq_div_iff_mult_less_eq)
    moreover have "x div 2 ^ m < k + 1" using a by (simp add: div_less_iff_less_mult)
    ultimately show "x div 2 ^ m = k" by simp
  qed
  then show ?thesis by (simp add: dyad_def)
qed

lemma dyad_base [simp, intro]: "k * 2 ^ m \<in> dyad m k"
  by (simp add: dyad_def)

lemma dyad_nonempty [simp]: "dyad m k \<noteq> {}"
  using dyad_base by blast

text \<open>Two blocks are nested or disjoint, decided by their exponents and block numbers.\<close>

lemma dyad_sub_iff: "dyad m' k' \<subseteq> dyad m k \<longleftrightarrow> m' \<le> m \<and> k' div 2 ^ (m - m') = k"
proof
  assume s: "dyad m' k' \<subseteq> dyad m k"
  have le: "m' \<le> m"
  proof (rule ccontr)
    assume "\<not> m' \<le> m"
    then have "(2::nat) ^ m < 2 ^ m'" by simp
    moreover have "k' * 2 ^ m' + (2 ^ m' - 1) \<in> dyad m' k'"
    proof -
      have "0 < (2::nat) ^ m'" by simp
      then show ?thesis unfolding dyad_iff mult_Suc by linarith
    qed
    then have "k' * 2 ^ m' + (2 ^ m' - 1) < Suc k * 2 ^ m" using s by (auto simp: dyad_iff)
    moreover have "k' * 2 ^ m' \<in> dyad m k" using s by blast
    then have "k * 2 ^ m \<le> k' * 2 ^ m'" by (simp add: dyad_iff)
    ultimately show False unfolding mult_Suc by linarith
  qed
  have "k' * 2 ^ m' \<in> dyad m k" using s by blast
  then have "k' * 2 ^ m' div 2 ^ m = k" by (simp add: dyad_def)
  moreover have "(2::nat) ^ m = 2 ^ m' * 2 ^ (m - m')"
    using le by (simp flip: power_add)
  ultimately have "k' div 2 ^ (m - m') = k" by (simp add: div_mult2_eq)
  with le show "m' \<le> m \<and> k' div 2 ^ (m - m') = k" by simp
next
  assume a: "m' \<le> m \<and> k' div 2 ^ (m - m') = k"
  then have "(2::nat) ^ m = 2 ^ m' * 2 ^ (m - m')" by (simp flip: power_add)
  with a show "dyad m' k' \<subseteq> dyad m k"
    by (auto simp: dyad_def div_mult2_eq)
qed

lemma dyad_laminar_le:
  assumes "m' \<le> m"
  shows "dyad m' k' \<subseteq> dyad m k \<or> dyad m' k' \<inter> dyad m k = {}"
proof -
  have e: "(2::nat) ^ m = 2 ^ m' * 2 ^ (m - m')" using assms by (simp flip: power_add)
  have "x div 2 ^ m = k' div 2 ^ (m - m')" if "x \<in> dyad m' k'" for x
    using that by (simp add: dyad_def e div_mult2_eq)
  then show ?thesis using assms by (auto simp: dyad_sub_iff) (auto simp: dyad_def)
qed

lemma dyad_laminar:
  "dyad m' k' \<subseteq> dyad m k \<or> dyad m k \<subseteq> dyad m' k' \<or> dyad m' k' \<inter> dyad m k = {}"
  using dyad_laminar_le [of m' m k' k] dyad_laminar_le [of m m' k k']
  by (cases "m' \<le> m") auto

lemma dyad_inj: "dyad m k = dyad m' k' \<longleftrightarrow> m = m' \<and> k = k'"
proof
  assume "dyad m k = dyad m' k'"
  then have "m \<le> m' \<and> k div 2 ^ (m' - m) = k'" "m' \<le> m \<and> k' div 2 ^ (m - m') = k"
    using dyad_sub_iff [of m k m' k'] dyad_sub_iff [of m' k' m k] by auto
  then show "m = m' \<and> k = k'" by auto
qed simp

text \<open>Halves, parent and sibling.\<close>

lemma dyad_halves: "dyad (Suc m) k = dyad m (2 * k) \<union> dyad m (2 * k + 1)"
proof -
  have "x div 2 ^ Suc m = k \<longleftrightarrow> x div 2 ^ m = 2 * k \<or> x div 2 ^ m = 2 * k + 1" for x :: nat
  proof -
    have "x div 2 ^ Suc m = x div 2 ^ m div 2" by (simp only: power_Suc2 div_mult2_eq)
    then show ?thesis by auto
  qed
  then show ?thesis by (auto simp: dyad_def)
qed

lemma dyad_disjoint: "k \<noteq> k' \<Longrightarrow> dyad m k \<inter> dyad m k' = {}"
  by (auto simp: dyad_def)

definition flip :: "nat \<Rightarrow> nat" where
  "flip k = (if even k then k + 1 else k - 1)"

lemma flip_neq [simp]: "flip k \<noteq> k"
  by (cases "even k") (auto simp: flip_def dest: odd_pos)

lemma flip_flip [simp]: "flip (flip k) = k"
  by (auto simp: flip_def)

lemma flip_half [simp]: "flip k div 2 = k div 2"
  by (auto simp: flip_def elim!: evenE oddE)

lemma dyad_parent: "dyad (Suc m) (k div 2) = dyad m k \<union> dyad m (flip k)"
  by (cases "even k") (auto simp: dyad_halves flip_def elim!: evenE oddE)

text \<open>A block strictly inside another lies in one of its halves.\<close>

lemma dyad_strict_sub:
  assumes "dyad m' k' \<subset> dyad (Suc m) k"
  shows "dyad m' k' \<subseteq> dyad m (2 * k) \<or> dyad m' k' \<subseteq> dyad m (2 * k + 1)"
proof -
  from assms have "m' \<le> Suc m" by (simp add: dyad_sub_iff psubset_eq)
  moreover have "m' \<noteq> Suc m"
  proof
    assume "m' = Suc m"
    with assms have "k' = k" by (simp add: dyad_sub_iff psubset_eq)
    with \<open>m' = Suc m\<close> assms show False by simp
  qed
  ultimately have "m' \<le> m" by simp
  then show ?thesis
    using assms dyad_laminar_le [of m' m k' "2 * k"] dyad_laminar_le [of m' m k' "2 * k + 1"]
    by (auto simp: dyad_halves)
qed

section \<open>Bit operations on words as block arithmetic\<close>

unbundle bit_operations_syntax

lemma unat_and_not_mask [bits_simps]:
  fixes a :: "'a::len word"
  shows "unat (a AND NOT (mask m)) = unat a div 2 ^ m * 2 ^ m"
proof -
  have "a AND NOT (mask m) = push_bit m (drop_bit m a)"
    by (rule bit_eqI) (auto simp: bit_simps)
  then have "unat (a AND NOT (mask m)) = take_bit LENGTH('a) (push_bit m (drop_bit m (unat a)))"
    by (simp only: unsigned_push_bit_eq unat_drop_bit_eq)
  also have "push_bit m (drop_bit m (unat a)) = unat a div 2 ^ m * 2 ^ m"
    by (simp add: push_bit_eq_mult drop_bit_eq_div)
  also have "take_bit LENGTH('a) (unat a div 2 ^ m * 2 ^ m) = unat a div 2 ^ m * 2 ^ m"
    using unsigned_less [of a, where 'a = nat] div_times_less_eq_dividend [of "unat a" "2 ^ m"]
    by (intro take_bit_nat_eq_self) linarith
  finally show ?thesis .
qed

lemma nat_or_mask: "(x::nat) OR mask m = x div 2 ^ m * 2 ^ m + (2 ^ m - 1)"
proof -
  have "x OR mask m = push_bit m (drop_bit m x) OR mask m"
    by (rule bit_eqI) (auto simp: bit_simps)
  also have "\<dots> = push_bit m (drop_bit m x) + mask m"
    by (rule disjunctive_add_eq_or [symmetric]) (rule bit_eqI, auto simp: bit_simps)
  finally show ?thesis
    by (simp add: push_bit_eq_mult drop_bit_eq_div mask_eq_exp_minus_1)
qed

lemma unat_or_mask [bits_simps]:
  fixes a :: "'a::len word"
  assumes "m \<le> LENGTH('a)"
  shows "unat (a OR mask m) = unat a div 2 ^ m * 2 ^ m + (2 ^ m - 1)"
proof -
  have "unat (mask m :: 'a word) = mask m"
    using assms by (intro bit_eqI) (auto simp: bit_simps)
  then show ?thesis by (simp only: unsigned_or_eq nat_or_mask)
qed

lemma unat_bit_word: "m < LENGTH('a) \<Longrightarrow> unat (push_bit m 1 :: 'a::len word) = push_bit m 1"
  by (rule bit_eqI) (auto simp: bit_simps)

lemma flip_bit_block: "flip_bit m (k * 2 ^ m) = flip k * (2::nat) ^ m"
proof -
  have even_case: "flip_bit m (j * 2 ^ m) = (j + 1) * (2::nat) ^ m" if "even j" for j
    using that by (simp add: flip_bit_eq_if set_bit_eq bit_iff_odd)
  have twice: "flip_bit m (flip_bit m x) = x" for x :: nat
    by (rule bit_eqI) (auto simp: bit_simps)
  show ?thesis
  proof (cases "even k")
    case False
    then have "flip_bit m ((k - 1) * 2 ^ m) = k * (2::nat) ^ m"
      using even_case [of "k - 1"] by simp
    then have "flip_bit m (k * 2 ^ m) = (k - 1) * (2::nat) ^ m"
      using twice [of "(k - 1) * 2 ^ m"] by simp
    with False show ?thesis by (simp add: flip_def)
  qed (simp add: even_case flip_def)
qed

lemma unat_xor_bit [bits_simps]:
  fixes a :: "'a::len word"
  assumes "m < LENGTH('a)" "unat a = k * 2 ^ m"
  shows "unat (a XOR push_bit m 1) = flip k * 2 ^ m"
proof -
  have "unat (a XOR push_bit m 1) = flip_bit m (unat a)"
    using assms(1) by (simp only: unsigned_xor_eq unat_bit_word flip_bit_eq_xor)
  also have "\<dots> = flip k * 2 ^ m"
    by (simp only: assms(2) flip_bit_block)
  finally show ?thesis .
qed

lemma unat_or_bit [bits_simps]:
  fixes a :: "'a::len word"
  assumes "m < LENGTH('a)" "unat a = 2 * k * 2 ^ m"
  shows "unat (a OR push_bit m 1) = (2 * k + 1) * 2 ^ m"
proof -
  have "unat (a OR push_bit m 1) = set_bit m (unat a)"
    using assms(1) by (simp only: unsigned_or_eq unat_bit_word set_bit_eq_or)
  also have "\<dots> = (2 * k + 1) * 2 ^ m"
    by (auto simp: assms(2) set_bit_eq bit_iff_odd algebra_simps)
  finally show ?thesis .
qed

lemma drop_top_bit [bits_simps]:
  "n < LENGTH('a) \<Longrightarrow> drop_bit n (push_bit (LENGTH('a) - 1) 1 :: 'a::len word) =
     push_bit (LENGTH('a) - 1 - n) 1"
  by (rule bit_eqI) (auto simp: bit_simps)

end
