(* ===== verification/Ip_Prefix.thy ===== *)
theory Ip_Prefix
  imports Dyadic
begin

text \<open>
  IP prefixes (\<open>crates/network/src/ip/prefix.rs\<close>). The network types are those of the
  \<open>ipnet\<close> package: a type variable and the record \<open>ipnet\<close> of the functions the code calls,
  one for each address family (\<open>32\<close> and \<open>128\<close> bits). What the code relies on is the locale
  \<open>ipnet_laws\<close>. An \<open>Ipv4Prefix\<close> or \<open>Ipv6Prefix\<close> is a structure around one network value and
  is that value here; an \<open>IpPrefix\<close> is the datatype \<open>ip_prefix\<close>.

  A \<open>None\<close> of the outer option is a panic (\<open>new_assert\<close>, \<open>unreachable!\<close>).
\<close>

section \<open>The ipnet interface\<close>

record ('n, 'w) ipnet =
  net_new :: "'w \<Rightarrow> nat \<Rightarrow> 'n option"
  net_from :: "'w \<Rightarrow> 'n"
  net_addr :: "'n \<Rightarrow> 'w"
  net_prefix_len :: "'n \<Rightarrow> nat"
  net_network :: "'n \<Rightarrow> 'w"
  net_broadcast :: "'n \<Rightarrow> 'w"
  net_trunc :: "'n \<Rightarrow> 'n"
  net_supernet :: "'n \<Rightarrow> 'n option"
  net_contains :: "'n \<Rightarrow> 'n \<Rightarrow> bool"
  net_parse :: "string \<Rightarrow> 'n option"
  net_display :: "'n \<Rightarrow> string"

text \<open>
  The documented behaviour: a network is an address and a prefix length of at most the
  address width, ordered by address and then by length; \<open>network\<close> and \<open>broadcast\<close> clear
  and set the host bits; \<open>supernet\<close> is the truncated network that is one bit shorter;
  \<open>contains\<close> compares the two address ranges; the text form reads back.
\<close>

locale ipnet_laws =
  fixes I :: "('n::linorder, 'a::len word) ipnet"
  assumes len_le: "net_prefix_len I p \<le> LENGTH('a)"
    and net_eqI: "net_addr I p = net_addr I q \<Longrightarrow> net_prefix_len I p = net_prefix_len I q \<Longrightarrow> p = q"
    and new_ok: "n \<le> LENGTH('a) \<Longrightarrow>
      \<exists>p. net_new I a n = Some p \<and> net_addr I p = a \<and> net_prefix_len I p = n"
    and new_err: "LENGTH('a) < n \<Longrightarrow> net_new I a n = None"
    and from_addr: "net_addr I (net_from I a) = a"
    and from_len: "net_prefix_len I (net_from I a) = LENGTH('a)"
    and network: "net_network I p = net_addr I p AND NOT (mask (LENGTH('a) - net_prefix_len I p))"
    and broadcast: "net_broadcast I p = net_addr I p OR mask (LENGTH('a) - net_prefix_len I p)"
    and trunc_addr: "net_addr I (net_trunc I p) = net_network I p"
    and trunc_len: "net_prefix_len I (net_trunc I p) = net_prefix_len I p"
    and supernet_none: "net_prefix_len I p = 0 \<Longrightarrow> net_supernet I p = None"
    and supernet_some: "net_prefix_len I p \<noteq> 0 \<Longrightarrow>
      \<exists>q. net_supernet I p = Some q \<and> net_prefix_len I q = net_prefix_len I p - 1 \<and>
        net_addr I q = net_addr I p AND NOT (mask (LENGTH('a) - net_prefix_len I q))"
    and contains: "net_contains I p q \<longleftrightarrow>
      net_network I p \<le> net_network I q \<and> net_broadcast I q \<le> net_broadcast I p"
    and net_less_eq: "p \<le> q \<longleftrightarrow> net_addr I p < net_addr I q \<or>
      net_addr I p = net_addr I q \<and> net_prefix_len I p \<le> net_prefix_len I q"
    and parse_display: "net_parse I (net_display I p) = Some p"

section \<open>Prefixes of one family\<close>

datatype prefix_error = NonCanonicalRepresentation | ParseError | BadPrefixLength

definition ipv4_contains :: "('n, 32 word) ipnet \<Rightarrow> 'n \<Rightarrow> 'n \<Rightarrow> bool" where
  "ipv4_contains I p other = net_contains I p other"

definition ipv4_get_sibling :: "('n, 32 word) ipnet \<Rightarrow> 'n \<Rightarrow> 'n option option" where
  "ipv4_get_sibling I p =
     (let n = net_prefix_len I p
      in if n = 0 then Some None
         else if n \<le> 32 then
           (let addr_bits = net_addr I p;
                shift_amount = 32 - n;
                single_bit_flip = push_bit shift_amount 1;
                sibling_addr_bits = addr_bits XOR single_bit_flip
            in map_option Some (net_new I sibling_addr_bits n))
         else None)"

definition ipv4_bifurcate :: "('n, 32 word) ipnet \<Rightarrow> 'n \<Rightarrow> ('n \<times> 'n) option option" where
  "ipv4_bifurcate I p =
     (let n = net_prefix_len I p
      in if n \<le> 31 then
           (let addr_bits = net_addr I p;
                single_bit_flip = drop_bit n 0x80000000;
                odd_addr_bits = addr_bits OR single_bit_flip;
                new_prefix_length = n + 1
            in (case (net_new I addr_bits new_prefix_length, net_new I odd_addr_bits new_prefix_length) of
                  (Some even_net, Some odd_net) \<Rightarrow> Some (Some (even_net, odd_net))
                | _ \<Rightarrow> None))
         else Some None)"

definition addr_to_v4_prefix :: "('n, 32 word) ipnet \<Rightarrow> 32 word \<Rightarrow> 'n" where
  "addr_to_v4_prefix I a = net_from I a"

definition net_to_v4_prefix :: "('n, 32 word) ipnet \<Rightarrow> 'n \<Rightarrow> 'n" where
  "net_to_v4_prefix I net = net_trunc I net"

definition ipv4_get_last_subprefix :: "('n, 32 word) ipnet \<Rightarrow> 'n \<Rightarrow> 'n" where
  "ipv4_get_last_subprefix I p = addr_to_v4_prefix I (net_broadcast I p)"

definition ipv4_try_aggregate :: "('n, 32 word) ipnet \<Rightarrow> 'n \<Rightarrow> 'n \<Rightarrow> 'n option" where
  "ipv4_try_aggregate I p1 p2 =
     (if ipv4_contains I p1 p2 then Some p1
      else if ipv4_contains I p2 p1 then Some p2
      else (case (net_supernet I p1, net_supernet I p2) of
              (Some super1, Some super2) \<Rightarrow> if super1 = super2 then Some super1 else None
            | _ \<Rightarrow> None))"

definition ipv4_try_from :: "('n, 32 word) ipnet \<Rightarrow> 'n \<Rightarrow> prefix_error + 'n" where
  "ipv4_try_from I value =
     (if net_addr I value = net_network I value then Inr value else Inl NonCanonicalRepresentation)"

definition ipv4_from_str :: "('n, 32 word) ipnet \<Rightarrow> string \<Rightarrow> prefix_error + 'n" where
  "ipv4_from_str I s =
     (case net_parse I s of None \<Rightarrow> Inl ParseError | Some net \<Rightarrow> ipv4_try_from I net)"

definition ipv6_contains :: "('n, 128 word) ipnet \<Rightarrow> 'n \<Rightarrow> 'n \<Rightarrow> bool" where
  "ipv6_contains I p other = net_contains I p other"

definition ipv6_get_sibling :: "('n, 128 word) ipnet \<Rightarrow> 'n \<Rightarrow> 'n option option" where
  "ipv6_get_sibling I p =
     (let n = net_prefix_len I p
      in if n = 0 then Some None
         else if n \<le> 128 then
           (let addr_bits = net_addr I p;
                shift_amount = 128 - n;
                single_bit_flip = push_bit shift_amount 1;
                sibling_addr_bits = addr_bits XOR single_bit_flip
            in map_option Some (net_new I sibling_addr_bits n))
         else None)"

definition ipv6_bifurcate :: "('n, 128 word) ipnet \<Rightarrow> 'n \<Rightarrow> ('n \<times> 'n) option option" where
  "ipv6_bifurcate I p =
     (let n = net_prefix_len I p
      in if n \<le> 127 then
           (let even_addr_bits = net_addr I p;
                single_bit_flip = drop_bit n 0x80000000000000000000000000000000;
                odd_addr_bits = even_addr_bits OR single_bit_flip;
                new_prefix_length = n + 1
            in (case (net_new I even_addr_bits new_prefix_length, net_new I odd_addr_bits new_prefix_length) of
                  (Some even_net, Some odd_net) \<Rightarrow> Some (Some (even_net, odd_net))
                | _ \<Rightarrow> None))
         else Some None)"

definition addr_to_v6_prefix :: "('n, 128 word) ipnet \<Rightarrow> 128 word \<Rightarrow> 'n" where
  "addr_to_v6_prefix I a = net_from I a"

definition net_to_v6_prefix :: "('n, 128 word) ipnet \<Rightarrow> 'n \<Rightarrow> 'n" where
  "net_to_v6_prefix I net = net_trunc I net"

definition ipv6_get_last_subprefix :: "('n, 128 word) ipnet \<Rightarrow> 'n \<Rightarrow> 'n" where
  "ipv6_get_last_subprefix I p = addr_to_v6_prefix I (net_broadcast I p)"

definition ipv6_try_aggregate :: "('n, 128 word) ipnet \<Rightarrow> 'n \<Rightarrow> 'n \<Rightarrow> 'n option" where
  "ipv6_try_aggregate I p1 p2 =
     (if ipv6_contains I p1 p2 then Some p1
      else if ipv6_contains I p2 p1 then Some p2
      else (case (net_supernet I p1, net_supernet I p2) of
              (Some super1, Some super2) \<Rightarrow> if super1 = super2 then Some super1 else None
            | _ \<Rightarrow> None))"

definition ipv6_try_from :: "('n, 128 word) ipnet \<Rightarrow> 'n \<Rightarrow> prefix_error + 'n" where
  "ipv6_try_from I value =
     (if net_addr I value = net_network I value then Inr value else Inl NonCanonicalRepresentation)"

definition ipv6_from_str :: "('n, 128 word) ipnet \<Rightarrow> string \<Rightarrow> prefix_error + 'n" where
  "ipv6_from_str I s =
     (case net_parse I s of None \<Rightarrow> Inl ParseError | Some net \<Rightarrow> ipv6_try_from I net)"

section \<open>Prefixes of either family\<close>

datatype ('n4, 'n6) ip_prefix = V4 'n4 | V6 'n6

datatype ip_addr = AddrV4 "32 word" | AddrV6 "128 word"

datatype ip_address_family = Ipv4 | Ipv6

fun address_family :: "('n4, 'n6) ip_prefix \<Rightarrow> ip_address_family" where
  "address_family (V4 _) = Ipv4"
| "address_family (V6 _) = Ipv6"

text \<open>The order of \<open>impl Ord for IpPrefix\<close>: every IPv4 prefix before every IPv6 prefix.\<close>

fun ip_prefix_le :: "('n4::ord, 'n6::ord) ip_prefix \<Rightarrow> ('n4, 'n6) ip_prefix \<Rightarrow> bool" where
  "ip_prefix_le (V4 _) (V6 _) = True"
| "ip_prefix_le (V6 _) (V4 _) = False"
| "ip_prefix_le (V4 p1) (V4 p2) = (p1 \<le> p2)"
| "ip_prefix_le (V6 p1) (V6 p2) = (p1 \<le> p2)"

instantiation ip_prefix :: (linorder, linorder) linorder
begin

definition less_eq_ip_prefix_def [simp]: "p \<le> q \<longleftrightarrow> ip_prefix_le p q" for p q :: "('a, 'b) ip_prefix"

definition less_ip_prefix :: "('a, 'b) ip_prefix \<Rightarrow> ('a, 'b) ip_prefix \<Rightarrow> bool" where
  "less_ip_prefix p q \<longleftrightarrow> p \<le> q \<and> \<not> q \<le> p"

instance
proof
  fix x y z :: "('a, 'b) ip_prefix"
  show "(x < y) = (x \<le> y \<and> \<not> y \<le> x)" by (rule less_ip_prefix_def)
  show "x \<le> x" by (cases x) auto
  show "x \<le> y \<Longrightarrow> y \<le> z \<Longrightarrow> x \<le> z" by (cases x; cases y; cases z) auto
  show "x \<le> y \<Longrightarrow> y \<le> x \<Longrightarrow> x = y" by (cases x; cases y) auto
  show "x \<le> y \<or> y \<le> x" by (cases x; cases y) auto
qed

end

fun ip_contains :: "('n4, 32 word) ipnet \<Rightarrow> ('n6, 128 word) ipnet
    \<Rightarrow> ('n4, 'n6) ip_prefix \<Rightarrow> ('n4, 'n6) ip_prefix \<Rightarrow> bool" where
  "ip_contains I4 I6 (V4 p) (V4 q) = ipv4_contains I4 p q"
| "ip_contains I4 I6 (V6 p) (V6 q) = ipv6_contains I6 p q"
| "ip_contains I4 I6 _ _ = False"

fun ip_get_sibling :: "('n4, 32 word) ipnet \<Rightarrow> ('n6, 128 word) ipnet
    \<Rightarrow> ('n4, 'n6) ip_prefix \<Rightarrow> ('n4, 'n6) ip_prefix option option" where
  "ip_get_sibling I4 I6 (V4 p) = map_option (map_option V4) (ipv4_get_sibling I4 p)"
| "ip_get_sibling I4 I6 (V6 p) = map_option (map_option V6) (ipv6_get_sibling I6 p)"

fun ip_bifurcate :: "('n4, 32 word) ipnet \<Rightarrow> ('n6, 128 word) ipnet \<Rightarrow> ('n4, 'n6) ip_prefix
    \<Rightarrow> (('n4, 'n6) ip_prefix \<times> ('n4, 'n6) ip_prefix) option option" where
  "ip_bifurcate I4 I6 (V4 p) = map_option (map_option (map_prod V4 V4)) (ipv4_bifurcate I4 p)"
| "ip_bifurcate I4 I6 (V6 p) = map_option (map_option (map_prod V6 V6)) (ipv6_bifurcate I6 p)"

fun ip_get_last_subprefix :: "('n4, 32 word) ipnet \<Rightarrow> ('n6, 128 word) ipnet
    \<Rightarrow> ('n4, 'n6) ip_prefix \<Rightarrow> ('n4, 'n6) ip_prefix" where
  "ip_get_last_subprefix I4 I6 (V4 p) = V4 (ipv4_get_last_subprefix I4 p)"
| "ip_get_last_subprefix I4 I6 (V6 p) = V6 (ipv6_get_last_subprefix I6 p)"

fun ip_try_aggregate :: "('n4, 32 word) ipnet \<Rightarrow> ('n6, 128 word) ipnet
    \<Rightarrow> ('n4, 'n6) ip_prefix \<Rightarrow> ('n4, 'n6) ip_prefix \<Rightarrow> ('n4, 'n6) ip_prefix option" where
  "ip_try_aggregate I4 I6 (V4 p) (V4 q) = map_option V4 (ipv4_try_aggregate I4 p q)"
| "ip_try_aggregate I4 I6 (V6 p) (V6 q) = map_option V6 (ipv6_try_aggregate I6 p q)"
| "ip_try_aggregate I4 I6 _ _ = None"

fun prefix_length :: "('n4, 32 word) ipnet \<Rightarrow> ('n6, 128 word) ipnet \<Rightarrow> ('n4, 'n6) ip_prefix \<Rightarrow> nat" where
  "prefix_length I4 I6 (V4 p) = net_prefix_len I4 p"
| "prefix_length I4 I6 (V6 p) = net_prefix_len I6 p"

fun addr_to_prefix :: "('n4, 32 word) ipnet \<Rightarrow> ('n6, 128 word) ipnet \<Rightarrow> ip_addr \<Rightarrow> ('n4, 'n6) ip_prefix" where
  "addr_to_prefix I4 I6 (AddrV4 a) = V4 (addr_to_v4_prefix I4 a)"
| "addr_to_prefix I4 I6 (AddrV6 a) = V6 (addr_to_v6_prefix I6 a)"

text \<open>An \<open>IpNet\<close> is a network of either family, so the same datatype without canonicity.\<close>

fun net_to_prefix :: "('n4, 32 word) ipnet \<Rightarrow> ('n6, 128 word) ipnet
    \<Rightarrow> ('n4, 'n6) ip_prefix \<Rightarrow> ('n4, 'n6) ip_prefix" where
  "net_to_prefix I4 I6 (V4 n) = V4 (net_to_v4_prefix I4 n)"
| "net_to_prefix I4 I6 (V6 n) = V6 (net_to_v6_prefix I6 n)"

fun ip_try_from :: "('n4, 32 word) ipnet \<Rightarrow> ('n6, 128 word) ipnet
    \<Rightarrow> ('n4, 'n6) ip_prefix \<Rightarrow> prefix_error + ('n4, 'n6) ip_prefix" where
  "ip_try_from I4 I6 (V4 n) = map_sum id V4 (ipv4_try_from I4 n)"
| "ip_try_from I4 I6 (V6 n) = map_sum id V6 (ipv6_try_from I6 n)"

fun ip_try_from_addr_len :: "('n4, 32 word) ipnet \<Rightarrow> ('n6, 128 word) ipnet
    \<Rightarrow> ip_addr \<times> nat \<Rightarrow> prefix_error + ('n4, 'n6) ip_prefix" where
  "ip_try_from_addr_len I4 I6 (AddrV4 a, n) =
     (case net_new I4 a n of None \<Rightarrow> Inl BadPrefixLength | Some net \<Rightarrow> ip_try_from I4 I6 (V4 net))"
| "ip_try_from_addr_len I4 I6 (AddrV6 a, n) =
     (case net_new I6 a n of None \<Rightarrow> Inl BadPrefixLength | Some net \<Rightarrow> ip_try_from I4 I6 (V6 net))"

section \<open>Address ranges as blocks\<close>

text \<open>
  The address set of a network, its canonical form, and its description as the block
  \<open>dyad\<close> with the network's host bits as exponent.
\<close>

definition net_addrs :: "('n, 'a::len word) ipnet \<Rightarrow> 'n \<Rightarrow> 'a word set" where
  "net_addrs I p = {net_network I p .. net_broadcast I p}"

definition canonical :: "('n, 'a::len word) ipnet \<Rightarrow> 'n \<Rightarrow> bool" where
  "canonical I p \<longleftrightarrow> net_addr I p = net_network I p"

definition host_bits :: "('n, 'a::len word) ipnet \<Rightarrow> 'n \<Rightarrow> nat" where
  "host_bits I p = LENGTH('a) - net_prefix_len I p"

definition blk :: "('n, 'a::len word) ipnet \<Rightarrow> 'n \<Rightarrow> nat" where
  "blk I p = unat (net_addr I p) div 2 ^ host_bits I p"

lemma inj_unat: "inj (unat :: 'a::len word \<Rightarrow> nat)"
  by (rule injI) (rule unsigned_word_eqI)

context ipnet_laws
begin

lemma host_bits_le: "host_bits I p \<le> LENGTH('a)"
  by (simp add: host_bits_def)

lemma len_host_bits: "net_prefix_len I p = LENGTH('a) - host_bits I p"
  using len_le [of p] by (simp add: host_bits_def)

lemma unat_network: "unat (net_network I p) = blk I p * 2 ^ host_bits I p"
  by (simp add: network blk_def host_bits_def unat_and_not_mask)

lemma unat_broadcast: "unat (net_broadcast I p) = blk I p * 2 ^ host_bits I p + (2 ^ host_bits I p - 1)"
  by (simp add: broadcast blk_def host_bits_def unat_or_mask)

lemma in_net_addrs: "a \<in> net_addrs I p \<longleftrightarrow> unat a \<in> dyad (host_bits I p) (blk I p)"
proof -
  have "a \<le> net_broadcast I p \<longleftrightarrow> unat a < Suc (blk I p) * 2 ^ host_bits I p"
    using zero_less_power [of "2::nat" "host_bits I p"]
    by (simp only: word_le_nat_alt unat_broadcast mult_Suc) linarith
  then show ?thesis
    by (simp add: net_addrs_def dyad_iff word_le_nat_alt unat_network)
qed

lemma blk_bound: "Suc (blk I p) * 2 ^ host_bits I p \<le> 2 ^ LENGTH('a)"
proof -
  have e: "(2::nat) ^ LENGTH('a) = 2 ^ (LENGTH('a) - host_bits I p) * 2 ^ host_bits I p"
    using host_bits_le [of p] by (simp flip: power_add)
  have "blk I p < 2 ^ (LENGTH('a) - host_bits I p)"
    unfolding blk_def using unsigned_less [of "net_addr I p", where 'a = nat]
    by (intro less_mult_imp_div_less) (simp add: e)
  then have "Suc (blk I p) \<le> 2 ^ (LENGTH('a) - host_bits I p)" by simp
  then show ?thesis by (simp only: e mult_le_mono1)
qed

lemma unat_net_addrs: "unat ` net_addrs I p = dyad (host_bits I p) (blk I p)"
proof
  show "dyad (host_bits I p) (blk I p) \<subseteq> unat ` net_addrs I p"
  proof
    fix x assume x: "x \<in> dyad (host_bits I p) (blk I p)"
    then have "x < 2 ^ LENGTH('a)" using blk_bound [of p] by (simp add: dyad_iff)
    then have "unat (word_of_nat x :: 'a word) = x" by (simp add: unsigned_of_nat take_bit_nat_eq_self)
    with x show "x \<in> unat ` net_addrs I p" by (metis image_eqI in_net_addrs)
  qed
qed (auto simp: in_net_addrs)

lemma net_addrs_sub_iff:
  "net_addrs I q \<subseteq> net_addrs I p \<longleftrightarrow>
   dyad (host_bits I q) (blk I q) \<subseteq> dyad (host_bits I p) (blk I p)"
  by (simp flip: unat_net_addrs add: inj_image_subset_iff [OF inj_unat])

lemma net_addrs_disjoint_iff:
  "net_addrs I q \<inter> net_addrs I p = {} \<longleftrightarrow>
   dyad (host_bits I q) (blk I q) \<inter> dyad (host_bits I p) (blk I p) = {}"
  by (simp flip: unat_net_addrs image_Int [OF inj_unat])

lemma net_addrs_union_iff:
  "net_addrs I u = net_addrs I p \<union> net_addrs I q \<longleftrightarrow>
   dyad (host_bits I u) (blk I u) = dyad (host_bits I p) (blk I p) \<union> dyad (host_bits I q) (blk I q)"
  by (simp flip: unat_net_addrs image_Un add: inj_image_eq_iff [OF inj_unat])

lemma net_addrs_psub_iff:
  "net_addrs I q \<subset> net_addrs I p \<longleftrightarrow>
   dyad (host_bits I q) (blk I q) \<subset> dyad (host_bits I p) (blk I p)"
  by (simp add: psubset_eq inj_image_subset_iff [OF inj_unat] inj_image_eq_iff [OF inj_unat]
      flip: unat_net_addrs)

lemmas net_addrs_blocks = net_addrs_sub_iff net_addrs_disjoint_iff net_addrs_union_iff

lemma canonical_unat: "canonical I p \<longleftrightarrow> unat (net_addr I p) = blk I p * 2 ^ host_bits I p"
  using inj_unat [THEN inj_eq, of "net_addr I p" "net_network I p"]
  by (simp add: canonical_def unat_network)

lemma canonicalI:
  assumes "unat (net_addr I p) = k * 2 ^ host_bits I p"
  shows "canonical I p" "blk I p = k"
  using assms by (simp_all add: canonical_unat blk_def)

lemma canonical_blocks_inj:
  assumes "canonical I p" "canonical I q"
    "dyad (host_bits I p) (blk I p) = dyad (host_bits I q) (blk I q)"
  shows "p = q"
proof -
  have "host_bits I p = host_bits I q" "blk I p = blk I q" using assms(3) by (auto simp: dyad_inj)
  moreover from this have "net_addr I p = net_addr I q"
    using assms(1,2) by (intro injD [OF inj_unat]) (simp add: canonical_unat)
  ultimately show ?thesis by (intro net_eqI) (simp_all add: len_host_bits)
qed

lemma net_contains_iff: "net_contains I p q \<longleftrightarrow> net_addrs I q \<subseteq> net_addrs I p"
proof -
  have "net_network I q \<le> net_broadcast I q"
    by (simp only: word_le_nat_alt unat_network unat_broadcast le_add1)
  then show ?thesis by (auto simp: contains net_addrs_def)
qed

end

end
