(* ===== verification/Ip_Set.thy ===== *)
theory Ip_Set
  imports Prelude
begin

text \<open>
  The address set \<open>IpSet\<close> (\<open>crates/network/src/ip/ipset.rs\<close>). Its \<open>BTreeSet\<close> is a strictly
  increasing list; \<open>range\<close>, \<open>remove\<close>, \<open>take\<close> and \<open>insert\<close> are the list operations below. The
  methods of \<open>IpPrefix\<close> it calls are the record \<open>prefix_ops\<close>, which the theory of prefixes
  provides, and the locale \<open>prefix_space\<close> is the contract between the two.

  \<open>None\<close> is a panic: an \<open>unwrap\<close> of \<open>None\<close>, \<open>unreachable!\<close>, or a \<open>range\<close> whose start is above
  its end.
\<close>

section \<open>The prefix interface\<close>

record 'p prefix_ops =
  p_contains :: "'p \<Rightarrow> 'p \<Rightarrow> bool"
  p_get_sibling :: "'p \<Rightarrow> 'p option option"
  p_bifurcate :: "'p \<Rightarrow> ('p \<times> 'p) option option"
  p_get_last_subprefix :: "'p \<Rightarrow> 'p"
  p_try_aggregate :: "'p \<Rightarrow> 'p \<Rightarrow> 'p option"

section \<open>Operations\<close>

definition range_to :: "'p::linorder \<Rightarrow> 'p list \<Rightarrow> 'p list" where
  "range_to hi s = filter (\<lambda>q. q \<le> hi) s"

definition range_incl :: "'p::linorder \<Rightarrow> 'p \<Rightarrow> 'p list \<Rightarrow> 'p list option" where
  "range_incl lo hi s = (if hi < lo then None else Some (filter (\<lambda>q. lo \<le> q \<and> q \<le> hi) s))"

definition get_containing_prefix ::
    "'p::linorder prefix_ops \<Rightarrow> 'p list \<Rightarrow> 'p \<Rightarrow> 'p option" where
  "get_containing_prefix P s prefix =
     (case range_to prefix s of
        [] \<Rightarrow> None
      | r \<Rightarrow> if p_contains P (last r) prefix then Some (last r) else None)"

definition contains_prefix :: "'p::linorder prefix_ops \<Rightarrow> 'p list \<Rightarrow> 'p \<Rightarrow> bool" where
  "contains_prefix P s prefix = (get_containing_prefix P s prefix \<noteq> None)"

text \<open>The argument of \<open>contains\<close> is anything with a \<open>to_prefix\<close>: an address, a network or a prefix.\<close>

definition ipset_contains :: "'p::linorder prefix_ops \<Rightarrow> ('v \<Rightarrow> 'p) \<Rightarrow> 'p list \<Rightarrow> 'v \<Rightarrow> bool" where
  "ipset_contains P to_prefix s value = (let prefix = to_prefix value in contains_prefix P s prefix)"

definition subprefix_range :: "'p prefix_ops \<Rightarrow> 'p \<Rightarrow> 'p \<times> 'p" where
  "subprefix_range P prefix = (prefix, p_get_last_subprefix P prefix)"

text \<open>The loop that removes every stored prefix inside \<open>prefix\<close>.\<close>

function remove_subprefixes ::
    "'p::linorder prefix_ops \<Rightarrow> 'p \<Rightarrow> 'p list \<Rightarrow> 'p list option" where
  "remove_subprefixes P prefix s =
     (case range_incl (fst (subprefix_range P prefix)) (snd (subprefix_range P prefix)) s of
        None \<Rightarrow> None
      | Some r \<Rightarrow> (case find (p_contains P prefix) r of
          None \<Rightarrow> Some s
        | Some subprefix \<Rightarrow> remove_subprefixes P prefix (remove1 subprefix s)))"
  by pat_completeness auto
termination
proof (relation "measure (\<lambda>(P, prefix, s). length s)", goal_cases)
  case (2 P prefix s r q)
  then have "q \<in> set s"
    by (auto simp: range_incl_def dest!: find_SomeD split: if_splits)
  then show ?case by (simp add: length_remove1_less)
qed simp

declare remove_subprefixes.simps [simp del]

text \<open>The loop that merges \<open>prefix\<close> with its stored sibling, level after level, and inserts.\<close>

function aggregate_up ::
    "'p::linorder prefix_ops \<Rightarrow> 'p \<Rightarrow> 'p list \<Rightarrow> 'p list option" where
  "aggregate_up P prefix s =
     (case p_get_sibling P prefix of
        None \<Rightarrow> None
      | Some None \<Rightarrow> Some (insort_insert prefix s)
      | Some (Some sibling) \<Rightarrow>
          if sibling \<in> set s then
            (case p_try_aggregate P prefix sibling of
               None \<Rightarrow> None
             | Some aggregated \<Rightarrow> aggregate_up P aggregated (remove1 sibling s))
          else Some (insort_insert prefix s))"
  by pat_completeness auto
termination
proof (relation "measure (\<lambda>(P, prefix, s). length s)", goal_cases)
  case (2 P prefix s r q u)
  then show ?case by (simp add: length_remove1_less)
qed simp

declare aggregate_up.simps [simp del]

definition ipset_add :: "'p::linorder prefix_ops \<Rightarrow> 'p list \<Rightarrow> 'p \<Rightarrow> 'p list option" where
  "ipset_add P s prefix =
     (if contains_prefix P s prefix then Some s
      else Option.bind (remove_subprefixes P prefix s) (aggregate_up P prefix))"

text \<open>The loop that halves the removed container until the requested prefix is left.\<close>

partial_function (option) fragment ::
    "'p::linorder prefix_ops \<Rightarrow> 'p \<Rightarrow> 'p \<Rightarrow> 'p list \<Rightarrow> 'p list option" where
  "fragment P prefix container s =
     (if container = prefix then Some s
      else (case p_bifurcate P container of
          None \<Rightarrow> None
        | Some None \<Rightarrow> None
        | Some (Some (c1, c2)) \<Rightarrow>
            if p_contains P c1 prefix then fragment P prefix c1 (insort_insert c2 s)
            else if p_contains P c2 prefix then fragment P prefix c2 (insort_insert c1 s)
            else None))"

definition ipset_remove :: "'p::linorder prefix_ops \<Rightarrow> 'p list \<Rightarrow> 'p \<Rightarrow> 'p list option" where
  "ipset_remove P s prefix =
     (case get_containing_prefix P s prefix of
        None \<Rightarrow> remove_subprefixes P prefix s
      | Some container \<Rightarrow> fragment P prefix container (remove1 container s))"

definition ipset_get_prefixes :: "'p list \<Rightarrow> 'p list" where
  "ipset_get_prefixes s = s"

definition ipset_new_empty :: "'p list" where
  "ipset_new_empty = []"

definition ipset_from_prefix :: "'p \<Rightarrow> 'p list" where
  "ipset_from_prefix value = [value]"

fun ipset_add_all :: "'p::linorder prefix_ops \<Rightarrow> 'p list \<Rightarrow> 'p list \<Rightarrow> 'p list option" where
  "ipset_add_all P s [] = Some s"
| "ipset_add_all P s (p # ps) = Option.bind (ipset_add P s p) (\<lambda>s'. ipset_add_all P s' ps)"

definition ipset_from :: "'p::linorder prefix_ops \<Rightarrow> ('v \<Rightarrow> 'p) \<Rightarrow> 'v list \<Rightarrow> 'p list option" where
  "ipset_from P to_prefix value = ipset_add_all P ipset_new_empty (map to_prefix value)"

definition aggregate_prefixes ::
    "'p::linorder prefix_ops \<Rightarrow> ('v \<Rightarrow> 'p) \<Rightarrow> 'v list \<Rightarrow> 'p list option" where
  "aggregate_prefixes P to_prefix prefix_sources =
     map_option ipset_get_prefixes (ipset_from P to_prefix prefix_sources)"

text \<open>
  The invariants stated at the field \<open>included_prefixes\<close>: the prefixes are disjoint, and no two
  of them are siblings. \<open>prefixes_cover\<close> is the address space they stand for.
\<close>

definition prefixes_disjoint :: "('p::linorder \<Rightarrow> bool) \<Rightarrow> ('p \<Rightarrow> 'b set) \<Rightarrow> 'p list \<Rightarrow> bool" where
  "prefixes_disjoint ok addrs s \<longleftrightarrow> sorted_wrt (<) s \<and> (\<forall>p \<in> set s. ok p) \<and>
     (\<forall>p \<in> set s. \<forall>q \<in> set s. p \<noteq> q \<longrightarrow> addrs p \<inter> addrs q = {})"

definition prefixes_minimal ::
    "'p::linorder prefix_ops \<Rightarrow> ('p \<Rightarrow> bool) \<Rightarrow> ('p \<Rightarrow> 'b set) \<Rightarrow> 'p list \<Rightarrow> bool" where
  "prefixes_minimal P ok addrs s \<longleftrightarrow> prefixes_disjoint ok addrs s \<and>
     (\<forall>p \<in> set s. \<forall>q \<in> set s. p_get_sibling P p \<noteq> Some (Some q))"

definition prefixes_cover :: "('p \<Rightarrow> 'b set) \<Rightarrow> 'p list \<Rightarrow> 'b set" where
  "prefixes_cover addrs s = (\<Union>p \<in> set s. addrs p)"

section \<open>The contract with prefixes\<close>

text \<open>
  \<open>addrs\<close> is the set of addresses of a prefix and \<open>wf\<close> says that it is canonical. Two
  prefixes are nested or disjoint; siblings are disjoint and their parent is exactly their
  union; halving is the inverse; the order lists a prefix before everything inside it and
  nothing else in between.
\<close>

locale prefix_space =
  fixes P :: "'p::linorder prefix_ops" and wf :: "'p \<Rightarrow> bool" and addrs :: "'p \<Rightarrow> 'b set"
  assumes addrs_finite: "wf p \<Longrightarrow> finite (addrs p)"
    and addrs_nonempty: "wf p \<Longrightarrow> addrs p \<noteq> {}"
    and addrs_inj: "wf p \<Longrightarrow> wf q \<Longrightarrow> addrs p = addrs q \<Longrightarrow> p = q"
    and laminar: "wf p \<Longrightarrow> wf q \<Longrightarrow>
      addrs p \<subseteq> addrs q \<or> addrs q \<subseteq> addrs p \<or> addrs p \<inter> addrs q = {}"
    and contains_iff: "wf p \<Longrightarrow> wf q \<Longrightarrow> p_contains P p q \<longleftrightarrow> addrs q \<subseteq> addrs p"
    and sibling_returns: "wf p \<Longrightarrow> \<exists>r. p_get_sibling P p = Some r"
    and sibling_wf: "wf p \<Longrightarrow> p_get_sibling P p = Some (Some q) \<Longrightarrow> wf q"
    and sibling_sym: "wf p \<Longrightarrow> p_get_sibling P p = Some (Some q) \<Longrightarrow> p_get_sibling P q = Some (Some p)"
    and sibling_disjoint: "wf p \<Longrightarrow> p_get_sibling P p = Some (Some q) \<Longrightarrow> addrs p \<inter> addrs q = {}"
    and sibling_aggregate: "wf p \<Longrightarrow> p_get_sibling P p = Some (Some q) \<Longrightarrow>
      \<exists>u. p_try_aggregate P p q = Some u \<and> wf u \<and> addrs u = addrs p \<union> addrs q"
    and bifurcate_returns: "wf p \<Longrightarrow> \<exists>r. p_bifurcate P p = Some r"
    and bifurcate_none: "wf p \<Longrightarrow> p_bifurcate P p = Some None \<Longrightarrow> \<exists>a. addrs p = {a}"
    and bifurcate_wf: "wf p \<Longrightarrow> p_bifurcate P p = Some (Some (a, b)) \<Longrightarrow> wf a \<and> wf b"
    and bifurcate_sibling: "wf p \<Longrightarrow> p_bifurcate P p = Some (Some (a, b)) \<Longrightarrow>
      p_get_sibling P a = Some (Some b)"
    and bifurcate_union: "wf p \<Longrightarrow> p_bifurcate P p = Some (Some (a, b)) \<Longrightarrow>
      addrs p = addrs a \<union> addrs b"
    and bifurcate_strict: "wf p \<Longrightarrow> wf q \<Longrightarrow> p_bifurcate P p = Some (Some (a, b)) \<Longrightarrow>
      addrs q \<subset> addrs p \<Longrightarrow> addrs q \<subseteq> addrs a \<or> addrs q \<subseteq> addrs b"
    and order_sub: "wf p \<Longrightarrow> wf q \<Longrightarrow> addrs q \<subseteq> addrs p \<Longrightarrow> p \<le> q \<and> q \<le> p_get_last_subprefix P p"
    and order_convex: "wf p \<Longrightarrow> wf q \<Longrightarrow> wf r \<Longrightarrow> p \<le> r \<Longrightarrow> r \<le> q \<Longrightarrow>
      addrs q \<subseteq> addrs p \<Longrightarrow> addrs r \<subseteq> addrs p"
begin

text \<open>The invariants the comment in \<open>IpSet\<close> states, and what a set denotes.\<close>

abbreviation ipset_disjoint :: "'p list \<Rightarrow> bool" where
  "ipset_disjoint \<equiv> prefixes_disjoint wf addrs"

abbreviation ipset_inv :: "'p list \<Rightarrow> bool" where
  "ipset_inv \<equiv> prefixes_minimal P wf addrs"

abbreviation covered :: "'p list \<Rightarrow> 'b set" where
  "covered \<equiv> prefixes_cover addrs"

lemma disjointD:
  "ipset_disjoint s \<Longrightarrow> p \<in> set s \<Longrightarrow> q \<in> set s \<Longrightarrow> a \<in> addrs p \<Longrightarrow> a \<in> addrs q \<Longrightarrow> p = q"
  by (auto simp: prefixes_disjoint_def)

lemma disjoint_wf: "ipset_disjoint s \<Longrightarrow> p \<in> set s \<Longrightarrow> wf p"
  by (simp add: prefixes_disjoint_def)

lemma inv_disjoint: "ipset_inv s \<Longrightarrow> ipset_disjoint s"
  by (simp add: prefixes_minimal_def)

text \<open>Looking a prefix up finds the one stored prefix that holds all of it, if there is one.\<close>

lemma get_containing_Some:
  assumes "ipset_disjoint s" "wf p" "get_containing_prefix P s p = Some c"
  shows "c \<in> set s \<and> addrs p \<subseteq> addrs c"
proof -
  let ?r = "range_to p s"
  from assms(3) have ne: "?r \<noteq> []" and c: "c = last ?r" "p_contains P c p"
    by (auto simp: get_containing_prefix_def split: list.splits if_splits)
  then have "c \<in> set s"
    using last_in_set [OF ne] by (simp add: range_to_def)
  with c(2) show ?thesis
    using contains_iff [OF disjoint_wf [OF assms(1)] assms(2)] by simp
qed

lemma get_containing_complete:
  assumes "ipset_disjoint s" "wf p" "c \<in> set s" "addrs p \<subseteq> addrs c"
  shows "get_containing_prefix P s p = Some c"
proof -
  have wc: "wf c" using assms(1,3) by (rule disjoint_wf)
  have "c \<le> p" using order_sub [OF wc assms(2,4)] by simp
  moreover have "sorted_wrt (<) s" using assms(1) by (simp add: prefixes_disjoint_def)
  ultimately have r: "range_to p s \<noteq> []" "last (range_to p s) \<in> set s" "last (range_to p s) \<le> p"
    "c \<le> last (range_to p s)"
    using last_filter_le [of s c "\<lambda>q. q \<le> p"] assms(3) by (auto simp: range_to_def)
  have wr: "wf (last (range_to p s))" using assms(1) r(2) by (rule disjoint_wf)
  have "addrs (last (range_to p s)) \<subseteq> addrs c"
    using order_convex [OF wc assms(2) wr r(4,3) assms(4)] .
  moreover obtain a where "a \<in> addrs (last (range_to p s))"
    using addrs_nonempty [OF wr] by blast
  ultimately have "last (range_to p s) = c"
    using disjointD [OF assms(1) r(2) assms(3)] by blast
  then show ?thesis
    using r(1) contains_iff [OF wc assms(2)] assms(4)
    by (auto simp: get_containing_prefix_def split: list.splits)
qed

lemma get_containing_None:
  assumes "ipset_disjoint s" "wf p" "get_containing_prefix P s p = None" "c \<in> set s"
  shows "\<not> addrs p \<subseteq> addrs c"
  using get_containing_complete assms by fastforce

text \<open>A covered prefix lies in one stored prefix: a set without siblings is fully merged.\<close>

lemma covered_single:
  assumes inv: "ipset_inv s" and "wf p" "addrs p \<subseteq> covered s"
  shows "\<exists>c \<in> set s. addrs p \<subseteq> addrs c"
  using assms(2,3)
proof (induction "card (addrs p)" arbitrary: p rule: less_induct)
  case less
  note dj = inv_disjoint [OF inv]
  obtain r where r: "p_bifurcate P p = Some r" using bifurcate_returns less.prems(1) by blast
  show ?case
  proof (cases r)
    case None
    then obtain a where "addrs p = {a}" using bifurcate_none less.prems(1) r by blast
    with less.prems(2) show ?thesis by (auto simp: prefixes_cover_def)
  next
    case (Some ab)
    then obtain a b where ab: "p_bifurcate P p = Some (Some (a, b))" using r by (cases ab) auto
    note w = bifurcate_wf [OF less.prems(1) ab] and u = bifurcate_union [OF less.prems(1) ab]
      and sib = bifurcate_sibling [OF less.prems(1) ab]
    note d = sibling_disjoint [OF conjunct1 [OF w] sib]
    have fin: "finite (addrs p)" using addrs_finite less.prems(1) by blast
    have half: "\<exists>c \<in> set s. addrs x \<subseteq> addrs c" if "x = a \<or> x = b" for x
    proof (rule less.hyps)
      show "wf x" using that w by auto
      show "addrs x \<subseteq> covered s" using that u less.prems(2) by blast
      have "addrs x \<subset> addrs p"
        using that u d addrs_nonempty w by blast
      with fin show "card (addrs x) < card (addrs p)" by (rule psubset_card_mono)
    qed
    obtain ca where ca: "ca \<in> set s" "addrs a \<subseteq> addrs ca" using half by blast
    obtain cb where cb: "cb \<in> set s" "addrs b \<subseteq> addrs cb" using half by blast
    show ?thesis
    proof (rule ccontr)
      assume no: "\<not> (\<exists>c \<in> set s. addrs p \<subseteq> addrs c)"
      have self: "c = x" if c: "c \<in> set s" "addrs x \<subseteq> addrs c" and x: "x = a \<or> x = b" for c x
      proof -
        have wc: "wf c" using dj c(1) by (rule disjoint_wf)
        have wx: "wf x" using x w by auto
        have "addrs c \<subset> addrs p"
          using laminar [OF wc less.prems(1)] no c x u addrs_nonempty [OF wx] by blast
        then have "addrs c \<subseteq> addrs a \<or> addrs c \<subseteq> addrs b"
          using bifurcate_strict [OF less.prems(1) wc ab] by blast
        then have "addrs c = addrs x"
          using c x d addrs_nonempty [OF wx] by blast
        then show "c = x" using addrs_inj wc wx by blast
      qed
      have "a \<in> set s" "b \<in> set s" using self [OF ca] self [OF cb] ca cb by auto
      then show False using inv sib by (auto simp: prefixes_minimal_def)
    qed
  qed
qed

lemma contains_prefix_iff:
  assumes "ipset_inv s" "wf p"
  shows "contains_prefix P s p \<longleftrightarrow> addrs p \<subseteq> covered s"
proof
  assume "contains_prefix P s p"
  then show "addrs p \<subseteq> covered s"
    using get_containing_Some [OF inv_disjoint [OF assms(1)] assms(2)]
    by (fastforce simp: contains_prefix_def prefixes_cover_def)
next
  assume "addrs p \<subseteq> covered s"
  then obtain c where "c \<in> set s" "addrs p \<subseteq> addrs c"
    using covered_single assms by blast
  then show "contains_prefix P s p"
    using get_containing_complete [OF inv_disjoint [OF assms(1)] assms(2)]
    by (simp add: contains_prefix_def)
qed

section \<open>Updates\<close>

lemma disjoint_subset:
  assumes "ipset_disjoint s" "sorted_wrt (<) t" "set t \<subseteq> set s"
  shows "ipset_disjoint t"
  using assms unfolding prefixes_disjoint_def by blast

lemma inv_subset:
  assumes "ipset_inv s" "sorted_wrt (<) t" "set t \<subseteq> set s"
  shows "ipset_inv t"
  using assms disjoint_subset [of s t] by (auto simp: prefixes_minimal_def)

lemma inv_remove1: "ipset_inv s \<Longrightarrow> ipset_inv (remove1 q s)"
  by (rule inv_subset) (auto simp: prefixes_minimal_def prefixes_disjoint_def sorted_wrt_less_remove1
      dest: set_remove1_subset [THEN subsetD])

lemma covered_remove1:
  assumes "ipset_disjoint s" "q \<in> set s"
  shows "covered (remove1 q s) = covered s - addrs q"
proof -
  have "set (remove1 q s) = set s - {q}"
    using assms(1) by (auto simp: prefixes_disjoint_def strict_sorted_iff)
  then show ?thesis
    using assms disjointD [OF assms(1)] by (fastforce simp: prefixes_cover_def)
qed

lemma covered_insort [simp]: "covered (insort_insert q s) = covered s \<union> addrs q"
  by (auto simp: prefixes_cover_def set_insort_insert)

lemma inv_insort:
  assumes "ipset_inv s" "wf q" "\<forall>x \<in> set s. addrs x \<inter> addrs q = {}"
    "\<forall>x \<in> set s. p_get_sibling P q \<noteq> Some (Some x)"
  shows "ipset_inv (insort_insert q s)"
proof -
  have "\<forall>x \<in> set s. p_get_sibling P x \<noteq> Some (Some q)"
    using assms sibling_sym disjoint_wf [OF inv_disjoint [OF assms(1)]] by blast
  moreover have "p_get_sibling P q \<noteq> Some (Some q)"
    using sibling_disjoint [OF assms(2)] addrs_nonempty [OF assms(2)] by blast
  ultimately show ?thesis
    using assms by (auto simp: prefixes_minimal_def prefixes_disjoint_def set_insort_insert strict_sorted_iff
        sorted_insort_insert distinct_insort_insert)
qed

text \<open>The first loop keeps exactly the stored prefixes that are not inside the given one.\<close>

lemma remove_subprefixes_eq:
  assumes "ipset_disjoint s" "wf p"
  shows "remove_subprefixes P p s = Some (filter (\<lambda>q. \<not> addrs q \<subseteq> addrs p) s)"
  using assms(1)
proof (induction "length s" arbitrary: s rule: less_induct)
  case less
  let ?l = "p_get_last_subprefix P p"
  let ?r = "filter (\<lambda>q. p \<le> q \<and> q \<le> ?l) s"
  have "\<not> ?l < p" using order_sub [OF assms(2) assms(2)] by auto
  then have unfold: "remove_subprefixes P p s =
      (case find (p_contains P p) ?r of None \<Rightarrow> Some s
       | Some q \<Rightarrow> remove_subprefixes P p (remove1 q s))"
    by (simp add: remove_subprefixes.simps [of P p s] subprefix_range_def range_incl_def)
  have sub: "p_contains P p q \<longleftrightarrow> addrs q \<subseteq> addrs p" if "q \<in> set s" for q
    using contains_iff [OF assms(2) disjoint_wf [OF less.prems that]] .
  show ?case
  proof (cases "find (p_contains P p) ?r")
    case None
    have "\<not> addrs q \<subseteq> addrs p" if q: "q \<in> set s" for q
      using None q sub [OF q] order_sub [OF assms(2) disjoint_wf [OF less.prems q]]
      by (auto simp: find_None_iff)
    then have "filter (\<lambda>q. \<not> addrs q \<subseteq> addrs p) s = s" by (simp add: filter_id_conv)
    with None unfold show ?thesis by simp
  next
    case (Some q)
    then have q: "p_contains P p q" "q \<in> set s" by (auto dest: find_SomeD)
    then have in_p: "addrs q \<subseteq> addrs p" using sub by simp
    have "ipset_disjoint (remove1 q s)"
      using less.prems set_remove1_subset [of q s]
      by (intro disjoint_subset [OF less.prems]) (auto simp: prefixes_disjoint_def sorted_wrt_less_remove1)
    then have "remove_subprefixes P p (remove1 q s) =
        Some (filter (\<lambda>q. \<not> addrs q \<subseteq> addrs p) (remove1 q s))"
      using less.hyps length_remove1_less [OF q(2)] by blast
    also have "filter (\<lambda>q. \<not> addrs q \<subseteq> addrs p) (remove1 q s) = filter (\<lambda>q. \<not> addrs q \<subseteq> addrs p) s"
      using in_p by (simp add: filter_remove1_not)
    finally show ?thesis using Some unfold by simp
  qed
qed

lemma inv_filter: "ipset_inv s \<Longrightarrow> ipset_inv (filter Q s)"
  by (rule inv_subset) (auto simp: prefixes_minimal_def prefixes_disjoint_def sorted_wrt_filter)

text \<open>The merge loop returns, keeps the invariant and adds exactly the prefix's addresses.\<close>

lemma aggregate_up_correct:
  assumes "ipset_inv s" "wf p" "\<forall>x \<in> set s. addrs x \<inter> addrs p = {}"
  shows "\<exists>s'. aggregate_up P p s = Some s' \<and> ipset_inv s' \<and> covered s' = covered s \<union> addrs p"
  using assms
proof (induction "length s" arbitrary: s p rule: less_induct)
  case less
  obtain r where r: "p_get_sibling P p = Some r" using sibling_returns less.prems(2) by blast
  show ?case
  proof (cases "\<exists>q \<in> set s. r = Some q")
    case False
    then have "aggregate_up P p s = Some (insort_insert p s)"
      using r by (auto simp: aggregate_up.simps [of P p s] split: option.splits)
    moreover have "ipset_inv (insort_insert p s)"
      using False r less.prems by (intro inv_insort) auto
    ultimately show ?thesis by simp
  next
    case True
    then obtain q where q: "q \<in> set s" "p_get_sibling P p = Some (Some q)" using r by auto
    obtain u where u: "p_try_aggregate P p q = Some u" "wf u" "addrs u = addrs p \<union> addrs q"
      using sibling_aggregate [OF less.prems(2) q(2)] by blast
    note dj = inv_disjoint [OF less.prems(1)]
    have ne: "x \<in> set s \<and> x \<noteq> q" if "x \<in> set (remove1 q s)" for x
      using that dj by (simp add: prefixes_disjoint_def strict_sorted_iff)
    have "\<exists>s'. aggregate_up P u (remove1 q s) = Some s' \<and> ipset_inv s' \<and>
        covered s' = covered (remove1 q s) \<union> addrs u"
    proof (rule less.hyps)
      show "length (remove1 q s) < length s" using q(1) by (rule length_remove1_less)
      show "ipset_inv (remove1 q s)" using less.prems(1) by (rule inv_remove1)
      show "\<forall>x \<in> set (remove1 q s). addrs x \<inter> addrs u = {}"
        using ne less.prems(3) disjointD [OF dj] q(1) u(3) by blast
    qed (rule u(2))
    moreover have "covered (remove1 q s) \<union> addrs u = covered s \<union> addrs p"
      using covered_remove1 [OF dj q(1)] u(3) q(1) by (auto simp: prefixes_cover_def)
    moreover have "aggregate_up P p s = aggregate_up P u (remove1 q s)"
      using q u(1) by (simp add: aggregate_up.simps [of P p s])
    ultimately show ?thesis by simp
  qed
qed

lemma not_inside_disjoint:
  assumes "ipset_disjoint s" "wf p" "get_containing_prefix P s p = None" "x \<in> set s"
    "\<not> addrs x \<subseteq> addrs p"
  shows "addrs x \<inter> addrs p = {}"
  using laminar [OF disjoint_wf [OF assms(1,4)] assms(2)] get_containing_None [OF assms(1-4)]
    assms(5) by blast

lemma covered_filter_outside:
  assumes "ipset_disjoint s" "wf p" "get_containing_prefix P s p = None"
  shows "covered (filter (\<lambda>q. \<not> addrs q \<subseteq> addrs p) s) = covered s - addrs p"
  using not_inside_disjoint [OF assms] by (fastforce simp: prefixes_cover_def)

lemma add_correct:
  assumes "ipset_inv s" "wf p"
  shows "\<exists>s'. ipset_add P s p = Some s' \<and> ipset_inv s' \<and> covered s' = covered s \<union> addrs p"
proof (cases "contains_prefix P s p")
  case True
  then show ?thesis using contains_prefix_iff [OF assms] assms by (auto simp: ipset_add_def)
next
  case False
  note dj = inv_disjoint [OF assms(1)]
  let ?t = "filter (\<lambda>q. \<not> addrs q \<subseteq> addrs p) s"
  have none: "get_containing_prefix P s p = None" using False by (simp add: contains_prefix_def)
  have "\<exists>s'. aggregate_up P p ?t = Some s' \<and> ipset_inv s' \<and> covered s' = covered ?t \<union> addrs p"
    using not_inside_disjoint [OF dj assms(2) none] assms
    by (intro aggregate_up_correct inv_filter) auto
  with False covered_filter_outside [OF dj assms(2) none] show ?thesis
    by (auto simp: ipset_add_def remove_subprefixes_eq [OF dj assms(2)])
qed

lemma bifurcate_strict_some:
  assumes "wf c" "wf p" "addrs p \<subset> addrs c"
  shows "\<exists>a b. p_bifurcate P c = Some (Some (a, b))"
proof -
  obtain r where r: "p_bifurcate P c = Some r" using bifurcate_returns assms(1) by blast
  show ?thesis
  proof (cases r)
    case None
    then obtain x where "addrs c = {x}" using bifurcate_none assms(1) r by blast
    then have "addrs p = {}" using assms(3) by auto
    with addrs_nonempty [OF assms(2)] show ?thesis by simp
  qed (use r in auto)
qed

text \<open>
  The halving loop ends: every round at least halves the container. It gives back the
  container's addresses outside the requested prefix.
\<close>

lemma fragment_correct:
  assumes "ipset_inv s" "wf c" "wf p" "addrs p \<subseteq> addrs c" "\<forall>x \<in> set s. addrs x \<inter> addrs c = {}"
  shows "\<exists>s'. fragment P p c s = Some s' \<and> ipset_inv s' \<and>
    covered s' = covered s \<union> (addrs c - addrs p)"
  using assms
proof (induction "card (addrs c)" arbitrary: c s rule: less_induct)
  case less
  show ?case
  proof (cases "c = p")
    case True
    then show ?thesis using less.prems(1) by (simp add: fragment.simps [of P p p s])
  next
    case False
    then have strict: "addrs p \<subset> addrs c" using addrs_inj less.prems(2-4) by blast
    then obtain a b where ab: "p_bifurcate P c = Some (Some (a, b))"
      using bifurcate_strict_some less.prems(2,3) by blast
    note w = bifurcate_wf [OF less.prems(2) ab] and u = bifurcate_union [OF less.prems(2) ab]
      and sib = bifurcate_sibling [OF less.prems(2) ab]
    then have wa: "wf a" and wb: "wf b" by auto
    note d = sibling_disjoint [OF wa sib] and bis = sibling_sym [OF wa sib]
    have fin: "finite (addrs c)" using addrs_finite less.prems(2) by blast
    have step: "\<exists>s'. fragment P p x (insort_insert y s) = Some s' \<and> ipset_inv s' \<and>
        covered s' = covered s \<union> (addrs c - addrs p)"
      if xy: "wf x" "wf y" "addrs c = addrs x \<union> addrs y" "addrs x \<inter> addrs y = {}"
        "p_get_sibling P y = Some (Some x)" "addrs p \<subseteq> addrs x" for x y
    proof -
      have nx: "x \<notin> set s" using less.prems(5) xy(3) addrs_nonempty [OF xy(1)] by blast
      have i: "ipset_inv (insort_insert y s)"
        using less.prems(1,5) xy nx by (intro inv_insort) auto
      have "addrs x \<subset> addrs c" using xy addrs_nonempty [OF xy(2)] by blast
      then have "card (addrs x) < card (addrs c)" using fin by (rule psubset_card_mono [rotated])
      moreover have "\<forall>z \<in> set (insort_insert y s). addrs z \<inter> addrs x = {}"
        using less.prems(5) xy(3,4) by (auto simp: set_insort_insert)
      ultimately obtain s' where "fragment P p x (insort_insert y s) = Some s'" "ipset_inv s'"
        "covered s' = covered (insort_insert y s) \<union> (addrs x - addrs p)"
        using less.hyps [OF _ i xy(1) less.prems(3) xy(6)] by blast
      then show ?thesis using xy(3,4,6) by auto
    qed
    have "addrs p \<subseteq> addrs a \<or> addrs p \<subseteq> addrs b"
      using bifurcate_strict [OF less.prems(2,3) ab strict] .
    moreover have "\<not> addrs p \<subseteq> addrs a" if "addrs p \<subseteq> addrs b"
      using that d addrs_nonempty [OF less.prems(3)] by blast
    moreover have "fragment P p c s =
        (if addrs p \<subseteq> addrs a then fragment P p a (insort_insert b s)
         else if addrs p \<subseteq> addrs b then fragment P p b (insort_insert a s) else None)"
      using False ab contains_iff [OF wa less.prems(3)] contains_iff [OF wb less.prems(3)]
      by (simp add: fragment.simps [of P p c s])
    ultimately show ?thesis
      using step [OF wa wb u d bis] step [OF wb wa] u d sib by (auto simp: Un_commute Int_commute)
  qed
qed

lemma remove_correct:
  assumes "ipset_inv s" "wf p"
  shows "\<exists>s'. ipset_remove P s p = Some s' \<and> ipset_inv s' \<and> covered s' = covered s - addrs p"
proof (cases "get_containing_prefix P s p")
  case None
  then show ?thesis
    using inv_filter [OF assms(1)] covered_filter_outside [OF inv_disjoint [OF assms(1)] assms(2)]
    by (simp add: ipset_remove_def remove_subprefixes_eq [OF inv_disjoint [OF assms(1)] assms(2)])
next
  case (Some c)
  note dj = inv_disjoint [OF assms(1)]
  have c: "c \<in> set s" "addrs p \<subseteq> addrs c" using get_containing_Some [OF dj assms(2) Some] by auto
  have "\<forall>x \<in> set (remove1 c s). addrs x \<inter> addrs c = {}"
    using dj c(1) by (auto simp: prefixes_disjoint_def strict_sorted_iff)
  then obtain s' where "fragment P p c (remove1 c s) = Some s'" "ipset_inv s'"
    "covered s' = covered (remove1 c s) \<union> (addrs c - addrs p)"
    using fragment_correct [OF inv_remove1 [OF assms(1)] disjoint_wf [OF dj c(1)] assms(2) c(2)]
    by blast
  moreover have "covered (remove1 c s) \<union> (addrs c - addrs p) = covered s - addrs p"
    using covered_remove1 [OF dj c(1)] c by (auto simp: prefixes_cover_def)
  ultimately show ?thesis using Some by (simp add: ipset_remove_def)
qed

text \<open>Two sets in normal form that cover the same addresses are the same list.\<close>

lemma inv_subset_of_covered:
  assumes "ipset_inv s" "ipset_inv t" "covered s = covered t"
  shows "set s \<subseteq> set t"
proof
  fix p assume p: "p \<in> set s"
  note ds = inv_disjoint [OF assms(1)] and dt = inv_disjoint [OF assms(2)]
  have wp: "wf p" using ds p by (rule disjoint_wf)
  have "addrs p \<subseteq> covered t" using p assms(3) by (auto simp: prefixes_cover_def)
  then obtain c where c: "c \<in> set t" "addrs p \<subseteq> addrs c"
    using covered_single [OF assms(2) wp] by blast
  have wc: "wf c" using dt c(1) by (rule disjoint_wf)
  have "addrs c \<subseteq> covered s" using c(1) assms(3) by (auto simp: prefixes_cover_def)
  then obtain d where d: "d \<in> set s" "addrs c \<subseteq> addrs d"
    using covered_single [OF assms(1) wc] by blast
  have "d = p" using disjointD [OF ds d(1) p] c(2) d(2) addrs_nonempty [OF wp] by blast
  with c d have "addrs c = addrs p" by blast
  with c(1) wc wp show "p \<in> set t" using addrs_inj by blast
qed

lemma inv_unique:
  assumes "ipset_inv s" "ipset_inv t" "covered s = covered t"
  shows "s = t"
proof (rule sorted_distinct_set_unique)
  show "set s = set t"
    using inv_subset_of_covered [OF assms] inv_subset_of_covered [OF assms(2,1)] assms(3) by auto
qed (use assms in \<open>auto simp: prefixes_minimal_def prefixes_disjoint_def strict_sorted_iff\<close>)

lemma inv_empty [simp]: "ipset_inv []" "covered [] = {}"
  by (auto simp: prefixes_minimal_def prefixes_disjoint_def prefixes_cover_def)

lemma inv_singleton: "wf p \<Longrightarrow> ipset_inv [p]"
  using sibling_disjoint [of p p] addrs_nonempty [of p]
  by (auto simp: prefixes_minimal_def prefixes_disjoint_def)

lemma add_all_correct:
  assumes "ipset_inv s" "\<forall>p \<in> set ps. wf p"
  shows "\<exists>s'. ipset_add_all P s ps = Some s' \<and> ipset_inv s' \<and> covered s' = covered s \<union> covered ps"
  using assms
proof (induction ps arbitrary: s)
  case Nil
  then show ?case by (simp add: prefixes_cover_def)
next
  case (Cons p ps)
  then obtain t where t: "ipset_add P s p = Some t" "ipset_inv t" "covered t = covered s \<union> addrs p"
    using add_correct by (metis list.set_intros(1))
  then obtain s' where "ipset_add_all P t ps = Some s'" "ipset_inv s'" "covered s' = covered t \<union> covered ps"
    using Cons by (metis list.set_intros(2))
  with t show ?case by (auto simp: prefixes_cover_def)
qed

lemma aggregate_correct:
  assumes "\<forall>v \<in> set vs. wf (to_prefix v)"
  shows "\<exists>s. aggregate_prefixes P to_prefix vs = Some s \<and> ipset_inv s \<and>
    covered s = covered (map to_prefix vs)"
  using add_all_correct [OF inv_empty(1), of "map to_prefix vs"] assms
  by (auto simp: aggregate_prefixes_def ipset_from_def ipset_new_empty_def ipset_get_prefixes_def)

lemma aggregate_canonical:
  assumes "\<forall>v \<in> set vs. wf (to_prefix v)" "\<forall>w \<in> set ws. wf (to_prefix' w)"
    "covered (map to_prefix vs) = covered (map to_prefix' ws)"
  shows "aggregate_prefixes P to_prefix vs = aggregate_prefixes P to_prefix' ws"
  using aggregate_correct [OF assms(1)] aggregate_correct [OF assms(2)] assms(3) inv_unique by auto

end

end
