(* ===== verification/Ip_Space.thy ===== *)
theory Ip_Space
  imports Ip_Prefix Ip_Set
begin

text \<open>
  The prefix operations of \<open>crates/network/src/ip/prefix.rs\<close> satisfy the contract
  \<open>prefix_space\<close> that the address set relies on. The two address families run the same code
  at two widths; \<open>px_get_sibling\<close>, \<open>px_bifurcate\<close> and \<open>px_try_aggregate\<close> are that code at any
  width, proved equal to the IPv4 and IPv6 versions.
\<close>

section \<open>The operations at any address width\<close>

definition px_get_sibling :: "('n, 'a::len word) ipnet \<Rightarrow> 'n \<Rightarrow> 'n option option" where
  "px_get_sibling I p =
     (let n = net_prefix_len I p
      in if n = 0 then Some None
         else map_option Some (net_new I (net_addr I p XOR push_bit (LENGTH('a) - n) 1) n))"

definition px_bifurcate :: "('n, 'a::len word) ipnet \<Rightarrow> 'n \<Rightarrow> ('n \<times> 'n) option option" where
  "px_bifurcate I p =
     (let n = net_prefix_len I p
      in if n < LENGTH('a) then
           (case (net_new I (net_addr I p) (n + 1),
                  net_new I (net_addr I p OR drop_bit n (push_bit (LENGTH('a) - 1) 1)) (n + 1)) of
              (Some e, Some d) \<Rightarrow> Some (Some (e, d))
            | _ \<Rightarrow> None)
         else Some None)"

definition px_try_aggregate :: "('n, 'a::len word) ipnet \<Rightarrow> 'n \<Rightarrow> 'n \<Rightarrow> 'n option" where
  "px_try_aggregate I p1 p2 =
     (if net_contains I p1 p2 then Some p1
      else if net_contains I p2 p1 then Some p2
      else (case (net_supernet I p1, net_supernet I p2) of
              (Some super1, Some super2) \<Rightarrow> if super1 = super2 then Some super1 else None
            | _ \<Rightarrow> None))"

definition px_ops :: "('n, 'a::len word) ipnet \<Rightarrow> 'n prefix_ops" where
  "px_ops I = \<lparr>p_contains = net_contains I, p_get_sibling = px_get_sibling I,
     p_bifurcate = px_bifurcate I, p_get_last_subprefix = (\<lambda>p. net_from I (net_broadcast I p)),
     p_try_aggregate = px_try_aggregate I\<rparr>"

context ipnet_laws
begin

lemma new_block:
  assumes "n \<le> LENGTH('a)" "unat a = k * 2 ^ (LENGTH('a) - n)"
  shows "\<exists>q. net_new I a n = Some q \<and> host_bits I q = LENGTH('a) - n \<and> blk I q = k \<and> canonical I q"
proof -
  obtain q where q: "net_new I a n = Some q" "net_addr I q = a" "net_prefix_len I q = n"
    using new_ok [OF assms(1)] by blast
  then have "host_bits I q = LENGTH('a) - n" by (simp add: host_bits_def)
  with q assms(2) show ?thesis using canonicalI [of q k] by auto
qed

lemma sibling_block:
  assumes "canonical I p" "net_prefix_len I p \<noteq> 0"
  shows "\<exists>q. px_get_sibling I p = Some (Some q) \<and> host_bits I q = host_bits I p \<and>
    blk I q = flip (blk I p) \<and> canonical I q"
proof -
  have "host_bits I p < LENGTH('a)" using assms(2) by (simp add: host_bits_def)
  then have "unat (net_addr I p XOR push_bit (host_bits I p) 1) = flip (blk I p) * 2 ^ host_bits I p"
    using assms(1) by (intro unat_xor_bit) (simp_all add: canonical_unat)
  then have "\<exists>q. net_new I (net_addr I p XOR push_bit (LENGTH('a) - net_prefix_len I p) 1)
      (net_prefix_len I p) = Some q \<and> host_bits I q = LENGTH('a) - net_prefix_len I p \<and>
      blk I q = flip (blk I p) \<and> canonical I q"
    using len_le [of p] by (intro new_block) (simp_all add: host_bits_def)
  with assms(2) show ?thesis by (auto simp: px_get_sibling_def Let_def host_bits_def)
qed

lemma sibling_blockD:
  assumes "canonical I p" "px_get_sibling I p = Some (Some q)"
  shows "net_prefix_len I p \<noteq> 0" "host_bits I q = host_bits I p" "blk I q = flip (blk I p)" "canonical I q"
proof -
  show n: "net_prefix_len I p \<noteq> 0" using assms(2) by (auto simp: px_get_sibling_def Let_def split: if_splits)
  from sibling_block [OF assms(1) n] assms(2)
  show "host_bits I q = host_bits I p" "blk I q = flip (blk I p)" "canonical I q" by auto
qed

lemma supernet_block:
  assumes "net_prefix_len I p \<noteq> 0"
  shows "\<exists>u. net_supernet I p = Some u \<and> host_bits I u = Suc (host_bits I p) \<and>
    blk I u = blk I p div 2 \<and> canonical I u"
proof -
  obtain u where u: "net_supernet I p = Some u" "net_prefix_len I u = net_prefix_len I p - 1"
    "net_addr I u = net_addr I p AND NOT (mask (LENGTH('a) - net_prefix_len I u))"
    using supernet_some [OF assms] by blast
  then have h: "host_bits I u = Suc (host_bits I p)"
    using assms len_le [of p] by (simp add: host_bits_def)
  have "unat (net_addr I p) div 2 ^ host_bits I u = blk I p div 2"
    by (simp only: h power_Suc2 div_mult2_eq blk_def)
  then have "unat (net_addr I u) = blk I p div 2 * 2 ^ host_bits I u"
    using u(3) by (simp add: unat_and_not_mask host_bits_def)
  then show ?thesis using canonicalI [of u "blk I p div 2"] u(1) h by auto
qed

lemma aggregate_sibling:
  assumes "canonical I p" "px_get_sibling I p = Some (Some q)"
  shows "\<exists>u. px_try_aggregate I p q = Some u \<and> canonical I u \<and>
    net_addrs I u = net_addrs I p \<union> net_addrs I q"
proof -
  note s = sibling_blockD [OF assms]
  have qn: "net_prefix_len I q \<noteq> 0" using s(1,2) len_host_bits [of p] len_host_bits [of q] by simp
  obtain u where u: "net_supernet I p = Some u" "host_bits I u = Suc (host_bits I p)"
    "blk I u = blk I p div 2" "canonical I u"
    using supernet_block [OF s(1)] by blast
  obtain v where v: "net_supernet I q = Some v" "host_bits I v = Suc (host_bits I q)"
    "blk I v = blk I q div 2" "canonical I v"
    using supernet_block [OF qn] by blast
  have "u = v" using u v s by (intro canonical_blocks_inj) simp_all
  moreover have "\<not> net_contains I p q" "\<not> net_contains I q p"
    using s flip_neq [of "blk I p"]
    by (auto simp: net_contains_iff net_addrs_blocks dyad_sub_iff simp del: flip_neq)
  ultimately have "px_try_aggregate I p q = Some u"
    using u(1) v(1) by (simp add: px_try_aggregate_def)
  moreover have "net_addrs I u = net_addrs I p \<union> net_addrs I q"
    using u(2,3) s(2,3) by (simp add: net_addrs_blocks dyad_parent)
  ultimately show ?thesis using u(4) by blast
qed

lemma bifurcate_block:
  assumes "canonical I p" "net_prefix_len I p < LENGTH('a)"
  shows "\<exists>a b m. px_bifurcate I p = Some (Some (a, b)) \<and> canonical I a \<and> canonical I b \<and>
    host_bits I p = Suc m \<and> host_bits I a = m \<and> host_bits I b = m \<and>
    blk I a = 2 * blk I p \<and> blk I b = 2 * blk I p + 1"
proof -
  let ?n = "net_prefix_len I p" and ?m = "LENGTH('a) - (net_prefix_len I p + 1)"
  have h: "host_bits I p = Suc ?m" using assms(2) by (simp add: host_bits_def)
  have m: "?m < LENGTH('a)" by simp
  have addr: "unat (net_addr I p) = 2 * blk I p * 2 ^ ?m"
    using assms(1) by (simp add: canonical_unat h)
  have d: "drop_bit ?n (push_bit (LENGTH('a) - 1) 1) = (push_bit ?m 1 :: 'a word)"
    using drop_top_bit [OF assms(2)] by simp
  obtain a where a: "net_new I (net_addr I p) (?n + 1) = Some a" "host_bits I a = ?m"
      "blk I a = 2 * blk I p" "canonical I a"
    using new_block [of "?n + 1" "net_addr I p"] assms(2) addr by auto
  obtain b where b: "net_new I (net_addr I p OR push_bit ?m 1) (?n + 1) = Some b"
      "host_bits I b = ?m" "blk I b = 2 * blk I p + 1" "canonical I b"
    using new_block [of "?n + 1", OF _ unat_or_bit [OF m addr]] assms(2) by auto
  have "px_bifurcate I p = Some (Some (a, b))"
    by (simp only: px_bifurcate_def Let_def d assms(2) if_True a(1) b(1) prod.case option.case)
  with a b h show ?thesis by blast
qed

lemma bifurcate_blockD:
  assumes "canonical I p" "px_bifurcate I p = Some (Some (a, b))"
  shows "\<exists>m. canonical I a \<and> canonical I b \<and> host_bits I p = Suc m \<and> host_bits I a = m \<and>
    host_bits I b = m \<and> blk I a = 2 * blk I p \<and> blk I b = 2 * blk I p + 1"
proof -
  have "net_prefix_len I p < LENGTH('a)"
    using assms(2) by (auto simp: px_bifurcate_def Let_def split: if_splits)
  from bifurcate_block [OF assms(1) this] assms(2) show ?thesis by auto
qed

lemma own_addr: "canonical I p \<Longrightarrow> net_addr I p \<in> net_addrs I p"
  by (simp add: in_net_addrs canonical_unat)

lemma order_block_sub:
  assumes "canonical I p" "canonical I q" "net_addrs I q \<subseteq> net_addrs I p"
  shows "p \<le> q \<and> q \<le> net_from I (net_broadcast I p)"
proof -
  have "net_addr I q \<in> net_addrs I p"
    using assms(3) own_addr [OF assms(2)] by blast
  then have a: "net_addr I p \<le> net_addr I q" "net_addr I q \<le> net_broadcast I p"
    using assms(1) by (auto simp: net_addrs_def canonical_def)
  moreover have "host_bits I q \<le> host_bits I p"
    using assms(3) by (simp add: net_addrs_blocks dyad_sub_iff)
  then have "net_prefix_len I p \<le> net_prefix_len I q" by (simp add: len_host_bits)
  ultimately show ?thesis using len_le [of q] by (auto simp: net_less_eq from_addr from_len)
qed

lemma order_block_convex:
  assumes "canonical I p" "canonical I q" "canonical I r" "p \<le> r" "r \<le> q"
    "net_addrs I q \<subseteq> net_addrs I p"
  shows "net_addrs I r \<subseteq> net_addrs I p"
proof -
  have ord: "net_addr I p \<le> net_addr I r" "net_addr I r \<le> net_addr I q"
    using assms(4,5) by (auto simp: net_less_eq)
  have r: "net_addr I r \<in> net_addrs I p"
    using ord assms(1,6) own_addr [OF assms(2)] by (auto simp: net_addrs_def canonical_def)
  then have "net_addrs I r \<subseteq> net_addrs I p \<or> net_addrs I p \<subseteq> net_addrs I r"
    using dyad_laminar [of "host_bits I r" "blk I r" "host_bits I p" "blk I p"] own_addr [OF assms(3)]
    by (auto simp: net_addrs_blocks in_net_addrs)
  moreover have "net_addrs I r \<subseteq> net_addrs I p" if s: "net_addrs I p \<subseteq> net_addrs I r"
  proof -
    have "net_addr I p \<in> net_addrs I r" using s own_addr [OF assms(1)] by blast
    then have "net_addr I r \<le> net_addr I p" using assms(3) by (simp add: net_addrs_def canonical_def)
    then have eq: "net_addr I p = net_addr I r" using ord(1) by simp
    then have "net_prefix_len I p \<le> net_prefix_len I r" using assms(4) by (auto simp: net_less_eq)
    moreover have "host_bits I p \<le> host_bits I r" using s by (simp add: net_addrs_blocks dyad_sub_iff)
    then have "net_prefix_len I r \<le> net_prefix_len I p" by (simp add: len_host_bits)
    ultimately have "p = r" using eq by (intro net_eqI) simp_all
    then show ?thesis by simp
  qed
  ultimately show ?thesis by blast
qed

end

sublocale ipnet_laws \<subseteq> fam: prefix_space "px_ops I" "canonical I" "net_addrs I"
proof (unfold_locales, goal_cases)
  case 1 show ?case by simp
next
  case (2 p)
  have "unat ` net_addrs I p \<noteq> {}" by (simp only: unat_net_addrs dyad_nonempty not_False_eq_True)
  then show ?case by simp
next
  case (3 p q)
  then have "dyad (host_bits I p) (blk I p) = dyad (host_bits I q) (blk I q)"
    by (simp flip: unat_net_addrs)
  with 3 show ?case by (intro canonical_blocks_inj)
next
  case (4 p q)
  then show ?case using dyad_laminar by (simp add: net_addrs_blocks)
next
  case (5 p q)
  then show ?case by (simp add: px_ops_def net_contains_iff)
next
  case (6 p)
  then show ?case using sibling_block [of p]
    by (cases "net_prefix_len I p = 0") (auto simp: px_ops_def px_get_sibling_def Let_def)
next
  case (7 p q)
  then show ?case using sibling_blockD [of p q] by (simp add: px_ops_def)
next
  case (8 p q)
  then have s: "net_prefix_len I p \<noteq> 0" "host_bits I q = host_bits I p" "blk I q = flip (blk I p)"
    "canonical I q" using sibling_blockD [of p q] by (simp_all add: px_ops_def)
  then have "net_prefix_len I q \<noteq> 0" using len_host_bits [of p] len_host_bits [of q] by simp
  then obtain p' where p': "px_get_sibling I q = Some (Some p')" "host_bits I p' = host_bits I q"
    "blk I p' = flip (blk I q)" "canonical I p'"
    using sibling_block [OF s(4)] by blast
  then have "p' = p" using s 8(1) by (intro canonical_blocks_inj) simp_all
  with p'(1) show ?case by (simp add: px_ops_def)
next
  case (9 p q)
  then have "host_bits I q = host_bits I p" "blk I q = flip (blk I p)"
    using sibling_blockD [of p q] by (simp_all add: px_ops_def)
  then show ?case using dyad_disjoint [of "blk I p" "flip (blk I p)"] flip_neq [of "blk I p"]
    by (simp add: net_addrs_blocks)
next
  case (10 p q)
  then show ?case using aggregate_sibling [of p q] by (simp add: px_ops_def)
next
  case (11 p)
  then show ?case using bifurcate_block [of p]
    by (cases "net_prefix_len I p < LENGTH('a)") (auto simp: px_ops_def px_bifurcate_def Let_def)
next
  case (12 p)
  then have "\<not> net_prefix_len I p < LENGTH('a)"
    using bifurcate_block [of p] by (auto simp: px_ops_def)
  then have h: "host_bits I p = 0" by (simp add: host_bits_def)
  have "net_addrs I p = {net_addr I p}"
  proof (rule set_eqI)
    fix a
    show "a \<in> net_addrs I p \<longleftrightarrow> a \<in> {net_addr I p}"
      using inj_unat [THEN inj_eq, of a "net_addr I p"] by (simp add: in_net_addrs h dyad_def blk_def)
  qed
  then show ?case by blast
next
  case (13 p a b)
  then show ?case using bifurcate_blockD [of p a b] by (auto simp: px_ops_def)
next
  case (14 p a b)
  then obtain m where m: "canonical I a" "canonical I b" "host_bits I p = Suc m" "host_bits I a = m"
    "host_bits I b = m" "blk I a = 2 * blk I p" "blk I b = 2 * blk I p + 1"
    using bifurcate_blockD [of p a b] by (auto simp: px_ops_def)
  have "net_prefix_len I a \<noteq> 0"
    using m(3,4) host_bits_le [of p] by (simp add: len_host_bits)
  then obtain b' where b': "px_get_sibling I a = Some (Some b')" "host_bits I b' = host_bits I a"
    "blk I b' = flip (blk I a)" "canonical I b'"
    using sibling_block [OF m(1)] by blast
  then have "b' = b" using m by (intro canonical_blocks_inj) (simp_all add: flip_def)
  with b'(1) show ?case by (simp add: px_ops_def)
next
  case (15 p a b)
  then obtain m where m: "host_bits I p = Suc m" "host_bits I a = m"
    "host_bits I b = m" "blk I a = 2 * blk I p" "blk I b = 2 * blk I p + 1"
    using bifurcate_blockD [of p a b] by (auto simp: px_ops_def)
  then show ?case by (simp add: net_addrs_blocks dyad_halves)
next
  case (16 p q a b)
  then obtain m where m: "host_bits I p = Suc m" "host_bits I a = m"
    "host_bits I b = m" "blk I a = 2 * blk I p" "blk I b = 2 * blk I p + 1"
    using bifurcate_blockD [of p a b] by (auto simp: px_ops_def)
  have "dyad (host_bits I q) (blk I q) \<subset> dyad (Suc m) (blk I p)"
    using 16(4) m(1) by (simp add: net_addrs_psub_iff)
  then show ?case using dyad_strict_sub [of "host_bits I q" "blk I q" m "blk I p"] m
    by (simp add: net_addrs_blocks)
next
  case (17 p q)
  then show ?case using order_block_sub [of p q] by (simp add: px_ops_def)
next
  case (18 p q r)
  then show ?case using order_block_convex by blast
qed

section \<open>Both families\<close>

lemma ipv4_get_sibling_px:
  fixes I :: "('n::linorder, 32 word) ipnet"
  assumes "ipnet_laws I"
  shows "ipv4_get_sibling I p = px_get_sibling I p"
  using ipnet_laws.len_le [OF assms, of p] by (simp add: ipv4_get_sibling_def px_get_sibling_def Let_def)

lemma ipv6_get_sibling_px:
  fixes I :: "('n::linorder, 128 word) ipnet"
  assumes "ipnet_laws I"
  shows "ipv6_get_sibling I p = px_get_sibling I p"
  using ipnet_laws.len_le [OF assms, of p] by (simp add: ipv6_get_sibling_def px_get_sibling_def Let_def)

lemma ipv4_bifurcate_px: "ipv4_bifurcate I p = px_bifurcate I p"
  by (simp add: ipv4_bifurcate_def px_bifurcate_def Let_def less_Suc_eq_le flip: push_bit_eq_mult)

lemma ipv6_bifurcate_px: "ipv6_bifurcate I p = px_bifurcate I p"
  by (simp add: ipv6_bifurcate_def px_bifurcate_def Let_def less_Suc_eq_le)

lemma ipv4_try_aggregate_px: "ipv4_try_aggregate I p q = px_try_aggregate I p q"
  by (simp add: ipv4_try_aggregate_def px_try_aggregate_def ipv4_contains_def)

lemma ipv6_try_aggregate_px: "ipv6_try_aggregate I p q = px_try_aggregate I p q"
  by (simp add: ipv6_try_aggregate_def px_try_aggregate_def ipv6_contains_def)

lemmas px_eqs = ipv4_bifurcate_px ipv6_bifurcate_px ipv4_try_aggregate_px ipv6_try_aggregate_px
  ipv4_contains_def ipv6_contains_def ipv4_get_last_subprefix_def ipv6_get_last_subprefix_def
  addr_to_v4_prefix_def addr_to_v6_prefix_def

text \<open>The methods of \<open>IpPrefix\<close> as the interface record of the address set.\<close>

definition ip_prefix_ops :: "('n4, 32 word) ipnet \<Rightarrow> ('n6, 128 word) ipnet
    \<Rightarrow> ('n4, 'n6) ip_prefix prefix_ops" where
  "ip_prefix_ops I4 I6 = \<lparr>p_contains = ip_contains I4 I6, p_get_sibling = ip_get_sibling I4 I6,
     p_bifurcate = ip_bifurcate I4 I6, p_get_last_subprefix = ip_get_last_subprefix I4 I6,
     p_try_aggregate = ip_try_aggregate I4 I6\<rparr>"

text \<open>The two family views of an \<open>IpSet\<close>.\<close>

definition ipset_get_ipv4_prefixes :: "('n4, 'n6) ip_prefix list \<Rightarrow> 'n4 list" where
  "ipset_get_ipv4_prefixes s =
     List.map_filter (\<lambda>prefix. case prefix of V4 ipv4_prefix \<Rightarrow> Some ipv4_prefix | _ \<Rightarrow> None) s"

definition ipset_get_ipv6_prefixes :: "('n4, 'n6) ip_prefix list \<Rightarrow> 'n6 list" where
  "ipset_get_ipv6_prefixes s =
     List.map_filter (\<lambda>prefix. case prefix of V6 ipv6_prefix \<Rightarrow> Some ipv6_prefix | _ \<Rightarrow> None) s"

fun ip_canonical :: "('n4, 32 word) ipnet \<Rightarrow> ('n6, 128 word) ipnet \<Rightarrow> ('n4, 'n6) ip_prefix \<Rightarrow> bool" where
  "ip_canonical I4 I6 (V4 p) = canonical I4 p"
| "ip_canonical I4 I6 (V6 p) = canonical I6 p"

fun ip_addrs :: "('n4, 32 word) ipnet \<Rightarrow> ('n6, 128 word) ipnet \<Rightarrow> ('n4, 'n6) ip_prefix \<Rightarrow> ip_addr set" where
  "ip_addrs I4 I6 (V4 p) = AddrV4 ` net_addrs I4 p"
| "ip_addrs I4 I6 (V6 p) = AddrV6 ` net_addrs I6 p"

locale ip_families = v4: ipnet_laws I4 + v6: ipnet_laws I6
  for I4 :: "('n4::linorder, 32 word) ipnet" and I6 :: "('n6::linorder, 128 word) ipnet"
begin

lemmas sibling_px = ipv4_get_sibling_px [OF v4.ipnet_laws_axioms] ipv6_get_sibling_px [OF v6.ipnet_laws_axioms]

lemma inj_AddrV4: "inj AddrV4" and inj_AddrV6: "inj AddrV6"
  by (simp_all add: inj_on_def)

lemmas images = inj_image_subset_iff [OF inj_AddrV4] inj_image_subset_iff [OF inj_AddrV6]
  inj_image_eq_iff [OF inj_AddrV4] inj_image_eq_iff [OF inj_AddrV6]
  image_Int [OF inj_AddrV4, symmetric] image_Int [OF inj_AddrV6, symmetric] image_Un [symmetric]

text \<open>On each side of the sum the methods are those of the family.\<close>

lemma ops_v4:
  "p_get_sibling (ip_prefix_ops I4 I6) (V4 x) = map_option (map_option V4) (p_get_sibling (px_ops I4) x)"
  "p_bifurcate (ip_prefix_ops I4 I6) (V4 x) =
     map_option (map_option (map_prod V4 V4)) (p_bifurcate (px_ops I4) x)"
  "p_contains (ip_prefix_ops I4 I6) (V4 x) (V4 y) = p_contains (px_ops I4) x y"
  "p_contains (ip_prefix_ops I4 I6) (V4 x) (V6 z) = False"
  "p_get_last_subprefix (ip_prefix_ops I4 I6) (V4 x) = V4 (p_get_last_subprefix (px_ops I4) x)"
  "p_try_aggregate (ip_prefix_ops I4 I6) (V4 x) (V4 y) = map_option V4 (p_try_aggregate (px_ops I4) x y)"
  by (simp_all add: ip_prefix_ops_def px_ops_def px_eqs sibling_px)

lemma ops_v6:
  "p_get_sibling (ip_prefix_ops I4 I6) (V6 x) = map_option (map_option V6) (p_get_sibling (px_ops I6) x)"
  "p_bifurcate (ip_prefix_ops I4 I6) (V6 x) =
     map_option (map_option (map_prod V6 V6)) (p_bifurcate (px_ops I6) x)"
  "p_contains (ip_prefix_ops I4 I6) (V6 x) (V6 y) = p_contains (px_ops I6) x y"
  "p_contains (ip_prefix_ops I4 I6) (V6 x) (V4 z) = False"
  "p_get_last_subprefix (ip_prefix_ops I4 I6) (V6 x) = V6 (p_get_last_subprefix (px_ops I6) x)"
  "p_try_aggregate (ip_prefix_ops I4 I6) (V6 x) (V6 y) = map_option V6 (p_try_aggregate (px_ops I6) x y)"
  by (simp_all add: ip_prefix_ops_def px_ops_def px_eqs sibling_px)

lemmas ops_sum = ops_v4 ops_v6

lemma sibling_cases:
  assumes "p_get_sibling (ip_prefix_ops I4 I6) p = Some (Some q)"
  obtains (v4) x y where "p = V4 x" "q = V4 y" "p_get_sibling (px_ops I4) x = Some (Some y)"
  | (v6) x y where "p = V6 x" "q = V6 y" "p_get_sibling (px_ops I6) x = Some (Some y)"
  using assms by (cases p) (auto simp: ops_sum)

lemma bifurcate_cases:
  assumes "p_bifurcate (ip_prefix_ops I4 I6) p = Some (Some (a, b))"
  obtains (v4) x y z where "p = V4 x" "a = V4 y" "b = V4 z" "p_bifurcate (px_ops I4) x = Some (Some (y, z))"
  | (v6) x y z where "p = V6 x" "a = V6 y" "b = V6 z" "p_bifurcate (px_ops I6) x = Some (Some (y, z))"
  using assms by (cases p) (auto simp: ops_sum)

lemma cross_family:
  "canonical I4 x \<Longrightarrow> \<not> AddrV4 ` net_addrs I4 x \<subseteq> AddrV6 ` net_addrs I6 y"
  "canonical I6 y \<Longrightarrow> \<not> AddrV6 ` net_addrs I6 y \<subseteq> AddrV4 ` net_addrs I4 x"
  "AddrV4 ` net_addrs I4 x \<inter> AddrV6 ` net_addrs I6 y = {}"
  "AddrV6 ` net_addrs I6 y \<inter> AddrV4 ` net_addrs I4 x = {}"
  "canonical I4 x \<Longrightarrow> AddrV4 ` net_addrs I4 x \<noteq> AddrV6 ` net_addrs I6 y"
  "canonical I6 y \<Longrightarrow> AddrV6 ` net_addrs I6 y \<noteq> AddrV4 ` net_addrs I4 x"
  using v4.fam.addrs_nonempty [of x] v6.fam.addrs_nonempty [of y] by auto

end

sublocale ip_families \<subseteq> ips: prefix_space "ip_prefix_ops I4 I6" "ip_canonical I4 I6" "ip_addrs I4 I6"
proof (unfold_locales, goal_cases)
  case (1 p)
  then show ?case by (cases p) auto
next
  case (2 p)
  then show ?case by (cases p) (auto dest: v4.fam.addrs_nonempty v6.fam.addrs_nonempty)
next
  case (3 p q)
  then have "ip_addrs I4 I6 p \<subseteq> ip_addrs I4 I6 q" by simp
  with 3 show ?case
    by (cases p; cases q) (auto simp: images cross_family intro: v4.fam.addrs_inj v6.fam.addrs_inj)
next
  case (4 p q)
  then show ?case
  proof (cases p; cases q)
    fix x y assume "p = V4 x" "q = V4 y"
    with 4 v4.fam.laminar [of x y] show ?thesis by (simp add: images)
  next
    fix x y assume "p = V6 x" "q = V6 y"
    with 4 v6.fam.laminar [of x y] show ?thesis by (simp add: images)
  qed (simp_all add: cross_family)
next
  case (5 p q)
  then show ?case
    by (cases p; cases q) (simp_all add: ops_sum images cross_family v4.fam.contains_iff v6.fam.contains_iff)
next
  case (6 p)
  then show ?case
    by (cases p) (auto simp: ops_sum dest: v4.fam.sibling_returns v6.fam.sibling_returns)
next
  case (7 p q)
  from 7(2) show ?case
  proof (cases rule: sibling_cases)
    case (v4 x y)
    with 7(1) v4.fam.sibling_wf [of x y] show ?thesis by (simp add: ops_sum)
  next
    case (v6 x y)
    with 7(1) v6.fam.sibling_wf [of x y] show ?thesis by (simp add: ops_sum)
  qed
next
  case (8 p q)
  from 8(2) show ?case
  proof (cases rule: sibling_cases)
    case (v4 x y)
    with 8(1) v4.fam.sibling_sym [of x y] show ?thesis by (simp add: ops_sum)
  next
    case (v6 x y)
    with 8(1) v6.fam.sibling_sym [of x y] show ?thesis by (simp add: ops_sum)
  qed
next
  case (9 p q)
  from 9(2) show ?case
  proof (cases rule: sibling_cases)
    case (v4 x y)
    with 9(1) v4.fam.sibling_disjoint [of x y] show ?thesis by (simp add: images)
  next
    case (v6 x y)
    with 9(1) v6.fam.sibling_disjoint [of x y] show ?thesis by (simp add: images)
  qed
next
  case (10 p q)
  from 10(2) show ?case
  proof (cases rule: sibling_cases)
    case (v4 x y)
    with 10(1) v4.fam.sibling_aggregate [of x y] show ?thesis by (auto simp: ops_sum images)
  next
    case (v6 x y)
    with 10(1) v6.fam.sibling_aggregate [of x y] show ?thesis by (auto simp: ops_sum images)
  qed
next
  case (11 p)
  then show ?case
    by (cases p) (auto simp: ops_sum dest: v4.fam.bifurcate_returns v6.fam.bifurcate_returns)
next
  case (12 p)
  show ?case
  proof (cases p)
    case (V4 x)
    with 12 v4.fam.bifurcate_none [of x] show ?thesis by (auto simp: ops_sum)
  next
    case (V6 x)
    with 12 v6.fam.bifurcate_none [of x] show ?thesis by (auto simp: ops_sum)
  qed
next
  case (13 p a b)
  from 13(2) show ?case
  proof (cases rule: bifurcate_cases)
    case (v4 x y z)
    with 13(1) v4.fam.bifurcate_wf [of x y z] show ?thesis by (simp add: ops_sum)
  next
    case (v6 x y z)
    with 13(1) v6.fam.bifurcate_wf [of x y z] show ?thesis by (simp add: ops_sum)
  qed
next
  case (14 p a b)
  from 14(2) show ?case
  proof (cases rule: bifurcate_cases)
    case (v4 x y z)
    with 14(1) v4.fam.bifurcate_sibling [of x y z] show ?thesis by (simp add: ops_sum)
  next
    case (v6 x y z)
    with 14(1) v6.fam.bifurcate_sibling [of x y z] show ?thesis by (simp add: ops_sum)
  qed
next
  case (15 p a b)
  from 15(2) show ?case
  proof (cases rule: bifurcate_cases)
    case (v4 x y z)
    with 15(1) v4.fam.bifurcate_union [of x y z] show ?thesis by (simp add: images)
  next
    case (v6 x y z)
    with 15(1) v6.fam.bifurcate_union [of x y z] show ?thesis by (simp add: images)
  qed
next
  case (16 p q a b)
  from 16(3) show ?case
  proof (cases rule: bifurcate_cases)
    case (v4 x y z)
    then obtain w where "q = V4 w" using 16(2,4) cross_family by (cases q) (auto simp: psubset_eq)
    with 16 v4 v4.fam.bifurcate_strict [of x w y z] show ?thesis by (simp add: images psubset_eq)
  next
    case (v6 x y z)
    then obtain w where "q = V6 w" using 16(2,4) cross_family by (cases q) (auto simp: psubset_eq)
    with 16 v6 v6.fam.bifurcate_strict [of x w y z] show ?thesis by (simp add: images psubset_eq)
  qed
next
  case (17 p q)
  show ?case
  proof (cases p; cases q)
    fix x y assume "p = V4 x" "q = V4 y"
    with 17 v4.fam.order_sub [of x y] show ?thesis by (simp add: ops_sum images)
  next
    fix x y assume "p = V6 x" "q = V6 y"
    with 17 v6.fam.order_sub [of x y] show ?thesis by (simp add: ops_sum images)
  qed (use 17 in \<open>auto simp: cross_family\<close>)
next
  case (18 p q r)
  show ?case
  proof (cases p; cases q; cases r)
    fix x y z assume "p = V4 x" "q = V4 y" "r = V4 z"
    with 18 v4.fam.order_convex [of x y z] show ?thesis by (simp add: images)
  next
    fix x y z assume "p = V6 x" "q = V6 y" "r = V6 z"
    with 18 v6.fam.order_convex [of x y z] show ?thesis by (simp add: images)
  qed (use 18 in \<open>auto simp: cross_family\<close>)
qed

end
