(* ===== verification/Ip_Reference.thy ===== *)
theory Ip_Reference
  imports Ip_Space
begin

text \<open>
  A reference instance of the \<open>ipnet\<close> interface at both widths: a network is a pair of an
  address and a length of at most the width. It shows that the laws of \<open>ipnet_laws\<close> hold
  together, and it is the concrete input of the witnesses.
\<close>

typedef net4 = "{x :: 32 word \<times> nat. snd x \<le> 32}"
  by (rule exI [of _ "(0, 0)"]) simp

typedef net6 = "{x :: 128 word \<times> nat. snd x \<le> 128}"
  by (rule exI [of _ "(0, 0)"]) simp

instantiation net4 :: linorder
begin

definition less_eq_net4 :: "net4 \<Rightarrow> net4 \<Rightarrow> bool" where
  "less_eq_net4 p q \<longleftrightarrow> Rep_net4 p \<le> Rep_net4 q"

definition less_net4 :: "net4 \<Rightarrow> net4 \<Rightarrow> bool" where
  "less_net4 p q \<longleftrightarrow> Rep_net4 p \<le> Rep_net4 q \<and> \<not> Rep_net4 q \<le> Rep_net4 p"

instance
  by standard (auto simp: less_eq_net4_def less_net4_def Rep_net4_inject)

end

instantiation net6 :: linorder
begin

definition less_eq_net6 :: "net6 \<Rightarrow> net6 \<Rightarrow> bool" where
  "less_eq_net6 p q \<longleftrightarrow> Rep_net6 p \<le> Rep_net6 q"

definition less_net6 :: "net6 \<Rightarrow> net6 \<Rightarrow> bool" where
  "less_net6 p q \<longleftrightarrow> Rep_net6 p \<le> Rep_net6 q \<and> \<not> Rep_net6 q \<le> Rep_net6 p"

instance
  by standard (auto simp: less_eq_net6_def less_net6_def Rep_net6_inject)

end

definition ref_text :: "'a::len word \<times> nat \<Rightarrow> string" where
  "ref_text x = show_nat (unat (fst x)) @ CHR ''/'' # show_nat (snd x)"

definition ref_read :: "nat \<Rightarrow> string \<Rightarrow> ('a::len word \<times> nat) option" where
  "ref_read width s =
     (case split_on (CHR ''/'') s of
        [a, n] \<Rightarrow> (case (parse_dec 0 a, parse_dec 0 n) of
            (Some x, Some l) \<Rightarrow> if l \<le> width then Some (word_of_nat x, l) else None
          | _ \<Rightarrow> None)
      | _ \<Rightarrow> None)"

lemma ref_read_text: "snd x \<le> w \<Longrightarrow> ref_read w (ref_text x) = Some x"
proof -
  have "CHR ''/'' \<notin> set (show_nat n)" for n
    using show_nat_digits [of n] by (auto simp: is_digit_def)
  then show "snd x \<le> w \<Longrightarrow> ?thesis"
    by (cases x) (simp add: ref_read_def ref_text_def str_simps)
qed

definition ref_ops :: "('n \<Rightarrow> 'a::len word \<times> nat) \<Rightarrow> ('a word \<times> nat \<Rightarrow> 'n) \<Rightarrow> ('n, 'a word) ipnet" where
  "ref_ops Rep Abs =
     (let addr = (\<lambda>p. fst (Rep p)); len = (\<lambda>p. snd (Rep p));
          network = (\<lambda>p. addr p AND NOT (mask (LENGTH('a) - len p)));
          broadcast = (\<lambda>p. addr p OR mask (LENGTH('a) - len p))
      in \<lparr>net_new = (\<lambda>a n. if n \<le> LENGTH('a) then Some (Abs (a, n)) else None),
          net_from = (\<lambda>a. Abs (a, LENGTH('a))),
          net_addr = addr, net_prefix_len = len,
          net_network = network, net_broadcast = broadcast,
          net_trunc = (\<lambda>p. Abs (network p, len p)),
          net_supernet = (\<lambda>p. if len p = 0 then None
            else Some (Abs (addr p AND NOT (mask (LENGTH('a) - (len p - 1))), len p - 1))),
          net_contains = (\<lambda>p q. network p \<le> network q \<and> broadcast q \<le> broadcast p),
          net_parse = (\<lambda>s. map_option Abs (ref_read LENGTH('a) s)),
          net_display = (\<lambda>p. ref_text (Rep p))\<rparr>)"

lemma ref_ops_sel:
  fixes Rep :: "'n \<Rightarrow> 'a::len word \<times> nat"
  shows "net_new (ref_ops Rep Abs) a n = (if n \<le> LENGTH('a) then Some (Abs (a, n)) else None)"
    "net_from (ref_ops Rep Abs) a = Abs (a, LENGTH('a))"
    "net_addr (ref_ops Rep Abs) p = fst (Rep p)"
    "net_prefix_len (ref_ops Rep Abs) p = snd (Rep p)"
    "net_network (ref_ops Rep Abs) p = fst (Rep p) AND NOT (mask (LENGTH('a) - snd (Rep p)))"
    "net_broadcast (ref_ops Rep Abs) p = fst (Rep p) OR mask (LENGTH('a) - snd (Rep p))"
    "net_trunc (ref_ops Rep Abs) p = Abs (fst (Rep p) AND NOT (mask (LENGTH('a) - snd (Rep p))), snd (Rep p))"
    "net_supernet (ref_ops Rep Abs) p = (if snd (Rep p) = 0 then None
       else Some (Abs (fst (Rep p) AND NOT (mask (LENGTH('a) - (snd (Rep p) - 1))), snd (Rep p) - 1)))"
    "net_contains (ref_ops Rep Abs) p q \<longleftrightarrow>
       net_network (ref_ops Rep Abs) p \<le> net_network (ref_ops Rep Abs) q \<and>
       net_broadcast (ref_ops Rep Abs) q \<le> net_broadcast (ref_ops Rep Abs) p"
    "net_parse (ref_ops Rep Abs) s = map_option Abs (ref_read LENGTH('a) s)"
    "net_display (ref_ops Rep Abs) p = ref_text (Rep p)"
  unfolding ref_ops_def Let_def by (simp_all only: ipnet.simps)

lemma ref_ops_laws:
  fixes Rep :: "'n::linorder \<Rightarrow> 'a::len word \<times> nat"
  assumes td: "type_definition Rep Abs {x. snd x \<le> LENGTH('a)}"
    and ord: "\<And>p q. p \<le> q \<longleftrightarrow> Rep p \<le> Rep q"
  shows "ipnet_laws (ref_ops Rep Abs)"
proof -
  have rep: "snd (Rep p) \<le> LENGTH('a)" for p
    using type_definition.Rep [OF td, of p] by simp
  have inv: "n \<le> LENGTH('a) \<Longrightarrow> Rep (Abs (a, n)) = (a, n)" for a n
    using type_definition.Abs_inverse [OF td, of "(a, n)"] by simp
  have inv': "Abs (Rep p) = p" for p
    using type_definition.Rep_inverse [OF td] .
  have inj: "Rep p = Rep q \<Longrightarrow> p = q" for p q
    using type_definition.Rep_inject [OF td, of p q] by simp
  show ?thesis
  proof (unfold_locales, goal_cases)
    case (1 p) show ?case using rep by (simp only: ref_ops_sel)
  next
    case (2 p q) then show ?case by (intro inj) (simp only: ref_ops_sel prod_eq_iff)
  next
    case (3 n a) then show ?case by (simp add: ref_ops_sel(1,3,4) inv)
  next
    case (4 n a) then show ?case by (simp add: ref_ops_sel(1))
  next
    case (5 a) show ?case by (simp add: ref_ops_sel(2,3) inv)
  next
    case (6 a) show ?case by (simp add: ref_ops_sel(2,4) inv)
  next
    case (7 p) show ?case by (simp only: ref_ops_sel)
  next
    case (8 p) show ?case by (simp only: ref_ops_sel)
  next
    case (9 p) show ?case by (simp only: ref_ops_sel inv [OF rep] fst_conv)
  next
    case (10 p) show ?case by (simp only: ref_ops_sel inv [OF rep] snd_conv)
  next
    case (11 p) then show ?case by (simp add: ref_ops_sel(4,8))
  next
    case (12 p)
    have "snd (Rep p) - 1 \<le> LENGTH('a)" using rep [of p] by simp
    with 12 show ?case by (simp add: ref_ops_sel(3,4,8) inv)
  next
    case (13 p q) show ?case by (rule ref_ops_sel)
  next
    case (14 p q)
    show ?case unfolding ref_ops_sel ord less_eq_prod_def by auto
  next
    case (15 p) show ?case by (simp only: ref_ops_sel ref_read_text [OF rep] option.map inv')
  qed
qed

definition ref4 :: "(net4, 32 word) ipnet" where
  "ref4 = ref_ops Rep_net4 Abs_net4"

definition ref6 :: "(net6, 128 word) ipnet" where
  "ref6 = ref_ops Rep_net6 Abs_net6"

interpretation r4: ipnet_laws ref4
  unfolding ref4_def using type_definition_net4
  by (intro ref_ops_laws) (simp_all add: less_eq_net4_def)

interpretation r6: ipnet_laws ref6
  unfolding ref6_def using type_definition_net6
  by (intro ref_ops_laws) (simp_all add: less_eq_net6_def)

interpretation rip: ip_families ref4 ref6
  by unfold_locales

end
