(* ===== verification/Ip_Theorems.thy ===== *)
theory Ip_Theorems
  imports Ip_Reference
begin

text \<open>
  What the prefix types and \<open>IpSet\<close> promise, over any implementation of the \<open>ipnet\<close> crate that
  meets its documented laws. The proofs are instances of the contract \<open>prefix_space\<close> at the sum
  of the two families; the witnesses run on the reference instance.
\<close>

abbreviation ip_minimal :: "('n4::linorder, 32 word) ipnet \<Rightarrow> ('n6::linorder, 128 word) ipnet
    \<Rightarrow> ('n4, 'n6) ip_prefix list \<Rightarrow> bool" where
  "ip_minimal I4 I6 \<equiv> prefixes_minimal (ip_prefix_ops I4 I6) (ip_canonical I4 I6) (ip_addrs I4 I6)"

abbreviation ip_cover :: "('n4, 32 word) ipnet \<Rightarrow> ('n6, 128 word) ipnet
    \<Rightarrow> ('n4, 'n6) ip_prefix list \<Rightarrow> ip_addr set" where
  "ip_cover I4 I6 \<equiv> prefixes_cover (ip_addrs I4 I6)"

lemma families: "ipnet_laws I4 \<Longrightarrow> ipnet_laws I6 \<Longrightarrow> ip_families I4 I6"
  by (simp add: ip_families_def)

section \<open>Facts about addresses\<close>

lemma and_not_mask_eq_iff: "a AND NOT (mask m) = a \<longleftrightarrow> a AND mask m = (0 :: 'w::len word)"
  by (auto simp: bit_eq_iff bit_simps)

context ipnet_laws
begin

lemma from_canonical: "canonical I (net_from I a)"
  by (simp add: canonical_def network from_len from_addr)

lemma from_addrs: "net_addrs I (net_from I a) = {a}"
  by (simp add: net_addrs_def network broadcast from_len from_addr)

lemma trunc_network: "net_network I (net_trunc I p) = net_network I p"
  by (simp add: network trunc_len trunc_addr and.assoc)

lemma trunc_canonical: "canonical I (net_trunc I p)"
  by (simp add: canonical_def trunc_network trunc_addr)

lemma trunc_addrs: "net_addrs I (net_trunc I p) = net_addrs I p"
proof -
  have "blk I (net_trunc I p) = blk I p"
    using unat_network [of p] by (simp add: blk_def host_bits_def trunc_len trunc_addr)
  then show ?thesis
    unfolding net_addrs_def
    by (intro arg_cong2 [where f = atLeastAtMost] injD [OF inj_unat])
      (simp_all add: trunc_network unat_broadcast host_bits_def trunc_len)
qed

text \<open>A network is canonical iff none of its host bits is set.\<close>

lemma canonical_host_bits: "canonical I p \<longleftrightarrow> net_addr I p AND mask (LENGTH('a) - net_prefix_len I p) = 0"
  unfolding canonical_def network by (metis and_not_mask_eq_iff)

end

context ip_families
begin

lemma ips_space: "prefix_space (ip_prefix_ops I4 I6) (ip_canonical I4 I6) (ip_addrs I4 I6)"
  by (rule ips.prefix_space_axioms)

lemma addr_to_prefix_ok: "ip_canonical I4 I6 (addr_to_prefix I4 I6 a)" "ip_addrs I4 I6 (addr_to_prefix I4 I6 a) = {a}"
  by (cases a; simp add: addr_to_v4_prefix_def addr_to_v6_prefix_def v4.from_canonical v6.from_canonical
      v4.from_addrs v6.from_addrs)+

lemma net_to_prefix_ok: "ip_canonical I4 I6 (net_to_prefix I4 I6 n)"
    "ip_addrs I4 I6 (net_to_prefix I4 I6 n) = ip_addrs I4 I6 n"
  by (cases n; simp add: net_to_v4_prefix_def net_to_v6_prefix_def v4.trunc_canonical v6.trunc_canonical
      v4.trunc_addrs v6.trunc_addrs)+

end

text \<open>The reference networks \<open>10.0.0.0/8\<close>, its halves and an address range inside it.\<close>

definition ten_8 :: net4 where "ten_8 = Abs_net4 (0x0A000000, 8)"

definition ten_9 :: net4 where "ten_9 = Abs_net4 (0x0A000000, 9)"

definition ten_128_9 :: net4 where "ten_128_9 = Abs_net4 (0x0A800000, 9)"

lemmas ref_nets = ten_8_def ten_9_def ten_128_9_def

lemma ref_nets_ok: "canonical ref4 ten_8" "canonical ref4 ten_9" "canonical ref4 ten_128_9"
    "net_addrs ref4 ten_8 = {0x0A000000 .. 0x0AFFFFFF}"
    "net_addrs ref4 ten_9 = {0x0A000000 .. 0x0A7FFFFF}"
    "net_addrs ref4 ten_128_9 = {0x0A800000 .. 0x0AFFFFFF}"
  by (simp_all add: ref_nets canonical_def net_addrs_def ref4_def ref_ops_sel Abs_net4_inverse mask_eq_exp_minus_1)

section \<open>Address sets\<close>

text \<open>
  C21: \<open>IpSet::contains\<close> answers the membership question for addresses and for whole prefixes:
  an address is contained iff it lies in the covered address space, and a prefix is contained iff
  all of its addresses do, even though the lookup inspects one stored prefix only.
\<close>

theorem ipset_contains_correct:
  assumes "ipnet_laws I4" "ipnet_laws I6" "ip_minimal I4 I6 s"
  shows "(ipset_contains (ip_prefix_ops I4 I6) (addr_to_prefix I4 I6) s a \<longleftrightarrow> a \<in> ip_cover I4 I6 s) \<and>
    (ipset_contains (ip_prefix_ops I4 I6) (net_to_prefix I4 I6) s n \<longleftrightarrow>
       ip_addrs I4 I6 n \<subseteq> ip_cover I4 I6 s)"
proof -
  have F: "ip_families I4 I6" using assms by (intro families)
  note iff = prefix_space.contains_prefix_iff [OF ip_families.ips_space [OF F] assms(3)]
  show ?thesis
    by (simp add: ipset_contains_def iff ip_families.addr_to_prefix_ok [OF F] ip_families.net_to_prefix_ok [OF F])
qed

theorem ipset_contains_correct_witness:
  "ip_minimal ref4 ref6 [V4 ten_8] \<and>
   ipset_contains (ip_prefix_ops ref4 ref6) (addr_to_prefix ref4 ref6) [V4 ten_8] (AddrV4 0x0A010203) \<and>
   ipset_contains (ip_prefix_ops ref4 ref6) (net_to_prefix ref4 ref6) [V4 ten_8] (V4 ten_9)"
proof -
  have m: "ip_minimal ref4 ref6 [V4 ten_8]" by (intro rip.ips.inv_singleton) (simp add: ref_nets_ok)
  show ?thesis
    using m ipset_contains_correct [OF r4.ipnet_laws_axioms r6.ipnet_laws_axioms m, of "AddrV4 0x0A010203" "V4 ten_9"]
    by (simp add: prefixes_cover_def ref_nets_ok rip.images)
qed

text \<open>
  C10: \<open>IpSet::add\<close> of a canonical prefix never panics, keeps both invariants of the set, and
  makes the covered address space the union of the old one and the prefix.
\<close>

theorem ipset_add_union:
  assumes "ipnet_laws I4" "ipnet_laws I6" "ip_minimal I4 I6 s" "ip_canonical I4 I6 p"
  shows "\<exists>s'. ipset_add (ip_prefix_ops I4 I6) s p = Some s' \<and> ip_minimal I4 I6 s' \<and>
    ip_cover I4 I6 s' = ip_cover I4 I6 s \<union> ip_addrs I4 I6 p"
  using prefix_space.add_correct [OF ip_families.ips_space] families assms by blast

theorem ipset_add_union_witness:
  "\<exists>s'. ipset_add (ip_prefix_ops ref4 ref6) [V4 ten_9] (V4 ten_128_9) = Some s' \<and>
    ip_cover ref4 ref6 s' = AddrV4 ` {0x0A000000 .. 0x0A7FFFFF} \<union> AddrV4 ` {0x0A800000 .. 0x0AFFFFFF}"
proof -
  have m: "ip_minimal ref4 ref6 [V4 ten_9]" by (intro rip.ips.inv_singleton) (simp add: ref_nets_ok)
  have c: "ip_canonical ref4 ref6 (V4 ten_128_9)" by (simp add: ref_nets_ok)
  from ipset_add_union [OF r4.ipnet_laws_axioms r6.ipnet_laws_axioms m c] show ?thesis
    by (simp add: prefixes_cover_def ref_nets_ok) blast
qed

text \<open>
  C4: \<open>IpSet::remove\<close> of a canonical prefix terminates without panic, keeps both invariants, and
  leaves exactly the addresses that are not in the prefix, whichever of the two branches runs.
\<close>

theorem ipset_remove_difference:
  assumes "ipnet_laws I4" "ipnet_laws I6" "ip_minimal I4 I6 s" "ip_canonical I4 I6 p"
  shows "\<exists>s'. ipset_remove (ip_prefix_ops I4 I6) s p = Some s' \<and> ip_minimal I4 I6 s' \<and>
    ip_cover I4 I6 s' = ip_cover I4 I6 s - ip_addrs I4 I6 p"
  using prefix_space.remove_correct [OF ip_families.ips_space] families assms by blast

theorem ipset_remove_difference_witness:
  "\<exists>s'. ipset_remove (ip_prefix_ops ref4 ref6) [V4 ten_8] (V4 ten_9) = Some s' \<and>
    ip_cover ref4 ref6 s' = AddrV4 ` {0x0A000000 .. 0x0AFFFFFF} - AddrV4 ` {0x0A000000 .. 0x0A7FFFFF}"
proof -
  have "ip_minimal ref4 ref6 [V4 ten_8]" by (intro rip.ips.inv_singleton) (simp add: ref_nets_ok)
  then show ?thesis
    using ipset_remove_difference [OF r4.ipnet_laws_axioms r6.ipnet_laws_axioms, of "[V4 ten_8]" "V4 ten_9"]
    by (simp add: prefixes_cover_def ref_nets_ok) blast
qed

text \<open>
  C22: \<open>aggregate_prefixes\<close> is a canonical form: on any two lists of networks with the same
  address space, in any order and with any overlap, it returns the same list.
\<close>

theorem aggregate_prefixes_canonical:
  assumes "ipnet_laws I4" "ipnet_laws I6" "(\<Union>n \<in> set ns. ip_addrs I4 I6 n) = (\<Union>n \<in> set ms. ip_addrs I4 I6 n)"
  shows "\<exists>s. aggregate_prefixes (ip_prefix_ops I4 I6) (net_to_prefix I4 I6) ns = Some s \<and>
    aggregate_prefixes (ip_prefix_ops I4 I6) (net_to_prefix I4 I6) ms = Some s \<and>
    ip_minimal I4 I6 s \<and> ip_cover I4 I6 s = (\<Union>n \<in> set ns. ip_addrs I4 I6 n)"
proof -
  have F: "ip_families I4 I6" using assms by (intro families)
  note S = ip_families.ips_space [OF F] and ok = ip_families.net_to_prefix_ok [OF F]
  have cov: "ip_cover I4 I6 (map (net_to_prefix I4 I6) xs) = (\<Union>n \<in> set xs. ip_addrs I4 I6 n)" for xs
    by (simp add: prefixes_cover_def ok(2))
  show ?thesis
    using prefix_space.aggregate_correct [OF S, of ns "net_to_prefix I4 I6"]
      prefix_space.aggregate_canonical [OF S, of ns "net_to_prefix I4 I6" ms "net_to_prefix I4 I6"] assms(3)
    by (simp add: cov ok(1))
qed

theorem aggregate_prefixes_canonical_witness:
  "\<exists>s. aggregate_prefixes (ip_prefix_ops ref4 ref6) (net_to_prefix ref4 ref6) [V4 ten_8] = Some s \<and>
    aggregate_prefixes (ip_prefix_ops ref4 ref6) (net_to_prefix ref4 ref6) [V4 ten_9, V4 ten_8, V4 ten_9] = Some s"
proof -
  have "net_addrs ref4 ten_9 \<subseteq> net_addrs ref4 ten_8" by (simp add: ref_nets_ok)
  then have "(\<Union>n \<in> set [V4 ten_8]. ip_addrs ref4 ref6 n) = (\<Union>n \<in> set [V4 ten_9, V4 ten_8, V4 ten_9]. ip_addrs ref4 ref6 n)"
    by (auto simp del: atLeastatMost_subset_iff)
  from aggregate_prefixes_canonical [OF r4.ipnet_laws_axioms r6.ipnet_laws_axioms this] show ?thesis by blast
qed

section \<open>Prefixes\<close>

text \<open>
  C32: \<open>IpPrefix::bifurcate\<close> never panics on a canonical prefix. It returns \<open>None\<close> only for a
  single address; otherwise its two halves are canonical siblings that partition the addresses of
  the prefix, and \<open>try_aggregate\<close> puts the prefix together again.
\<close>

theorem bifurcate_aggregate:
  assumes "ipnet_laws I4" "ipnet_laws I6" "ip_canonical I4 I6 p"
  shows "\<exists>r. ip_bifurcate I4 I6 p = Some r \<and>
    (case r of None \<Rightarrow> \<exists>a. ip_addrs I4 I6 p = {a}
     | Some (c1, c2) \<Rightarrow> ip_canonical I4 I6 c1 \<and> ip_canonical I4 I6 c2 \<and>
         ip_addrs I4 I6 c1 \<union> ip_addrs I4 I6 c2 = ip_addrs I4 I6 p \<and>
         ip_addrs I4 I6 c1 \<inter> ip_addrs I4 I6 c2 = {} \<and>
         ip_get_sibling I4 I6 c1 = Some (Some c2) \<and> ip_try_aggregate I4 I6 c1 c2 = Some p)"
proof -
  note S = ip_families.ips_space [OF families [OF assms(1,2)]]
  obtain r where r: "ip_bifurcate I4 I6 p = Some r"
    using prefix_space.bifurcate_returns [OF S assms(3)] by (auto simp: ip_prefix_ops_def)
  show ?thesis
  proof (cases r)
    case None
    with r prefix_space.bifurcate_none [OF S assms(3)] show ?thesis by (simp add: ip_prefix_ops_def)
  next
    case (Some cs)
    then obtain c1 c2 where cs: "r = Some (c1, c2)" by (cases cs) auto
    have b: "p_bifurcate (ip_prefix_ops I4 I6) p = Some (Some (c1, c2))"
      using r cs by (simp add: ip_prefix_ops_def)
    note half = prefix_space.bifurcate_wf [OF S assms(3) b] prefix_space.bifurcate_union [OF S assms(3) b]
      and sib = prefix_space.bifurcate_sibling [OF S assms(3) b]
    obtain u where u: "p_try_aggregate (ip_prefix_ops I4 I6) c1 c2 = Some u" "ip_canonical I4 I6 u"
      "ip_addrs I4 I6 u = ip_addrs I4 I6 c1 \<union> ip_addrs I4 I6 c2"
      using prefix_space.sibling_aggregate [OF S _ sib] half by blast
    have "u = p" using prefix_space.addrs_inj [OF S u(2) assms(3)] u(3) half by simp
    with r cs half sib u prefix_space.sibling_disjoint [OF S _ sib] show ?thesis
      by (simp add: ip_prefix_ops_def)
  qed
qed

theorem bifurcate_aggregate_witness:
  "\<exists>c1 c2. ip_bifurcate ref4 ref6 (V4 ten_8) = Some (Some (c1, c2)) \<and>
    ip_try_aggregate ref4 ref6 c1 c2 = Some (V4 ten_8)"
proof -
  have c: "ip_canonical ref4 ref6 (V4 ten_8)" by (simp add: ref_nets_ok)
  have "AddrV4 0x0A000000 \<in> ip_addrs ref4 ref6 (V4 ten_8)" "AddrV4 0x0A000001 \<in> ip_addrs ref4 ref6 (V4 ten_8)"
    by (simp_all add: ref_nets_ok)
  then have n: "ip_addrs ref4 ref6 (V4 ten_8) \<noteq> {a}" for a by force
  obtain r where r: "ip_bifurcate ref4 ref6 (V4 ten_8) = Some r"
    "case r of None \<Rightarrow> \<exists>a. ip_addrs ref4 ref6 (V4 ten_8) = {a}
     | Some (c1, c2) \<Rightarrow> ip_try_aggregate ref4 ref6 c1 c2 = Some (V4 ten_8)"
    using bifurcate_aggregate [OF r4.ipnet_laws_axioms r6.ipnet_laws_axioms c]
    by (elim exE conjE) (simp del: ip_bifurcate.simps ip_addrs.simps ip_try_aggregate.simps split: option.splits prod.splits)
  with n show ?thesis by (cases r) auto
qed

text \<open>
  Every outcome of \<open>TryFrom<(IpAddr, u8)>\<close>: a length above the width of the family is
  \<open>BadPrefixLength\<close>, a host bit set in the address is \<open>NonCanonicalRepresentation\<close>, and
  everything else is the prefix with that address and length.
\<close>

lemma ip_try_from_addr_len_cases:
  assumes "ipnet_laws I4" "ipnet_laws I6"
  shows "(case ip_try_from_addr_len I4 I6 (AddrV4 a, n) of
       Inl BadPrefixLength \<Rightarrow> 32 < n
     | Inl NonCanonicalRepresentation \<Rightarrow> n \<le> 32 \<and> a AND mask (32 - n) \<noteq> 0
     | Inr (V4 p) \<Rightarrow> n \<le> 32 \<and> a AND mask (32 - n) = 0 \<and> net_addr I4 p = a \<and> net_prefix_len I4 p = n \<and>
         ipv4_from_str I4 (net_display I4 p) = Inr p
     | _ \<Rightarrow> False) \<and>
    (case ip_try_from_addr_len I4 I6 (AddrV6 b, n) of
       Inl BadPrefixLength \<Rightarrow> 128 < n
     | Inl NonCanonicalRepresentation \<Rightarrow> n \<le> 128 \<and> b AND mask (128 - n) \<noteq> 0
     | Inr (V6 p) \<Rightarrow> n \<le> 128 \<and> b AND mask (128 - n) = 0 \<and> net_addr I6 p = b \<and> net_prefix_len I6 p = n \<and>
         ipv6_from_str I6 (net_display I6 p) = Inr p
     | _ \<Rightarrow> False)"
  (is "?P4 \<and> ?P6")
proof
  show ?P4
  proof (cases "n \<le> 32")
    case True
    then obtain p where "net_new I4 a n = Some p" "net_addr I4 p = a" "net_prefix_len I4 p = n"
      using ipnet_laws.new_ok [OF assms(1), of n a] by auto
    with True ipnet_laws.canonical_host_bits [OF assms(1), of p] ipnet_laws.parse_display [OF assms(1), of p]
    show ?thesis by (simp add: ipv4_try_from_def ipv4_from_str_def canonical_def)
  next
    case False
    with ipnet_laws.new_err [OF assms(1), of n a] show ?thesis by simp
  qed
  show ?P6
  proof (cases "n \<le> 128")
    case True
    then obtain p where "net_new I6 b n = Some p" "net_addr I6 p = b" "net_prefix_len I6 p = n"
      using ipnet_laws.new_ok [OF assms(2), of n b] by auto
    with True ipnet_laws.canonical_host_bits [OF assms(2), of p] ipnet_laws.parse_display [OF assms(2), of p]
    show ?thesis by (simp add: ipv6_try_from_def ipv6_from_str_def canonical_def)
  next
    case False
    with ipnet_laws.new_err [OF assms(2), of n b] show ?thesis by simp
  qed
qed

lemma ip_try_from_addr_len_cases_witness:
  "case ip_try_from_addr_len ref4 ref6 (AddrV4 0x0A000001, 8) of
       Inl BadPrefixLength \<Rightarrow> False
     | Inl NonCanonicalRepresentation \<Rightarrow> True
     | _ \<Rightarrow> False"
  using ip_try_from_addr_len_cases [OF r4.ipnet_laws_axioms r6.ipnet_laws_axioms, where a = "0x0A000001" and n = 8 and b = 0]
  by (simp add: mask_eq_exp_minus_1 split: sum.splits prefix_error.splits ip_prefix.splits)

end
