(* ===== verification/Ordered_Map.thy ===== *)
theory Ordered_Map
  imports Prelude
begin

text \<open>
  The standard library's \<open>BTreeMap\<close> and \<open>BTreeSet\<close>: an association list and a list in strictly
  increasing key order, which is the order the program observes when it iterates over them.
\<close>

type_synonym ('k, 'v) btree_map = "('k \<times> 'v) list"

fun bt_insert :: "'k::linorder \<Rightarrow> 'v \<Rightarrow> ('k, 'v) btree_map \<Rightarrow> ('k, 'v) btree_map" where
  "bt_insert k v [] = [(k, v)]"
| "bt_insert k v ((k', v') # m) =
     (if k < k' then (k, v) # (k', v') # m
      else if k = k' then (k, v) # m
      else (k', v') # bt_insert k v m)"

definition bt_get :: "('k, 'v) btree_map \<Rightarrow> 'k \<Rightarrow> 'v option" where
  "bt_get m k = map_of m k"

definition bt_contains_key :: "('k, 'v) btree_map \<Rightarrow> 'k \<Rightarrow> bool" where
  "bt_contains_key m k = (bt_get m k \<noteq> None)"

definition bt_remove :: "'k \<Rightarrow> ('k, 'v) btree_map \<Rightarrow> ('k, 'v) btree_map" where
  "bt_remove k m = filter (\<lambda>e. fst e \<noteq> k) m"

definition bt_values :: "('k, 'v) btree_map \<Rightarrow> 'v list" where
  "bt_values m = map snd m"

definition bt_wf :: "('k::linorder, 'v) btree_map \<Rightarrow> bool" where
  "bt_wf m = sorted_wrt (<) (map fst m)"

named_theorems bt_simps

lemma set_bt_insert: "fst ` set (bt_insert k v m) = insert k (fst ` set m)"
  by (induction k v m rule: bt_insert.induct) auto

lemma bt_wf_Nil [simp]: "bt_wf []"
  by (simp add: bt_wf_def)

lemma bt_wf_insert [simp]: "bt_wf m \<Longrightarrow> bt_wf (bt_insert k v m)"
proof (induction k v m rule: bt_insert.induct)
  case (2 k v k' v' m)
  then have "x \<in> fst ` set m \<Longrightarrow> k' < x" "bt_wf m" for x by (auto simp: bt_wf_def)
  moreover have "sorted_wrt (<) (k' # map fst (bt_insert k v m))" if "k' < k"
    using 2 that calculation set_bt_insert [of k v m] by (auto simp: bt_wf_def simp flip: set_map)
  ultimately show ?case using 2(2) by (auto simp: bt_wf_def intro: less_trans)
qed (simp add: bt_wf_def)

lemma bt_wf_remove [simp]: "bt_wf m \<Longrightarrow> bt_wf (bt_remove k m)"
  unfolding bt_wf_def bt_remove_def by (induction m) auto

lemma bt_wf_distinct: "bt_wf m \<Longrightarrow> distinct (map fst m)"
  by (simp add: bt_wf_def strict_sorted_iff)

lemma bt_get_Nil [simp]: "bt_get [] k = None"
  by (simp add: bt_get_def)

lemma bt_get_insert [bt_simps]: "bt_wf m \<Longrightarrow> bt_get (bt_insert k v m) = (bt_get m)(k \<mapsto> v)"
proof (induction k v m rule: bt_insert.induct)
  case (2 k v k' v' m)
  then have "bt_wf m" "k \<notin> fst ` set m" if "\<not> k' < k" using that by (fastforce simp: bt_wf_def)+
  with 2 show ?case by (auto simp: bt_get_def bt_wf_def fun_eq_iff)
qed (simp add: bt_get_def fun_eq_iff)

lemma bt_get_remove [bt_simps]: "bt_get (bt_remove k m) = (bt_get m)(k := None)"
  by (induction m) (auto simp: bt_get_def bt_remove_def fun_eq_iff)

lemma bt_get_in_values: "bt_get m k = Some v \<Longrightarrow> v \<in> set (bt_values m)"
  by (force simp: bt_get_def bt_values_def dest: map_of_SomeD)

lemma in_bt_values: "bt_wf m \<Longrightarrow> v \<in> set (bt_values m) \<longleftrightarrow> (\<exists>k. bt_get m k = Some v)"
  using bt_wf_distinct [of m] by (force simp: bt_get_def bt_values_def dest: map_of_SomeD)

lemma bt_ext:
  assumes "bt_wf m" "bt_wf m'" "bt_get m = bt_get m'"
  shows "m = m'"
proof -
  have d: "distinct (map fst m)" "distinct (map fst m')" using assms by (simp_all add: bt_wf_distinct)
  have "map_of m = map_of m'" using assms(3) by (simp add: bt_get_def fun_eq_iff)
  then have s: "set m = set m'" using map_of_inject_set [OF d] by simp
  have "sorted (map fst m)" "sorted (map fst m')" using assms by (simp_all add: bt_wf_def strict_sorted_iff)
  then show ?thesis using d s by (intro map_sorted_distinct_set_unique [of fst]) (simp_all add: distinct_map)
qed

section \<open>Sets\<close>

definition bs_insert :: "'a::linorder \<Rightarrow> 'a list \<Rightarrow> 'a list" where
  "bs_insert x s = insort_insert x s"

definition bs_remove :: "'a \<Rightarrow> 'a list \<Rightarrow> 'a list" where
  "bs_remove x s = remove1 x s"

definition bs_wf :: "'a::linorder list \<Rightarrow> bool" where
  "bs_wf s = sorted_wrt (<) s"

lemma bs_wf_Nil [simp]: "bs_wf []"
  by (simp add: bs_wf_def)

lemma bs_wf_insert [simp]: "bs_wf s \<Longrightarrow> bs_wf (bs_insert x s)"
  by (simp add: bs_wf_def bs_insert_def strict_sorted_iff sorted_insort_insert distinct_insort_insert)

lemma bs_wf_remove [simp]: "bs_wf s \<Longrightarrow> bs_wf (bs_remove x s)"
  by (simp add: bs_wf_def bs_remove_def strict_sorted_iff sorted_remove1)

lemma set_bs_insert [simp]: "set (bs_insert x s) = insert x (set s)"
  by (simp add: bs_insert_def set_insort_insert)

lemma set_bs_remove [simp]: "bs_wf s \<Longrightarrow> set (bs_remove x s) = set s - {x}"
  by (simp add: bs_wf_def bs_remove_def strict_sorted_iff)

lemma bs_ext: "bs_wf s \<Longrightarrow> bs_wf t \<Longrightarrow> set s = set t \<Longrightarrow> s = t"
  by (simp add: bs_wf_def strict_sorted_equal)

lemma bs_fold_insert [simp]:
  "bs_wf s \<Longrightarrow> bs_wf (fold bs_insert xs s)"
  "set (fold bs_insert xs s) = set xs \<union> set s"
  by (induction xs arbitrary: s) auto

end
