(* ===== verification/Health_Report.thy ===== *)
theory Health_Report
  imports Ordered_Map
begin

text \<open>
  Health reports (\<open>crates/health-report/src/lib.rs\<close>). Probe ids and classifications are the
  newtypes around \<open>String\<close> of the source. The time type \<open>'t\<close> is \<open>DateTime<Utc>\<close>, of which only
  the order is used. \<open>now\<close> is the reading of the clock; the readings of one call are the same
  instant.
\<close>

section \<open>Data\<close>

type_synonym health_probe_id = string
type_synonym health_alert_classification = string
type_synonym probe_key = "health_probe_id \<times> string option"

record 't health_probe_alert =
  al_id :: health_probe_id
  al_target :: "string option"
  al_in_alert_since :: "'t option"
  al_message :: string
  al_tenant_message :: "string option"
  al_classifications :: "health_alert_classification list"

record health_probe_success =
  su_id :: health_probe_id
  su_target :: "string option"

record 't health_report =
  hr_source :: string
  hr_triggered_by :: "string option"
  hr_observed_at :: "'t option"
  hr_successes :: "health_probe_success list"
  hr_alerts :: "'t health_probe_alert list"

datatype health_report_apply_mode = Merge | Replace

datatype health_report_conversion_error =
  TimestampParseError | MissingSource | MissingId | MissingClassification

definition alert_key :: "'t health_probe_alert \<Rightarrow> probe_key" where
  "alert_key a = (al_id a, al_target a)"

definition success_key :: "health_probe_success \<Rightarrow> probe_key" where
  "success_key s = (su_id s, su_target s)"

section \<open>Well-known names\<close>

definition probe_heartbeat_timeout :: health_probe_id where
  "probe_heartbeat_timeout = ''HeartbeatTimeout''"

definition probe_stale_agent_version :: health_probe_id where
  "probe_stale_agent_version = ''StaleAgentVersion''"

definition probe_missing_report :: health_probe_id where
  "probe_missing_report = ''MissingReport''"

definition probe_malformed_report :: health_probe_id where
  "probe_malformed_report = ''MalformedReport''"

definition probe_sku_validation :: health_probe_id where
  "probe_sku_validation = ''SkuValidation''"

definition probe_ib_port_down :: health_probe_id where
  "probe_ib_port_down = ''IbPortDown''"

definition prevent_host_state_changes :: health_alert_classification where
  "prevent_host_state_changes = ''PreventHostStateChanges''"

definition prevent_allocations :: health_alert_classification where
  "prevent_allocations = ''PreventAllocations''"

definition suppress_external_alerting :: health_alert_classification where
  "suppress_external_alerting = ''SuppressExternalAlerting''"

definition stop_reboot_for_automatic_recovery_from_state_machine :: health_alert_classification where
  "stop_reboot_for_automatic_recovery_from_state_machine =
     ''StopRebootForAutomaticRecoveryFromStateMachine''"

definition exclude_from_state_machine_sla :: health_alert_classification where
  "exclude_from_state_machine_sla = ''ExcludeFromStateMachineSla''"

definition DPU_AGENT_SOURCE :: string where "DPU_AGENT_SOURCE = ''forge-dpu-agent''"
definition SKU_VALIDATION_SOURCE :: string where "SKU_VALIDATION_SOURCE = ''sku-validation''"
definition QUARANTINE_SOURCE :: string where "QUARANTINE_SOURCE = ''quarantine''"
definition REPAIR_REQUEST_MERGE_SOURCE :: string where "REPAIR_REQUEST_MERGE_SOURCE = ''repair-request''"
definition REQUEST_ONLINE_REPAIR_MERGE_SOURCE :: string where
  "REQUEST_ONLINE_REPAIR_MERGE_SOURCE = ''request-online-repair''"

definition probe_id_from_str :: "string \<Rightarrow> health_report_conversion_error + health_probe_id" where
  "probe_id_from_str s = (if s = [] then Inl MissingId else Inr s)"

definition classification_from_str ::
    "string \<Rightarrow> health_report_conversion_error + health_alert_classification" where
  "classification_from_str s = (if s = [] then Inl MissingClassification else Inr s)"

section \<open>Alerts\<close>

definition alert_heartbeat_timeout ::
    "'t \<Rightarrow> string \<Rightarrow> string \<Rightarrow> bool \<Rightarrow> bool \<Rightarrow> 't health_probe_alert" where
  "alert_heartbeat_timeout now target message prevent suppress =
     \<lparr>al_id = probe_heartbeat_timeout, al_target = Some target, al_in_alert_since = Some now,
      al_message = message, al_tenant_message = None,
      al_classifications =
        (if prevent then [prevent_allocations] else []) @ [prevent_host_state_changes] @
        (if suppress then [suppress_external_alerting] else [])\<rparr>"

definition alert_stale_agent_version :: "'t \<Rightarrow> string \<Rightarrow> string \<Rightarrow> bool \<Rightarrow> 't health_probe_alert" where
  "alert_stale_agent_version now dpu_id message prevent =
     \<lparr>al_id = probe_stale_agent_version, al_target = Some dpu_id, al_in_alert_since = Some now,
      al_message = message, al_tenant_message = None,
      al_classifications = (if prevent then [prevent_allocations] else [])\<rparr>"

definition alert_missing_report :: "'t \<Rightarrow> 't health_probe_alert" where
  "alert_missing_report now =
     \<lparr>al_id = probe_missing_report, al_target = None, al_in_alert_since = Some now,
      al_message = ''A HealthReport is not available'', al_tenant_message = None,
      al_classifications = []\<rparr>"

definition alert_malformed_report :: "'t \<Rightarrow> string \<Rightarrow> 't health_probe_alert" where
  "alert_malformed_report now err =
     \<lparr>al_id = probe_malformed_report, al_target = None, al_in_alert_since = Some now,
      al_message = ''Health report can not be parsed: '' @ err, al_tenant_message = None,
      al_classifications = []\<rparr>"

definition alert_sku_mismatch :: "'t \<Rightarrow> string list \<Rightarrow> 't health_probe_alert" where
  "alert_sku_mismatch now mismatches =
     \<lparr>al_id = probe_sku_validation, al_target = None, al_in_alert_since = Some now,
      al_message = join [CHR 0x0A] mismatches, al_tenant_message = None,
      al_classifications = [prevent_allocations]\<rparr>"

definition alert_sku_missing :: "'t \<Rightarrow> string \<Rightarrow> 't health_probe_alert" where
  "alert_sku_missing now sku_id =
     \<lparr>al_id = probe_sku_validation, al_target = None, al_in_alert_since = Some now,
      al_message = ''The assigned sku '' @ sku_id @ '' does not exist'', al_tenant_message = None,
      al_classifications = [prevent_allocations]\<rparr>"

definition alert_ib_port_down :: "'t \<Rightarrow> string list \<Rightarrow> nat \<Rightarrow> 't health_probe_alert" where
  "alert_ib_port_down now down_ports total_ports =
     \<lparr>al_id = probe_ib_port_down, al_target = None, al_in_alert_since = Some now,
      al_message = ''IB port(s) down: '' @ show_nat (length down_ports) @ '' of '' @ show_nat total_ports @
        '' ports are not active. Down GUIDs: '' @ join '', '' down_ports,
      al_tenant_message = Some (''InfiniBand connectivity issue: '' @ show_nat (length down_ports) @
        '' port(s) are currently unavailable''),
      al_classifications = [prevent_allocations]\<rparr>"

definition merge_classifications ::
    "health_alert_classification list \<Rightarrow> health_alert_classification list \<Rightarrow> health_alert_classification list" where
  "merge_classifications c1 c2 = fold bs_insert c2 (fold bs_insert c1 [])"

fun min_time :: "'t::linorder option \<Rightarrow> 't option \<Rightarrow> 't option" where
  "min_time (Some t1) (Some t2) = Some (min t1 t2)"
| "min_time (Some t1) None = Some t1"
| "min_time None (Some t2) = Some t2"
| "min_time None None = None"

fun merge_tenant_message :: "string option \<Rightarrow> string option \<Rightarrow> string option" where
  "merge_tenant_message (Some m1) (Some m2) = Some (m1 @ CHR 0x0A # m2)"
| "merge_tenant_message (Some m1) None = Some m1"
| "merge_tenant_message None (Some m2) = Some m2"
| "merge_tenant_message None None = None"

definition alert_merge :: "'t::linorder health_probe_alert \<Rightarrow> 't health_probe_alert \<Rightarrow> 't health_probe_alert" where
  "alert_merge a other = a\<lparr>
     al_classifications := merge_classifications (al_classifications a) (al_classifications other),
     al_message := (if al_message a = [] then al_message other
       else if al_message other \<noteq> [] then al_message a @ CHR 0x0A # al_message other
       else al_message a),
     al_tenant_message := merge_tenant_message (al_tenant_message a) (al_tenant_message other),
     al_in_alert_since := min_time (al_in_alert_since other) (al_in_alert_since a)\<rparr>"

section \<open>Reports\<close>

definition report_empty :: "'t \<Rightarrow> string \<Rightarrow> 't health_report" where
  "report_empty now source =
     \<lparr>hr_source = source, hr_triggered_by = None, hr_observed_at = Some now,
      hr_successes = [], hr_alerts = []\<rparr>"

definition report_missing_report :: "'t \<Rightarrow> 't health_report" where
  "report_missing_report now =
     \<lparr>hr_source = ''MissingReport'', hr_triggered_by = None, hr_observed_at = Some now,
      hr_successes = [], hr_alerts = [alert_missing_report now]\<rparr>"

definition report_malformed_report :: "'t \<Rightarrow> string \<Rightarrow> 't health_report" where
  "report_malformed_report now err =
     \<lparr>hr_source = ''MalformedReport'', hr_triggered_by = None, hr_observed_at = Some now,
      hr_successes = [], hr_alerts = [alert_malformed_report now err]\<rparr>"

definition report_heartbeat_timeout ::
    "'t \<Rightarrow> string \<Rightarrow> string \<Rightarrow> string \<Rightarrow> bool \<Rightarrow> bool \<Rightarrow> 't health_report" where
  "report_heartbeat_timeout now source target message prevent suppress =
     \<lparr>hr_source = source, hr_triggered_by = None, hr_observed_at = Some now,
      hr_successes = [], hr_alerts = [alert_heartbeat_timeout now target message prevent suppress]\<rparr>"

definition report_stale_agent_version ::
    "'t \<Rightarrow> string \<Rightarrow> string \<Rightarrow> string \<Rightarrow> bool \<Rightarrow> 't health_report" where
  "report_stale_agent_version now source dpu_id message prevent =
     \<lparr>hr_source = source, hr_triggered_by = None, hr_observed_at = Some now,
      hr_successes = [], hr_alerts = [alert_stale_agent_version now dpu_id message prevent]\<rparr>"

definition report_sku_mismatch :: "'t \<Rightarrow> string list \<Rightarrow> 't health_report" where
  "report_sku_mismatch now mismatches =
     \<lparr>hr_source = SKU_VALIDATION_SOURCE, hr_triggered_by = None, hr_observed_at = Some now,
      hr_successes = [], hr_alerts = [alert_sku_mismatch now mismatches]\<rparr>"

definition report_sku_missing :: "'t \<Rightarrow> string \<Rightarrow> 't health_report" where
  "report_sku_missing now sku_id =
     \<lparr>hr_source = SKU_VALIDATION_SOURCE, hr_triggered_by = None, hr_observed_at = Some now,
      hr_successes = [], hr_alerts = [alert_sku_missing now sku_id]\<rparr>"

definition quarantine_report :: "'t \<Rightarrow> string \<Rightarrow> 't health_report" where
  "quarantine_report now message =
     \<lparr>hr_source = QUARANTINE_SOURCE, hr_triggered_by = None, hr_observed_at = Some now,
      hr_successes = [],
      hr_alerts = [\<lparr>al_id = ''Quarantine'', al_target = None, al_in_alert_since = Some now,
        al_message = message, al_tenant_message = None, al_classifications = [prevent_allocations]\<rparr>]\<rparr>"

definition classifications :: "'t health_report \<Rightarrow> health_alert_classification list" where
  "classifications r = concat (map al_classifications (hr_alerts r))"

definition find_alert_by_classification ::
    "'t health_report \<Rightarrow> health_alert_classification \<Rightarrow> 't health_probe_alert option" where
  "find_alert_by_classification r c = find (\<lambda>a. c \<in> set (al_classifications a)) (hr_alerts r)"

definition has_classification :: "'t health_report \<Rightarrow> health_alert_classification \<Rightarrow> bool" where
  "has_classification r c = (find_alert_by_classification r c \<noteq> None)"

definition is_reboot_blocked_in_state_machine :: "'t health_report \<Rightarrow> bool" where
  "is_reboot_blocked_in_state_machine r =
     list_ex (\<lambda>x. list_ex (\<lambda>a. a = stop_reboot_for_automatic_recovery_from_state_machine)
       (al_classifications x)) (hr_alerts r)"

text \<open>\<open>update_in_alert_since\<close>: the timestamps of the previous report, a later entry of a key overwriting.\<close>

definition previous_in_alert_times :: "'t health_report option \<Rightarrow> probe_key \<rightharpoonup> 't" where
  "previous_in_alert_times previous =
     (case previous of None \<Rightarrow> Map.empty
      | Some p \<Rightarrow> fold (\<lambda>a m. case al_in_alert_since a of
            None \<Rightarrow> m | Some t \<Rightarrow> m(alert_key a \<mapsto> t)) (hr_alerts p) Map.empty)"

definition update_in_alert_since :: "'t \<Rightarrow> 't health_report \<Rightarrow> 't health_report option \<Rightarrow> 't health_report" where
  "update_in_alert_since now r previous =
     (let times = previous_in_alert_times previous
      in r\<lparr>hr_alerts := map (\<lambda>a. a\<lparr>al_in_alert_since :=
             Some (case times (alert_key a) of Some time \<Rightarrow> time | None \<Rightarrow> now)\<rparr>) (hr_alerts r)\<rparr>)"

text \<open>The two loops of \<open>merge\<close> over the alerts, each step on the pair of successes and alerts.\<close>

definition merge_own_alert :: "'t health_probe_alert
    \<Rightarrow> probe_key list \<times> (probe_key, 't health_probe_alert) btree_map
    \<Rightarrow> probe_key list \<times> (probe_key, 't health_probe_alert) btree_map" where
  "merge_own_alert a st =
     (bs_remove (alert_key a) (fst st), bt_insert (alert_key a) a (snd st))"

definition merge_other_alert :: "'t::linorder health_probe_alert
    \<Rightarrow> probe_key list \<times> (probe_key, 't health_probe_alert) btree_map
    \<Rightarrow> probe_key list \<times> (probe_key, 't health_probe_alert) btree_map" where
  "merge_other_alert a st =
     (bs_remove (alert_key a) (fst st),
      case bt_get (snd st) (alert_key a) of
        None \<Rightarrow> bt_insert (alert_key a) a (snd st)
      | Some existing \<Rightarrow> bt_insert (alert_key a) (alert_merge existing a) (snd st))"

definition report_merge :: "'t::linorder health_report \<Rightarrow> 't health_report \<Rightarrow> 't health_report" where
  "report_merge r other =
     (let successes = fold bs_insert (map success_key (hr_successes r)) [];
          successes = fold bs_insert (map success_key (hr_successes other)) successes;
          st = fold merge_own_alert (hr_alerts r) (successes, []);
          st = fold merge_other_alert (hr_alerts other) st
      in r\<lparr>hr_observed_at := min_time (hr_observed_at r) (hr_observed_at other),
           hr_successes := map (\<lambda>(i, t). \<lparr>su_id = i, su_target = t\<rparr>) (fst st),
           hr_alerts := bt_values (snd st)\<rparr>)"

text \<open>
  \<open>hash_without_timestamps\<close>: the sequence of writes to the hasher. A \<open>str\<close> writes itself, an
  \<open>Option\<close> its discriminant and then its value, a \<open>BTreeSet\<close> its length and then its elements.
\<close>

datatype hash_write = WriteUsize nat | WriteDiscriminant nat | WriteStr string

definition hash_option :: "string option \<Rightarrow> hash_write list" where
  "hash_option v = (case v of None \<Rightarrow> [WriteDiscriminant 0] | Some x \<Rightarrow> [WriteDiscriminant 1, WriteStr x])"

definition alert_hash :: "'t health_probe_alert \<Rightarrow> hash_write list" where
  "alert_hash a =
     (let sorted_classifications = fold bs_insert (al_classifications a) []
      in WriteStr (al_id a) # hash_option (al_target a) @ WriteStr (al_message a) #
         hash_option (al_tenant_message a) @
         WriteUsize (length sorted_classifications) # map WriteStr sorted_classifications)"

definition success_hash :: "health_probe_success \<Rightarrow> hash_write list" where
  "success_hash s = WriteStr (su_id s) # hash_option (su_target s)"

definition success_map :: "'t health_report \<Rightarrow> (probe_key, health_probe_success) btree_map" where
  "success_map r = fold (\<lambda>s. bt_insert (success_key s) s) (hr_successes r) []"

definition alert_map :: "'t health_report \<Rightarrow> (probe_key, 't health_probe_alert) btree_map" where
  "alert_map r = fold (\<lambda>a. bt_insert (alert_key a) a) (hr_alerts r) []"

definition hash_without_timestamps :: "'t health_report \<Rightarrow> hash_write list" where
  "hash_without_timestamps r =
     (let successes = success_map r; alerts = alert_map r
      in WriteUsize (length successes) # concat (map success_hash (bt_values successes)) @
         WriteUsize (length alerts) # concat (map alert_hash (bt_values alerts)))"

section \<open>What a merge computes\<close>

text \<open>
  The abstract view of a report: at most one alert per key (the last one wins), and the set of
  keys of its successes. A report is well formed when both lists are sorted by key without
  repetition and no key is in both.
\<close>

definition alert_at :: "'t health_report \<Rightarrow> probe_key \<Rightarrow> 't health_probe_alert option" where
  "alert_at r k = find (\<lambda>a. alert_key a = k) (rev (hr_alerts r))"

definition alert_keys :: "'t health_report \<Rightarrow> probe_key set" where
  "alert_keys r = alert_key ` set (hr_alerts r)"

definition success_keys :: "'t health_report \<Rightarrow> probe_key set" where
  "success_keys r = success_key ` set (hr_successes r)"

definition report_wf :: "'t health_report \<Rightarrow> bool" where
  "report_wf r \<longleftrightarrow> sorted_wrt (<) (map alert_key (hr_alerts r)) \<and>
     sorted_wrt (<) (map success_key (hr_successes r)) \<and> alert_keys r \<inter> success_keys r = {}"

definition merge_chain :: "'t::linorder health_probe_alert option \<Rightarrow> 't health_probe_alert list
    \<Rightarrow> 't health_probe_alert option" where
  "merge_chain e as = fold (\<lambda>a e. Some (case e of None \<Rightarrow> a | Some e \<Rightarrow> alert_merge e a)) as e"

lemma merge_chain_simps [simp]:
  "merge_chain e [] = e"
  "merge_chain e (a # as) = merge_chain (Some (case e of None \<Rightarrow> a | Some e \<Rightarrow> alert_merge e a)) as"
  by (simp_all add: merge_chain_def)

lemma alert_key_merge [simp]: "alert_key (alert_merge a b) = alert_key a"
  by (simp add: alert_key_def alert_merge_def)

lemma set_merge_classifications [simp]: "set (merge_classifications c1 c2) = set c1 \<union> set c2"
  by (auto simp: merge_classifications_def)

lemma merge_classifications_wf [simp]: "bs_wf (merge_classifications c1 c2)"
  by (simp add: merge_classifications_def)

lemma classifications_alert_merge [simp]:
  "set (al_classifications (alert_merge a b)) = set (al_classifications a) \<union> set (al_classifications b)"
  by (simp add: alert_merge_def)

definition keyed :: "(probe_key, 't health_probe_alert) btree_map \<Rightarrow> bool" where
  "keyed m \<longleftrightarrow> (\<forall>e \<in> set m. alert_key (snd e) = fst e)"

lemma keyed_insert: "keyed m \<Longrightarrow> alert_key a = k \<Longrightarrow> keyed (bt_insert k a m)"
  unfolding keyed_def by (induction k a m rule: bt_insert.induct) auto

lemma keyed_get: "keyed m \<Longrightarrow> bt_get m k = Some a \<Longrightarrow> alert_key a = k"
  by (auto simp: keyed_def bt_get_def dest!: map_of_SomeD)

lemma keyed_values_iff:
  "keyed m \<Longrightarrow> bt_wf m \<Longrightarrow> a \<in> set (bt_values m) \<and> alert_key a = k \<longleftrightarrow> bt_get m k = Some a"
  by (metis in_bt_values keyed_get)

lemma keyed_values: "keyed m \<Longrightarrow> map alert_key (bt_values m) = map fst m"
  by (simp add: keyed_def bt_values_def)

abbreviation merge_inv where
  "merge_inv st \<equiv> bs_wf (fst st) \<and> bt_wf (snd st) \<and> keyed (snd st)"

lemma merge_own_inv:
  "merge_inv st \<Longrightarrow> merge_inv (fold merge_own_alert as st) \<and>
     set (fst (fold merge_own_alert as st)) = set (fst st) - alert_key ` set as \<and>
     bt_get (snd (fold merge_own_alert as st)) k =
       (case find (\<lambda>a. alert_key a = k) (rev as) of Some a \<Rightarrow> Some a | None \<Rightarrow> bt_get (snd st) k)"
proof (induction as rule: rev_induct)
  case (snoc a as)
  then show ?case
    by (auto simp: merge_own_alert_def keyed_insert bt_get_insert)
qed simp

lemma merge_other_inv:
  "merge_inv st \<Longrightarrow> merge_inv (fold merge_other_alert as st) \<and>
     set (fst (fold merge_other_alert as st)) = set (fst st) - alert_key ` set as \<and>
     bt_get (snd (fold merge_other_alert as st)) k =
       merge_chain (bt_get (snd st) k) (filter (\<lambda>a. alert_key a = k) as)"
proof (induction as arbitrary: st)
  case (Cons a as)
  have st: "merge_inv (merge_other_alert a st)"
    using Cons.prems by (auto simp: merge_other_alert_def intro!: keyed_insert dest: keyed_get split: option.splits)
  have "bt_get (snd (merge_other_alert a st)) k =
      (if alert_key a = k then Some (case bt_get (snd st) k of None \<Rightarrow> a | Some e \<Rightarrow> alert_merge e a)
       else bt_get (snd st) k)"
    using Cons.prems by (auto simp: merge_other_alert_def bt_get_insert split: option.splits)
  moreover have "set (fst (merge_other_alert a st)) = set (fst st) - {alert_key a}"
    using Cons.prems by (simp add: merge_other_alert_def)
  ultimately show ?case using Cons.IH [OF st] by auto
qed simp

lemma alert_at_None: "alert_at r k = None \<longleftrightarrow> k \<notin> alert_keys r"
  by (auto simp: alert_at_def alert_keys_def find_None_iff)

lemma alert_at_SomeD: "alert_at r k = Some a \<Longrightarrow> a \<in> set (hr_alerts r) \<and> alert_key a = k"
  by (auto simp: alert_at_def dest: find_SomeD)

lemma alert_at_distinct:
  assumes "distinct (map alert_key (hr_alerts r))"
  shows "alert_at r k = Some a \<longleftrightarrow> a \<in> set (hr_alerts r) \<and> alert_key a = k"
proof
  assume a: "a \<in> set (hr_alerts r) \<and> alert_key a = k"
  then obtain b where b: "alert_at r k = Some b"
    using alert_at_None [of r k] by (cases "alert_at r k") (auto simp: alert_keys_def)
  with a alert_at_SomeD [OF b] assms show "alert_at r k = Some a"
    by (auto simp: distinct_map dest: inj_onD)
qed (rule alert_at_SomeD)

lemma filter_key_distinct:
  "distinct (map alert_key as) \<Longrightarrow>
   filter (\<lambda>a. alert_key a = k) as = (case find (\<lambda>a. alert_key a = k) (rev as) of None \<Rightarrow> [] | Some a \<Rightarrow> [a])"
proof (induction as rule: rev_induct)
  case (snoc a as)
  have "alert_key a = k \<Longrightarrow> filter (\<lambda>a. alert_key a = k) as = []"
    using snoc.prems by (auto simp: filter_empty_conv image_iff)
  with snoc show ?case by (auto simp: filter_empty_conv)
qed simp

lemma report_wf_distinct: "report_wf r \<Longrightarrow> distinct (map alert_key (hr_alerts r))"
  by (simp add: report_wf_def strict_sorted_iff)

definition merge_result :: "'t::linorder health_report \<Rightarrow> 't health_report
    \<Rightarrow> probe_key list \<times> (probe_key, 't health_probe_alert) btree_map" where
  "merge_result r other = fold merge_other_alert (hr_alerts other) (fold merge_own_alert (hr_alerts r)
     (fold bs_insert (map success_key (hr_successes other)) (fold bs_insert (map success_key (hr_successes r)) []), []))"

lemma merge_result_inv: "merge_inv (merge_result r other)"
  and merge_result_successes: "set (fst (merge_result r other)) =
    (success_keys r \<union> success_keys other) - alert_keys r - alert_keys other"
  and merge_result_get: "bt_get (snd (merge_result r other)) k =
    merge_chain (alert_at r k) (filter (\<lambda>a. alert_key a = k) (hr_alerts other))"
proof -
  let ?s = "(fold bs_insert (map success_key (hr_successes other)) (fold bs_insert (map success_key (hr_successes r)) []),
    [] :: (probe_key, 'a health_probe_alert) btree_map)"
  have s: "merge_inv ?s" by (simp add: keyed_def)
  note own = merge_own_inv [OF s, of "hr_alerts r"]
  note oth = merge_other_inv [OF conjunct1 [OF own], of "hr_alerts other"]
  show "merge_inv (merge_result r other)" using oth by (simp add: merge_result_def)
  show "set (fst (merge_result r other)) = (success_keys r \<union> success_keys other) - alert_keys r - alert_keys other"
    using oth own by (auto simp: merge_result_def success_keys_def alert_keys_def)
  show "bt_get (snd (merge_result r other)) k =
      merge_chain (alert_at r k) (filter (\<lambda>a. alert_key a = k) (hr_alerts other))"
    using oth own by (simp add: merge_result_def alert_at_def split: option.split)
qed

lemma report_merge_result:
  "report_merge r other = r\<lparr>hr_observed_at := min_time (hr_observed_at r) (hr_observed_at other),
     hr_successes := map (\<lambda>(i, t). \<lparr>su_id = i, su_target = t\<rparr>) (fst (merge_result r other)),
     hr_alerts := bt_values (snd (merge_result r other))\<rparr>"
  by (simp add: report_merge_def merge_result_def Let_def)

lemma report_merge_sel:
  "hr_source (report_merge r other) = hr_source r"
  "hr_triggered_by (report_merge r other) = hr_triggered_by r"
  "hr_observed_at (report_merge r other) = min_time (hr_observed_at r) (hr_observed_at other)"
  "hr_successes (report_merge r other) = map (\<lambda>(i, t). \<lparr>su_id = i, su_target = t\<rparr>) (fst (merge_result r other))"
  "hr_alerts (report_merge r other) = bt_values (snd (merge_result r other))"
  by (simp_all add: report_merge_result)

lemma success_key_make: "map success_key (map (\<lambda>(i, t). \<lparr>su_id = i, su_target = t\<rparr>) ks) = ks"
  by (induction ks) (auto simp: success_key_def)

lemma merge_alert_keys_map:
  "map alert_key (hr_alerts (report_merge r other)) = map fst (snd (merge_result r other))"
  using merge_result_inv [of r other] by (simp add: report_merge_result keyed_values)

lemma merge_distinct: "distinct (map alert_key (hr_alerts (report_merge r other)))"
  using merge_result_inv [of r other] by (simp add: merge_alert_keys_map bt_wf_distinct)

lemma merge_alert_at:
  "alert_at (report_merge r other) k = merge_chain (alert_at r k) (filter (\<lambda>a. alert_key a = k) (hr_alerts other))"
  (is "?l = ?r")
proof (rule option_eqI)
  fix a
  have "?l = Some a \<longleftrightarrow> a \<in> set (bt_values (snd (merge_result r other))) \<and> alert_key a = k"
    by (simp add: alert_at_distinct [OF merge_distinct]) (simp add: report_merge_result)
  also have "\<dots> \<longleftrightarrow> bt_get (snd (merge_result r other)) k = Some a"
    using merge_result_inv [of r other] by (intro keyed_values_iff) simp_all
  finally show "?l = Some a \<longleftrightarrow> ?r = Some a" by (simp add: merge_result_get)
qed

lemma merge_chain_None: "merge_chain e as = None \<longleftrightarrow> e = None \<and> as = []"
  by (induction as arbitrary: e) auto

lemma merge_alert_keys: "alert_keys (report_merge r other) = alert_keys r \<union> alert_keys other"
proof -
  have "k \<notin> alert_keys (report_merge r other) \<longleftrightarrow> k \<notin> alert_keys r \<and> k \<notin> alert_keys other" for k
    by (simp add: alert_at_None [symmetric, where r = "report_merge r other"] merge_alert_at merge_chain_None)
      (auto simp: alert_at_None alert_keys_def filter_empty_conv)
  then show ?thesis by blast
qed

lemma merge_success_keys: "success_keys (report_merge r other) =
    (success_keys r \<union> success_keys other) - alert_keys r - alert_keys other"
  unfolding success_keys_def [of "report_merge r other"] set_map [symmetric]
  by (simp only: report_merge_sel success_key_make merge_result_successes)

lemma merge_wf: "report_wf (report_merge r other)"
proof -
  have "sorted_wrt (<) (map success_key (hr_successes (report_merge r other)))"
    using merge_result_inv [of r other]
    by (simp only: report_merge_sel success_key_make bs_wf_def)
  then show ?thesis
    using merge_result_inv [of r other]
    by (auto simp: report_wf_def merge_alert_keys_map bt_wf_def merge_alert_keys merge_success_keys)
qed

text \<open>Two well-formed reports with the same abstract view are the same.\<close>

lemma sorted_key_ext:
  fixes f :: "'a \<Rightarrow> 'k::linorder"
  assumes "sorted_wrt (<) (map f xs)" "sorted_wrt (<) (map f ys)" "set xs = set ys"
  shows "xs = ys"
  using assms by (intro map_sorted_distinct_set_unique [of f]) (auto simp: strict_sorted_iff distinct_map)

lemma report_ext:
  assumes "report_wf r" "report_wf r'" "hr_source r = hr_source r'" "hr_triggered_by r = hr_triggered_by r'"
    "hr_observed_at r = hr_observed_at r'" "success_keys r = success_keys r'"
    "\<And>k. alert_at r k = alert_at r' k"
  shows "r = (r' :: 't health_report)"
proof -
  have "a \<in> set (hr_alerts r) \<longleftrightarrow> a \<in> set (hr_alerts r')" for a
    using assms(1,2,7) alert_at_distinct [of r "alert_key a" a] alert_at_distinct [of r' "alert_key a" a]
    by (simp add: report_wf_distinct)
  then have "hr_alerts r = hr_alerts r'"
    using assms(1,2) by (intro sorted_key_ext [of alert_key]) (auto simp: report_wf_def)
  moreover have "inj success_key" by (auto simp: inj_on_def success_key_def)
  then have "hr_successes r = hr_successes r'"
    using assms(1,2,6) by (intro sorted_key_ext [of success_key]) (simp_all add: report_wf_def success_keys_def inj_image_eq_iff)
  ultimately show ?thesis using assms by simp
qed

lemma set_classifications:
  "distinct (map alert_key (hr_alerts r)) \<Longrightarrow>
   set (classifications r) = {c. \<exists>k a. alert_at r k = Some a \<and> c \<in> set (al_classifications a)}"
  by (auto simp: classifications_def alert_at_distinct alert_key_def)

lemma merge_chain_classifications:
  "{c. \<exists>a. merge_chain e as = Some a \<and> c \<in> set (al_classifications a)} =
   {c. \<exists>a. e = Some a \<and> c \<in> set (al_classifications a)} \<union> (\<Union>a \<in> set as. set (al_classifications a))"
  by (induction as arbitrary: e) (auto split: option.splits)

lemma merge_classifications_union:
  assumes "distinct (map alert_key (hr_alerts r))"
  shows "set (classifications (report_merge r other)) = set (classifications r) \<union> set (classifications other)"
proof -
  let ?f = "\<lambda>k. filter (\<lambda>a. alert_key a = k) (hr_alerts other)"
  have "set (classifications (report_merge r other)) =
      (\<Union>k. {c. \<exists>a. merge_chain (alert_at r k) (?f k) = Some a \<and> c \<in> set (al_classifications a)})"
    by (auto simp: set_classifications [OF merge_distinct] merge_alert_at)
  also have "\<dots> = (\<Union>k. {c. \<exists>a. alert_at r k = Some a \<and> c \<in> set (al_classifications a)}) \<union>
      (\<Union>k. \<Union>a \<in> set (?f k). set (al_classifications a))"
    by (simp add: merge_chain_classifications UN_Un_distrib)
  also have "\<dots> = set (classifications r) \<union> set (classifications other)"
    by (simp add: set_classifications [OF assms]) (auto simp: classifications_def alert_key_def)
  finally show ?thesis .
qed

lemma has_classification_iff: "has_classification r c \<longleftrightarrow> c \<in> set (classifications r)"
  by (auto simp: has_classification_def find_alert_by_classification_def classifications_def find_None_iff)

lemma min_time_assoc: "min_time (min_time a b) c = min_time a (min_time b c)"
  by (cases a; cases b; cases c) (simp_all add: min.assoc)

lemma merge_tenant_message_assoc:
  "merge_tenant_message (merge_tenant_message a b) c = merge_tenant_message a (merge_tenant_message b c)"
  by (cases a; cases b; cases c) simp_all

lemma merge_classifications_assoc:
  "merge_classifications (merge_classifications a b) c = merge_classifications a (merge_classifications b c)"
  by (rule bs_ext) auto

lemma alert_merge_assoc: "alert_merge (alert_merge a b) c = alert_merge a (alert_merge b c)"
  by (simp add: alert_merge_def merge_classifications_assoc merge_tenant_message_assoc min_time_assoc)

lemma merge_chain_assoc:
  "merge_chain (merge_chain e as) bs = merge_chain e (case merge_chain (merge_chain None as) bs of None \<Rightarrow> [] | Some u \<Rightarrow> [u])"
proof (induction bs rule: rev_induct)
  case Nil
  show ?case
  proof (induction as rule: rev_induct)
    case (snoc a as)
    then show ?case
      by (simp add: merge_chain_def split: option.splits) (auto simp: alert_merge_assoc split: option.splits)
  qed simp
next
  case (snoc b bs)
  then show ?case
    by (simp add: merge_chain_def split: option.splits) (auto simp: alert_merge_assoc split: option.splits)
qed

section \<open>What the hash sees\<close>

definition alert_content ::
    "'t health_probe_alert \<Rightarrow> probe_key \<times> string \<times> string option \<times> health_alert_classification set" where
  "alert_content a = (alert_key a, al_message a, al_tenant_message a, set (al_classifications a))"

lemma concat_delimited:
  assumes "\<And>x y u v. f x @ u = f y @ v \<Longrightarrow> g x = g y \<and> u = v"
  shows "length xs = length ys \<Longrightarrow> concat (map f xs) @ u = concat (map f ys) @ v \<Longrightarrow> map g xs = map g ys \<and> u = v"
proof (induction xs ys rule: list_induct2)
  case (Cons x xs y ys)
  then have "f x @ concat (map f xs) @ u = f y @ concat (map f ys) @ v" by simp
  from assms [OF this] Cons.IH show ?case by simp
qed simp

lemma hash_option_delimited: "hash_option x @ u = hash_option y @ v \<longleftrightarrow> x = y \<and> u = v"
  by (auto simp: hash_option_def split: option.splits)

lemma success_hash_delimited: "success_hash x @ u = success_hash y @ v \<Longrightarrow> success_key x = success_key y \<and> u = v"
  by (simp add: success_hash_def success_key_def hash_option_delimited)

lemma alert_hash_delimited:
  assumes "alert_hash x @ u = alert_hash y @ v"
  shows "alert_content x = alert_content y \<and> u = v"
proof -
  let ?cx = "fold bs_insert (al_classifications x) []" and ?cy = "fold bs_insert (al_classifications y) []"
  have e: "alert_key x = alert_key y" "al_message x = al_message y" "al_tenant_message x = al_tenant_message y"
    "length ?cx = length ?cy" "map WriteStr ?cx @ u = map WriteStr ?cy @ v"
    using assms by (auto simp: alert_hash_def Let_def alert_key_def hash_option_delimited)
  then have "map WriteStr ?cx = map WriteStr ?cy" "u = v" by simp_all
  moreover from this(1) have "?cx = ?cy" by (simp add: inj_map_eq_map inj_on_def)
  then have "set (al_classifications x) = set (al_classifications y)"
    using bs_fold_insert(2) [of "al_classifications x" "[]"] bs_fold_insert(2) [of "al_classifications y" "[]"] by simp
  ultimately show ?thesis using e by (simp add: alert_content_def)
qed

lemma alert_hash_cong: "alert_content x = alert_content y \<Longrightarrow> alert_hash x = alert_hash y"
proof -
  assume a: "alert_content x = alert_content y"
  then have "fold bs_insert (al_classifications x) [] = fold bs_insert (al_classifications y) []"
    by (intro bs_ext) (simp_all add: alert_content_def)
  with a show ?thesis by (simp add: alert_hash_def alert_content_def alert_key_def)
qed

lemma fold_bt_insert_key:
  "bt_wf m \<Longrightarrow> bt_wf (fold (\<lambda>a. bt_insert (f a) a) as m) \<and>
   bt_get (fold (\<lambda>a. bt_insert (f a) a) as m) k =
     (case find (\<lambda>a. f a = k) (rev as) of Some a \<Rightarrow> Some a | None \<Rightarrow> bt_get m k)"
  by (induction as rule: rev_induct) (auto simp: bt_get_insert)

text \<open>The values of a map keyed by \<open>f\<close>, seen through \<open>g\<close>, determine and are determined by its lookups.\<close>

lemma keyed_map_ext:
  fixes m m' :: "('k::linorder, 'v) btree_map"
  assumes wf: "bt_wf m" "bt_wf m'"
    and f: "\<And>k v. bt_get m k = Some v \<Longrightarrow> h (g v) = k" "\<And>k v. bt_get m' k = Some v \<Longrightarrow> h (g v) = k"
  shows "map g (bt_values m) = map g (bt_values m') \<longleftrightarrow>
    (\<forall>k. map_option g (bt_get m k) = map_option g (bt_get m' k))"
proof -
  have e: "map (\<lambda>x. (h x, x)) (map g (bt_values n)) = map (\<lambda>(k, v). (k, g v)) n"
    if "bt_wf n" "\<And>k v. bt_get n k = Some v \<Longrightarrow> h (g v) = k" for n :: "('k, 'v) btree_map"
    using bt_wf_distinct [OF that(1)] that(2) by (auto simp: bt_values_def bt_get_def)
  have w: "bt_wf (map (\<lambda>(k, v). (k, g v)) n)" if "bt_wf n" for n :: "('k, 'v) btree_map"
    using that by (simp add: bt_wf_def case_prod_unfold comp_def)
  have o: "bt_get (map (\<lambda>(k, v). (k, g v)) n) k = map_option g (bt_get n k)" for n :: "('k, 'v) btree_map" and k
    by (simp add: bt_get_def map_of_map)
  show ?thesis
  proof
    assume "map g (bt_values m) = map g (bt_values m')"
    then have "map (\<lambda>(k, v). (k, g v)) m = map (\<lambda>(k, v). (k, g v)) m'"
      using e [OF wf(1) f(1)] e [OF wf(2) f(2)] by (metis (no_types, lifting))
    then show "\<forall>k. map_option g (bt_get m k) = map_option g (bt_get m' k)" by (metis o)
  next
    assume "\<forall>k. map_option g (bt_get m k) = map_option g (bt_get m' k)"
    then have "map (\<lambda>(k, v). (k, g v)) m = map (\<lambda>(k, v). (k, g v)) m'"
      by (intro bt_ext w wf ext) (simp add: o)
    then have "map snd (map (\<lambda>(k, v). (k, g v)) m) = map snd (map (\<lambda>(k, v). (k, g v)) m')" by (rule arg_cong)
    then show "map g (bt_values m) = map g (bt_values m')"
      by (simp add: bt_values_def case_prod_unfold comp_def)
  qed
qed

lemma length_bt_values [simp]: "length (bt_values m) = length m"
  by (simp add: bt_values_def)

lemma alert_map_wf: "bt_wf (alert_map r)"
  using fold_bt_insert_key [OF bt_wf_Nil, of alert_key "hr_alerts r"] by (simp add: alert_map_def)

lemma alert_map_get: "bt_get (alert_map r) k = alert_at r k"
  using fold_bt_insert_key [OF bt_wf_Nil, of alert_key "hr_alerts r" k]
  by (simp add: alert_map_def alert_at_def split: option.splits)

lemma success_map_wf: "bt_wf (success_map r)"
  using fold_bt_insert_key [OF bt_wf_Nil, of success_key "hr_successes r"] by (simp add: success_map_def)

lemma success_map_get:
  "bt_get (success_map r) k = find (\<lambda>s. success_key s = k) (rev (hr_successes r))"
  using fold_bt_insert_key [OF bt_wf_Nil, of success_key "hr_successes r" k]
  by (simp add: success_map_def split: option.splits)

lemma success_map_key: "bt_get (success_map r) k = Some s \<Longrightarrow> success_key s = k"
  by (auto simp: success_map_get dest: find_SomeD)

lemma success_map_keys:
  "map_option success_key (bt_get (success_map r) k) = (if k \<in> success_keys r then Some k else None)"
proof (cases "bt_get (success_map r) k")
  case None
  then show ?thesis by (auto simp: success_map_get find_None_iff success_keys_def)
next
  case (Some s)
  then show ?thesis
    using find_SomeD [OF Some [unfolded success_map_get]] by (auto simp: success_keys_def)
qed

lemma success_map_eq_iff:
  "map success_key (bt_values (success_map r)) = map success_key (bt_values (success_map r')) \<longleftrightarrow>
   success_keys r = success_keys r'"
  by (subst keyed_map_ext [where h = "\<lambda>k. k"])
    (auto simp: success_map_wf success_map_key success_map_keys simp del: split_paired_All split: if_splits)

lemma alert_map_eq_iff:
  fixes r r' :: "'t health_report"
  shows "map alert_content (bt_values (alert_map r)) = map alert_content (bt_values (alert_map r')) \<longleftrightarrow>
   (\<forall>k. map_option alert_content (alert_at r k) = map_option alert_content (alert_at r' k))"
  by (subst keyed_map_ext [where h = fst])
    (simp_all add: alert_map_wf alert_map_get alert_content_def alert_at_SomeD)

lemma alerts_delimited:
  fixes xs ys :: "'t health_probe_alert list"
  shows "length xs = length ys \<Longrightarrow> concat (map alert_hash xs) @ u = concat (map alert_hash ys) @ v \<Longrightarrow>
    map alert_content xs = map alert_content ys \<and> u = v"
  using concat_delimited [of alert_hash alert_content xs ys u v] alert_hash_delimited by blast

lemma successes_delimited:
  "length xs = length ys \<Longrightarrow> concat (map success_hash xs) @ u = concat (map success_hash ys) @ v \<Longrightarrow>
   map success_key xs = map success_key ys \<and> u = v"
  using concat_delimited [of success_hash success_key xs ys u v] success_hash_delimited by blast

lemma map_cong_via:
  assumes "map g xs = map g ys" and fg: "\<And>x y. g x = g y \<Longrightarrow> f x = f y"
  shows "map f xs = map f ys"
proof -
  have "length xs = length ys" using assms(1) by (rule map_eq_imp_length_eq)
  from this assms(1) show ?thesis by (induction xs ys rule: list_induct2) (auto intro: fg)
qed

lemma hash_eq_iff_maps:
  fixes r r' :: "'t health_report"
  shows "hash_without_timestamps r = hash_without_timestamps r' \<longleftrightarrow>
   map success_key (bt_values (success_map r)) = map success_key (bt_values (success_map r')) \<and>
   map alert_content (bt_values (alert_map r)) = map alert_content (bt_values (alert_map r'))"
  (is "?h \<longleftrightarrow> ?s \<and> ?a")
proof
  assume h: ?h
  from h have len: "length (bt_values (success_map r)) = length (bt_values (success_map r'))"
    and hs: "concat (map success_hash (bt_values (success_map r))) @
        WriteUsize (length (alert_map r)) # concat (map alert_hash (bt_values (alert_map r))) =
      concat (map success_hash (bt_values (success_map r'))) @
        WriteUsize (length (alert_map r')) # concat (map alert_hash (bt_values (alert_map r')))"
    by (simp_all add: hash_without_timestamps_def Let_def)
  from successes_delimited [OF len hs]
  have s: ?s and "length (bt_values (alert_map r)) = length (bt_values (alert_map r'))"
    and "concat (map alert_hash (bt_values (alert_map r))) @ [] = concat (map alert_hash (bt_values (alert_map r'))) @ []"
    by simp_all
  from s alerts_delimited [OF this(2,3)] show "?s \<and> ?a" by simp
next
  assume sa: "?s \<and> ?a"
  then have "length (success_map r) = length (success_map r')" "length (alert_map r) = length (alert_map r')"
    by (metis length_map length_bt_values)+
  moreover have "map success_hash (bt_values (success_map r)) = map success_hash (bt_values (success_map r'))"
    by (rule map_cong_via [OF conjunct1 [OF sa]]) (simp add: success_hash_def success_key_def)
  moreover have "map alert_hash (bt_values (alert_map r)) = map alert_hash (bt_values (alert_map r'))"
    using map_cong_via [OF conjunct2 [OF sa] alert_hash_cong] .
  ultimately show ?h by (simp add: hash_without_timestamps_def Let_def)
qed

section \<open>How long an alert has been raised\<close>

text \<open>A sequence of reports of one source, each updated from the one stored before it.\<close>

fun report_run :: "'t health_report option \<Rightarrow> ('t \<times> 't health_report) list \<Rightarrow> 't health_report option" where
  "report_run previous [] = previous"
| "report_run previous ((now, r) # rs) = report_run (Some (update_in_alert_since now r previous)) rs"

definition since_all :: "'t \<Rightarrow> probe_key \<Rightarrow> 't health_report \<Rightarrow> bool" where
  "since_all t k r \<longleftrightarrow> (\<forall>a \<in> set (hr_alerts r). alert_key a = k \<longrightarrow> al_in_alert_since a = Some t)"

lemma update_keys: "map alert_key (hr_alerts (update_in_alert_since now r p)) = map alert_key (hr_alerts r)"
  by (simp add: update_in_alert_since_def Let_def alert_key_def)

lemma update_alert_keys: "alert_keys (update_in_alert_since now r p) = alert_keys r"
  using update_keys [of now r p] unfolding alert_keys_def set_map [symmetric] by simp

lemma update_since_all:
  "since_all (case previous_in_alert_times p k of Some t \<Rightarrow> t | None \<Rightarrow> now) k (update_in_alert_since now r p)"
  by (auto simp: since_all_def update_in_alert_since_def Let_def alert_key_def)

lemma previous_times_since_all:
  assumes "since_all t k r" "k \<in> alert_keys r"
  shows "previous_in_alert_times (Some r) k = Some t"
proof -
  let ?f = "\<lambda>a m. case al_in_alert_since a of None \<Rightarrow> m | Some t \<Rightarrow> m(alert_key a \<mapsto> t)"
  have "(\<forall>a \<in> set as. alert_key a = k \<longrightarrow> al_in_alert_since a = Some t) \<Longrightarrow>
      fold ?f as m k = (if k \<in> alert_key ` set as then Some t else m k)" for as m
    by (induction as arbitrary: m) (auto split: option.splits)
  with assms show ?thesis
    by (simp add: previous_in_alert_times_def since_all_def alert_keys_def)
qed

lemma report_run_since:
  "since_all t k r \<Longrightarrow> k \<in> alert_keys r \<Longrightarrow> \<forall>x \<in> set rs. k \<in> alert_keys (snd x) \<Longrightarrow>
   \<exists>q. report_run (Some r) rs = Some q \<and> k \<in> alert_keys q \<and> since_all t k q"
proof (induction rs arbitrary: r)
  case (Cons x rs)
  obtain now q where x: "x = (now, q)" by fastforce
  have "since_all t k (update_in_alert_since now q (Some r))"
    using update_since_all [of now "Some r" k q] previous_times_since_all [OF Cons.prems(1,2)] by simp
  with Cons x show ?case by (simp add: update_alert_keys)
qed simp

section \<open>Properties\<close>

text \<open>
  C11: \<open>HealthReport::merge\<close> on every pair of reports, also ones with repeated probes: the result
  lists each (id, target) once and in order, as an alert or as a success but never both; an alert
  of either side survives and wins over a success; and the alert of a key is the one of the
  current report merged with those of the other report in their order.
\<close>

theorem report_merge_spec:
  "report_wf (report_merge r other) \<and>
   alert_keys (report_merge r other) = alert_keys r \<union> alert_keys other \<and>
   success_keys (report_merge r other) = (success_keys r \<union> success_keys other) - (alert_keys r \<union> alert_keys other) \<and>
   alert_at (report_merge r other) k = merge_chain (alert_at r k) (filter (\<lambda>a. alert_key a = k) (hr_alerts other))"
  by (auto simp: merge_wf merge_alert_keys merge_success_keys merge_alert_at)

text \<open>
  No classification is lost or invented by \<open>merge\<close>: the merged report carries exactly the
  classifications of the two reports, provided the current report does not repeat a probe.
\<close>

lemma report_merge_classifications:
  "distinct (map alert_key (hr_alerts r)) \<Longrightarrow>
   has_classification (report_merge r other) c \<longleftrightarrow> has_classification r c \<or> has_classification other c"
  by (simp add: has_classification_iff merge_classifications_union)

lemma report_merge_classifications_witness:
  "has_classification (report_merge (quarantine_report (1 :: nat) ''q'') (report_sku_missing 2 ''s''))
     prevent_allocations"
  using report_merge_classifications [of "quarantine_report (1 :: nat) ''q''" "report_sku_missing 2 ''s''" prevent_allocations]
  by (simp add: quarantine_report_def has_classification_def find_alert_by_classification_def)

text \<open>
  C31: merging is associative on reports that do not repeat a probe, so the aggregate of several
  reports does not depend on how the merges are grouped: messages, classifications, timestamps
  and the sources agree.
\<close>

theorem report_merge_assoc:
  assumes "distinct (map alert_key (hr_alerts b))" "distinct (map alert_key (hr_alerts c))"
  shows "report_merge (report_merge a b) c = report_merge a (report_merge b c)"
proof (rule report_ext)
  fix k
  let ?f = "\<lambda>r. filter (\<lambda>x. alert_key x = k) (hr_alerts r)"
  have f: "?f r = (case alert_at r k of None \<Rightarrow> [] | Some x \<Rightarrow> [x])" if "distinct (map alert_key (hr_alerts r))"
    for r :: "'a health_report"
    using filter_key_distinct [OF that, of k] by (simp only: alert_at_def)
  have "merge_chain None (?f b) = alert_at b k"
    by (simp add: f [OF assms(1)] split: option.split)
  then have "?f (report_merge b c) = (case merge_chain (merge_chain None (?f b)) (?f c) of None \<Rightarrow> [] | Some u \<Rightarrow> [u])"
    by (simp only: f [OF merge_distinct] merge_alert_at)
  then show "alert_at (report_merge (report_merge a b) c) k = alert_at (report_merge a (report_merge b c)) k"
    unfolding merge_alert_at merge_chain_assoc [of "alert_at a k"] by (rule arg_cong [OF sym])
next
  show "success_keys (report_merge (report_merge a b) c) = success_keys (report_merge a (report_merge b c))"
    unfolding merge_success_keys merge_alert_keys by blast
qed (simp_all only: merge_wf report_merge_sel(1-3) min_time_assoc)

theorem report_merge_assoc_witness:
  "report_merge (report_merge (report_empty (3 :: nat) ''a'') (quarantine_report 1 ''q'')) (report_sku_missing 2 ''s'') =
   report_merge (report_empty 3 ''a'') (report_merge (quarantine_report 1 ''q'') (report_sku_missing 2 ''s''))"
  by (rule report_merge_assoc) (simp_all add: quarantine_report_def report_sku_missing_def)

text \<open>
  \<open>hash_without_timestamps\<close> feeds the hasher the same writes for two reports iff they have the
  same successes and, probe by probe, alerts with the same messages and the same set of
  classifications. Timestamps, the order of the lists and the source do not count; nothing else
  is ignored.
\<close>

lemma hash_without_timestamps_iff:
  fixes r r' :: "'t health_report"
  shows "hash_without_timestamps r = hash_without_timestamps r' \<longleftrightarrow>
    success_keys r = success_keys r' \<and>
    (\<forall>k. map_option alert_content (alert_at r k) = map_option alert_content (alert_at r' k))"
  by (simp only: hash_eq_iff_maps success_map_eq_iff alert_map_eq_iff)

text \<open>
  An alert that a source keeps reporting keeps the time of the first report: over any
  sequence of reports that all mention the probe, each updated by \<open>update_in_alert_since\<close> from the
  report before it, the stored timestamp is the clock at the first of them.
\<close>

lemma in_alert_since_is_first_report:
  assumes "previous_in_alert_times previous k = None" "k \<in> alert_keys r"
    "\<forall>x \<in> set rs. k \<in> alert_keys (snd x)"
  shows "\<exists>q. report_run previous ((now, r) # rs) = Some q \<and> k \<in> alert_keys q \<and>
    (\<forall>a \<in> set (hr_alerts q). alert_key a = k \<longrightarrow> al_in_alert_since a = Some now)"
  using report_run_since [of now k "update_in_alert_since now r previous" rs] assms
    update_since_all [of now previous k r]
  by (simp add: update_alert_keys since_all_def)

lemma in_alert_since_is_first_report_witness:
  "\<exists>q. report_run None [(5 :: nat, quarantine_report 5 ''a''), (9, quarantine_report 9 ''b'')] = Some q \<and>
    (\<forall>a \<in> set (hr_alerts q). alert_key a = (''Quarantine'', None) \<longrightarrow> al_in_alert_since a = Some 5)"
  using in_alert_since_is_first_report [of None "(''Quarantine'', None)" "quarantine_report 5 ''a''"
      "[(9, quarantine_report 9 ''b'')]" 5]
  by (auto simp: previous_in_alert_times_def alert_keys_def quarantine_report_def alert_key_def)

end
