(* ===== verification/Config_Version.thy ===== *)
theory Config_Version
  imports Prelude
begin

text \<open>
  Configuration versions (\<open>crates/config-version/src/lib.rs\<close>): the version number and
  timestamp that every managed object carries, its database text format, and the
  increment used by the compare-and-swap writes of the state controllers.

  The time type belongs to the \<open>chrono\<close> package, so it is a type variable; the record
  \<open>chrono\<close> holds the two of its functions the code calls. What the code relies on is the
  locale \<open>chrono_laws\<close>.
\<close>

section \<open>The chrono interface\<close>

record 'dt chrono =
  timestamp_micros :: "'dt \<Rightarrow> int"
  from_timestamp :: "int \<Rightarrow> nat \<Rightarrow> 'dt option"

text \<open>
  The documentation of \<open>DateTime::timestamp_micros\<close> and \<open>DateTime::from_timestamp\<close>: the
  first returns the microseconds since the epoch as an \<open>i64\<close>; the second returns the
  instant with that many seconds and nanoseconds since the epoch.
\<close>

locale chrono_laws =
  fixes C :: "'dt chrono"
  assumes micros_of_timestamp:
      "from_timestamp C s ns = Some d \<Longrightarrow> ns < 1000000000 \<Longrightarrow>
       timestamp_micros C d = s * 1000000 + int (ns div 1000)"
    and micros_i64: "- (2 ^ 63) \<le> timestamp_micros C d" "timestamp_micros C d < 2 ^ 63"

section \<open>Versions\<close>

record 'dt config_version =
  version_nr :: u64
  timestamp :: "'dt"

record 'dt config_version_change =
  current :: "'dt config_version"
  new_version :: "'dt config_version"

record ('a, 'dt) versioned =
  value_of :: 'a
  version :: "'dt config_version"

datatype config_version_parse_error = VersionFormat string | DateTimeError int nat

text \<open>
  \<open>now\<close>: the nanoseconds since the epoch, cut down to whole microseconds. A \<open>None\<close> of
  \<open>DateTime::from_timestamp\<close> is the panic of \<open>expect\<close>.
\<close>

definition config_now :: "'dt chrono \<Rightarrow> nat \<Rightarrow> 'dt option" where
  "config_now C nanos =
     (let n = nanos - nanos mod 1000
      in from_timestamp C (as_i64 (n div 1000000000)) (n mod 1000000000))"

definition tzero :: "'dt chrono \<Rightarrow> 'dt option" where
  "tzero C = config_now C 0"

definition initial :: "'dt chrono \<Rightarrow> nat \<Rightarrow> 'dt config_version option" where
  "initial C nanos = map_option (\<lambda>t. \<lparr>version_nr = 1, timestamp = t\<rparr>) (config_now C nanos)"

definition new_config_version :: "'dt chrono \<Rightarrow> u64 \<Rightarrow> nat \<Rightarrow> 'dt config_version option" where
  "new_config_version C nr nanos = map_option (\<lambda>t. \<lparr>version_nr = nr, timestamp = t\<rparr>) (config_now C nanos)"

definition invalid :: "'dt chrono \<Rightarrow> 'dt config_version option" where
  "invalid C = map_option (\<lambda>t. \<lparr>version_nr = 0, timestamp = t\<rparr>) (tzero C)"

text \<open>\<open>increment\<close>: wrapping addition, with the number 0 replaced by 1.\<close>

definition next_nr :: "u64 \<Rightarrow> u64" where
  "next_nr nr = (let n = nr + 1 in or n (if n = 0 then 1 else 0))"

definition increment :: "'dt chrono \<Rightarrow> nat \<Rightarrow> 'dt config_version \<Rightarrow> 'dt config_version option" where
  "increment C nanos v =
     map_option (\<lambda>t. \<lparr>version_nr = next_nr (version_nr v), timestamp = t\<rparr>) (config_now C nanos)"

text \<open>
  \<open>incremental_change\<close>: checked addition (it panics at the largest number) and the clock
  \<open>utc_now\<close> as \<open>Utc::now()\<close> gives it, at its full precision.
\<close>

definition incremental_change ::
    "'dt \<Rightarrow> 'dt config_version \<Rightarrow> 'dt config_version_change option" where
  "incremental_change utc_now v =
     (if version_nr v = - 1 then None
      else Some \<lparr>current = v,
             new_version = \<lparr>version_nr = version_nr v + 1, timestamp = utc_now\<rparr>\<rparr>)"

definition version_string :: "'dt chrono \<Rightarrow> 'dt config_version \<Rightarrow> string" where
  "version_string C v =
     ''V'' @ show_nat (unat (version_nr v)) @ ''-T'' @ show_int (timestamp_micros C (timestamp v))"

definition min_by_timestamp ::
    "('dt::linorder) config_version \<Rightarrow> 'dt config_version \<Rightarrow> 'dt config_version" where
  "min_by_timestamp a b =
     (if timestamp a < timestamp b then a
      else if timestamp a = timestamp b then
        (if version_nr a < version_nr b then a
         else if version_nr a = version_nr b then a else b)
      else b)"

text \<open>\<open>FromStr::from_str\<close>, with its checks in the order of the code.\<close>

definition u64_max :: nat where
  "u64_max = 2 ^ 64 - 1"

fun from_parts :: "'dt chrono \<Rightarrow> string \<Rightarrow> string list
    \<Rightarrow> config_version_parse_error + 'dt config_version" where
  "from_parts C s [nr_str, ts_str] =
     (if nr_str = [] \<or> hd nr_str \<noteq> CHR ''V'' \<or> ts_str = [] \<or> hd ts_str \<noteq> CHR ''T''
      then Inl (VersionFormat s)
      else (case parse_uint u64_max (tl nr_str) of
        None \<Rightarrow> Inl (VersionFormat s)
      | Some nr \<Rightarrow> (case parse_uint u64_max (tl ts_str) of
          None \<Rightarrow> Inl (VersionFormat s)
        | Some t \<Rightarrow>
            (let secs = t div 1000000; usecs = t mod 1000000
             in case from_timestamp C (as_i64 secs) (usecs * 1000) of
               None \<Rightarrow> Inl (DateTimeError (as_i64 secs) (usecs * 1000))
             | Some dt \<Rightarrow> Inr \<lparr>version_nr = word_of_nat nr, timestamp = dt\<rparr>))))"
| "from_parts C s _ = Inl (VersionFormat s)"

definition from_str :: "'dt chrono \<Rightarrow> string \<Rightarrow> config_version_parse_error + 'dt config_version" where
  "from_str C s = from_parts C s (split_on (CHR ''-'') (trim s))"

text \<open>\<open>format_duration\<close> on the whole seconds of the time difference.\<close>

definition plural :: "int \<Rightarrow> string \<Rightarrow> string" where
  "plural val period = (if val = 1 then show_int val @ '' '' @ period
                        else show_int val @ '' '' @ period @ ''s'')"

definition format_parts :: "int \<Rightarrow> string list" where
  "format_parts seconds =
     (let days = quot seconds 86400;
          hours = quot (rmd seconds 86400) 3600;
          minutes = quot (rmd seconds 3600) 60;
          secs = rmd seconds 60;
          parts = (if days > 0 then [plural days ''day''] else [])
                @ (if hours > 0 then [plural hours ''hour''] else [])
                @ (if minutes > 0 then [plural minutes ''minute''] else [])
      in if parts = [] then [plural secs ''second''] else parts)"

definition format_duration :: "int \<Rightarrow> string" where
  "format_duration seconds =
     (case format_parts seconds of
        [] \<Rightarrow> ''0 seconds''
      | [p] \<Rightarrow> p
      | ps \<Rightarrow> join '', '' (butlast ps) @ '' and '' @ last ps)"

definition since_state_change_humanized ::
    "'dt chrono \<Rightarrow> ('dt \<Rightarrow> int) \<Rightarrow> string \<Rightarrow> string" where
  "since_state_change_humanized C secs_since ver =
     (case from_str C ver of
        Inl _ \<Rightarrow> ''state version parse error''
      | Inr v \<Rightarrow> format_duration (secs_since (timestamp v)))"

section \<open>Lemmas\<close>

lemma next_nr_alt: "next_nr nr = (if nr = - 1 then 1 else nr + 1)"
proof (cases "nr = - 1")
  case True
  then show ?thesis by (simp add: next_nr_def)
next
  case False
  then have "nr + 1 \<noteq> 0"
    by (metis add_eq_0_iff add.commute)
  with False show ?thesis by (simp add: next_nr_def Let_def)
qed

lemma next_nr_nonzero: "next_nr nr \<noteq> 0"
  by (metis next_nr_alt add_eq_0_iff add.commute zero_neq_one)

lemma unat_next_nr: "nr \<noteq> - 1 \<Longrightarrow> unat (next_nr nr) = Suc (unat nr)"
  by (metis next_nr_alt unatSuc add.commute add_eq_0_iff)

lemma next_nr_neq: "next_nr nr \<noteq> nr"
proof (cases "nr = - 1")
  case True
  then show ?thesis by (simp add: next_nr_alt)
next
  case False
  then show ?thesis using unat_next_nr by fastforce
qed

lemma version_string_split:
  assumes "0 \<le> timestamp_micros C (timestamp v)"
  shows "split_on (CHR ''-'') (trim (version_string C v)) =
    [CHR ''V'' # show_nat (unat (version_nr v)),
     CHR ''T'' # show_nat (nat (timestamp_micros C (timestamp v)))]"
proof -
  let ?a = "CHR ''V'' # show_nat (unat (version_nr v))"
  let ?b = "CHR ''T'' # show_nat (nat (timestamp_micros C (timestamp v)))"
  have eq: "version_string C v = ?a @ CHR ''-'' # ?b"
    using assms by (simp add: version_string_def show_int_def)
  have "\<not> is_whitespace (hd (version_string C v))"
    by (simp add: eq is_whitespace_def)
  moreover have "last (version_string C v) = last (show_nat (nat (timestamp_micros C (timestamp v))))"
    by (simp add: eq)
  then have "\<not> is_whitespace (last (version_string C v))"
    by (simp add: is_digit_not_ws)
  ultimately have "trim (version_string C v) = ?a @ CHR ''-'' # ?b"
    using trim_id [of "version_string C v"] by (simp add: eq)
  then show ?thesis by (simp add: str_simps)
qed

text \<open>A timestamp before 1970 prints with a second minus sign and is not read back.\<close>

lemma version_string_negative:
  assumes "timestamp_micros C (timestamp v) < 0"
  shows "from_str C (version_string C v) = Inl (VersionFormat (version_string C v))"
proof -
  let ?n = "show_nat (nat (- timestamp_micros C (timestamp v)))"
  have eq: "version_string C v =
      (CHR ''V'' # show_nat (unat (version_nr v))) @ CHR ''-'' # ''T'' @ CHR ''-'' # ?n"
    using assms by (simp add: version_string_def show_int_def)
  have "last (version_string C v) = last ?n"
    by (simp add: eq)
  then have "trim (version_string C v) = version_string C v"
    using trim_id [of "version_string C v"]
    by (simp add: eq is_digit_not_ws) (simp add: is_whitespace_def)
  then have "split_on (CHR ''-'') (trim (version_string C v)) =
      [CHR ''V'' # show_nat (unat (version_nr v)), ''T'', ?n]"
    using split_on_app [of "CHR ''-''" "CHR ''V'' # show_nat (unat (version_nr v))"]
      split_on_app [of "CHR ''-''" "''T''"]
    by (simp add: eq split_on_none)
  then show ?thesis by (simp add: from_str_def)
qed

lemma secs_of_nanos: "n div 1000000000 = n div 1000 div (1000000::nat)"
  by (simp add: div_mult2_eq [symmetric])

lemma cut_to_micros:
  fixes n :: nat
  shows "(n - n mod 1000) div 1000000000 = n div 1000 div 1000000"
    and "(n - n mod 1000) mod 1000000000 = n div 1000 mod 1000000 * 1000"
proof -
  have e: "n - n mod 1000 = 1000 * (n div 1000)"
    by (simp add: minus_mod_eq_mult_div)
  have b: "(1000000000::nat) = 1000 * 1000000" by simp
  show "(n - n mod 1000) div 1000000000 = n div 1000 div 1000000"
    by (simp only: e b div_mult_mult1 [of 1000] zero_neq_numeral [symmetric] not_False_eq_True)
  show "(n - n mod 1000) mod 1000000000 = n div 1000 mod 1000000 * 1000"
    by (simp only: e b mult_mod_right [symmetric] mult.commute)
qed

context chrono_laws
begin

text \<open>The clock reading of \<open>now\<close> is a whole number of microseconds, rounded down.\<close>

lemma from_micros_now:
  assumes "config_now C nanos = Some d" "nanos div 1000000000 < 2 ^ 63"
  shows "from_timestamp C (int (nanos div 1000 div 1000000)) (nanos div 1000 mod 1000000 * 1000) = Some d"
proof -
  have "nanos div 1000 div 1000000 < 2 ^ 63"
    using assms(2) by (simp only: secs_of_nanos)
  then show ?thesis
    using assms(1) by (simp only: config_now_def Let_def cut_to_micros as_i64_small)
qed

lemma micros_now:
  assumes "config_now C nanos = Some d" "nanos div 1000000000 < 2 ^ 63"
  shows "timestamp_micros C d = int (nanos div 1000)"
proof -
  let ?q = "nanos div 1000"
  have "?q mod 1000000 < 1000000" by simp
  then have "?q mod 1000000 * 1000 < 1000000000" by linarith
  then have "timestamp_micros C d = int (?q div 1000000) * 1000000 + int (?q mod 1000000 * 1000 div 1000)"
    using from_micros_now [OF assms] by (intro micros_of_timestamp)
  also have "\<dots> = int (?q div 1000000 * 1000000 + ?q mod 1000000)"
    by (simp only: of_nat_add of_nat_mult of_nat_numeral nonzero_mult_div_cancel_right)
  finally show ?thesis by (simp only: div_mult_mod_eq)
qed

lemma version_roundtrip:
  assumes "config_now C nanos = Some d" "nanos div 1000000000 < 2 ^ 63"
  shows "from_str C (version_string C \<lparr>version_nr = nr, timestamp = d\<rparr>) =
    Inr \<lparr>version_nr = nr, timestamp = d\<rparr>"
proof -
  have m: "timestamp_micros C d = int (nanos div 1000)"
    using assms by (rule micros_now)
  have "int (nanos div 1000) < 2 ^ 63"
    using micros_i64(2) [of d] by (simp only: m)
  then have b: "nanos div 1000 < 2 ^ 63"
    by (metis of_nat_less_iff of_nat_numeral of_nat_power)
  have p1: "parse_uint u64_max (show_nat (unat nr)) = Some (unat nr)"
    using unsigned_less [of nr, where 'a = nat] by (intro parse_uint_show) (simp add: u64_max_def)
  have p2: "parse_uint u64_max (show_nat (nanos div 1000)) = Some (nanos div 1000)"
    using b by (intro parse_uint_show) (simp add: u64_max_def)
  have c: "nanos div 1000 div 1000000 < 2 ^ 63"
    using assms(2) by (simp only: secs_of_nanos)
  have f: "from_timestamp C (int (nanos div 1000 div 1000000))
      (nanos div 1000 mod 1000000 * 1000) = Some d"
    using assms by (rule from_micros_now)
  show ?thesis
    using p1 p2 as_i64_small [OF c] f
    by (simp add: from_str_def version_string_split m Let_def)
qed

end


section \<open>A reference instance of the chrono interface\<close>

text \<open>
  Instants as signed 64-bit microseconds and the nanoseconds below them. It satisfies the
  documented laws, so the properties stated over them are not vacuous.
\<close>

definition chrono_ref :: "(64 word \<times> nat) chrono" where
  "chrono_ref = \<lparr>timestamp_micros = (\<lambda>(m, _). sint m),
     from_timestamp = (\<lambda>s ns. let m = s * 1000000 + int (ns div 1000)
       in if - (2 ^ 63) \<le> m \<and> m < 2 ^ 63 then Some (word_of_int m, ns mod 1000) else None)\<rparr>"

lemma sint_word64: "- (2 ^ 63) \<le> m \<Longrightarrow> m < 2 ^ 63 \<Longrightarrow> sint (word_of_int m :: 64 word) = m"
  by (simp add: signed_of_int signed_take_bit_int_eq_self)

interpretation cref: chrono_laws chrono_ref
proof unfold_locales
  fix s ns d
  let ?m = "s * 1000000 + int (ns div 1000)"
  assume "from_timestamp chrono_ref s ns = Some d"
  then have "- (2 ^ 63) \<le> ?m \<and> ?m < 2 ^ 63 \<and> d = (word_of_int ?m, ns mod 1000)"
    by (auto simp: chrono_ref_def Let_def split: if_splits)
  then show "timestamp_micros chrono_ref d = ?m"
    by (simp only: chrono_ref_def chrono.simps split_conv sint_word64)
next
  fix d :: "64 word \<times> nat"
  show "- (2 ^ 63) \<le> timestamp_micros chrono_ref d"
    using sint_greater_eq [of "fst d"] by (simp add: chrono_ref_def split_beta)
  show "timestamp_micros chrono_ref d < 2 ^ 63"
    using sint_less [of "fst d"] by (simp add: chrono_ref_def split_beta)
qed

section \<open>Properties\<close>

text \<open>C28: the database text of a version stamped by the module's own clock reads back as that
  very version, number and timestamp, for every number and every clock reading.\<close>

theorem version_string_roundtrip:
  assumes "chrono_laws C" and "config_now C nanos = Some d" and "nanos div 1000000000 < 2 ^ 63"
  shows "from_str C (version_string C \<lparr>version_nr = nr, timestamp = d\<rparr>) =
    Inr \<lparr>version_nr = nr, timestamp = d\<rparr>"
  using assms by (rule chrono_laws.version_roundtrip)

theorem version_string_roundtrip_witness:
  "from_str chrono_ref (version_string chrono_ref \<lparr>version_nr = 7, timestamp = (5000002, 0)\<rparr>) =
     Inr \<lparr>version_nr = 7, timestamp = (5000002, 0)\<rparr>"
proof -
  have "config_now chrono_ref 5000002345 = Some (5000002, 0)"
    by (simp add: config_now_def chrono_ref_def as_i64_def Let_def)
  from version_string_roundtrip [OF cref.chrono_laws_axioms this] show ?thesis by simp
qed

text \<open>C29: incrementing gives a version number that is never 0 and never the old number: the
  successor, or 1 after the largest number.\<close>

theorem increment_nr:
  assumes "increment C nanos v = Some v'"
  shows "version_nr v' \<noteq> 0 \<and> version_nr v' \<noteq> version_nr v \<and>
    (if version_nr v = - 1 then version_nr v' = 1
     else unat (version_nr v') = Suc (unat (version_nr v)))"
  using assms by (auto simp: increment_def next_nr_nonzero next_nr_neq unat_next_nr)
    (simp add: next_nr_alt)

theorem increment_nr_witness:
  "version_nr (the (increment chrono_ref 0 \<lparr>version_nr = - 1, timestamp = (0, 0)\<rparr>)) = 1"
proof -
  let ?v = "\<lparr>version_nr = - 1, timestamp = (0 :: 64 word, 0 :: nat)\<rparr>"
  have "increment chrono_ref 0 ?v = Some \<lparr>version_nr = 1, timestamp = (0, 0)\<rparr>"
    by (simp add: increment_def config_now_def chrono_ref_def as_i64_def Let_def next_nr_alt)
  from this increment_nr [OF this] show ?thesis by simp
qed

text \<open>A version built by \<open>incremental_change\<close> keeps the clock's nanoseconds, which the
  database text does not: it reads back as a different version.\<close>

lemma incremental_change_loses_precision:
  "\<exists>ch v. incremental_change (5, 1) \<lparr>version_nr = 1, timestamp = (0, 0)\<rparr> = Some ch \<and>
     from_str chrono_ref (version_string chrono_ref (new_version ch)) = Inr v \<and>
     v \<noteq> new_version ch"
proof -
  let ?ch = "\<lparr>current = \<lparr>version_nr = 1, timestamp = (0, 0)\<rparr>,
    new_version = \<lparr>version_nr = 2, timestamp = (5 :: 64 word, 1 :: nat)\<rparr>\<rparr>"
  let ?v = "\<lparr>version_nr = 2, timestamp = (5 :: 64 word, 0 :: nat)\<rparr>"
  have "version_string chrono_ref (new_version ?ch) = version_string chrono_ref ?v"
    by (simp add: version_string_def chrono_ref_def)
  moreover have "config_now chrono_ref 5000 = Some (5, 0)"
    by (simp add: config_now_def chrono_ref_def as_i64_def Let_def)
  then have "from_str chrono_ref (version_string chrono_ref ?v) = Inr ?v"
    by (rule cref.version_roundtrip) simp
  ultimately have "from_str chrono_ref (version_string chrono_ref (new_version ?ch)) = Inr ?v"
    by simp
  moreover have "incremental_change (5, 1) \<lparr>version_nr = 1, timestamp = (0, 0)\<rparr> = Some ?ch"
    by (simp add: incremental_change_def)
  ultimately show ?thesis
    by (intro exI [of _ ?ch] exI [of _ ?v] conjI) simp_all
qed

end
