(* ===== verification/Host_Health.thy ===== *)
theory Host_Health
  imports Health_Report Config_Version "HOL-Library.Sublist"
begin

text \<open>
  The health of a managed host: the health report sources of \<open>crates/api-model/src/health.rs\<close> and
  \<open>machine/health_override.rs\<close>, the aggregate that \<open>derive_aggregate_health\<close> computes from the
  reports of the host, its DPUs and its rack, and the allocation check \<open>is_usable_as_instance\<close>
  (\<open>machine/mod.rs\<close>). Instants and durations are integers (nanoseconds). The RFC 3339 text of an
  instant and the version of the build are parameters.
\<close>

section \<open>Health report sources\<close>

type_synonym report = "int health_report"

record health_report_sources =
  hs_replace :: "report option"
  hs_merges :: "(string, report) btree_map"

definition repair_merge_active :: "health_report_sources \<Rightarrow> bool" where
  "repair_merge_active h =
     (bt_contains_key (hs_merges h) REPAIR_REQUEST_MERGE_SOURCE \<or>
      bt_contains_key (hs_merges h) REQUEST_ONLINE_REPAIR_MERGE_SOURCE)"

definition by_source :: "health_report_sources \<Rightarrow> string \<Rightarrow> report option" where
  "by_source h source =
     (case (case hs_replace h of Some r \<Rightarrow> if hr_source r = source then Some r else None | None \<Rightarrow> None) of
        Some r \<Rightarrow> Some r
      | None \<Rightarrow> bt_get (hs_merges h) source)"

definition sources_iter :: "health_report_sources \<Rightarrow> (report \<times> health_report_apply_mode) list" where
  "sources_iter h = map (\<lambda>r. (r, Merge)) (bt_values (hs_merges h)) @
     (case hs_replace h of Some r \<Rightarrow> [(r, Replace)] | None \<Rightarrow> [])"

record maintenance_override =
  mo_reference :: string
  mo_start_time :: "int option"

definition sources_maintenance_override :: "health_report_sources \<Rightarrow> maintenance_override option" where
  "sources_maintenance_override h =
     Option.bind (bt_get (hs_merges h) ''maintenance'') (\<lambda>ovr.
       Option.bind (find (\<lambda>alert. al_id alert = ''Maintenance'') (hr_alerts ovr)) (\<lambda>alert.
         Some \<lparr>mo_reference = al_message alert, mo_start_time = al_in_alert_since alert\<rparr>))"

definition HARDWARE_HEALTH_OVERRIDE_PREFIX :: string where
  "HARDWARE_HEALTH_OVERRIDE_PREFIX = ''hardware-health.''"

definition is_hardware_health_override_source :: "string \<Rightarrow> bool" where
  "is_hardware_health_override_source source = prefix HARDWARE_HEALTH_OVERRIDE_PREFIX source"

text \<open>
  The aggregates of racks, switches and power shelves: the three functions of \<open>rack.rs\<close>,
  \<open>switch/mod.rs\<close> and \<open>power_shelf/mod.rs\<close>, which differ in the name of the report.
\<close>

definition derive_sources_aggregate_health :: "string \<Rightarrow> int \<Rightarrow> health_report_sources \<Rightarrow> report" where
  "derive_sources_aggregate_health name now sources =
     (case hs_replace sources of
        Some replace \<Rightarrow> replace
      | None \<Rightarrow>
          (let output = report_empty now name;
               output = fold (\<lambda>report output. report_merge output report) (bt_values (hs_merges sources)) output
           in output\<lparr>hr_observed_at := Some now\<rparr>))"

definition derive_rack_aggregate_health :: "int \<Rightarrow> health_report_sources \<Rightarrow> report" where
  "derive_rack_aggregate_health = derive_sources_aggregate_health ''rack-aggregate-health''"

definition derive_switch_aggregate_health :: "int \<Rightarrow> health_report_sources \<Rightarrow> report" where
  "derive_switch_aggregate_health = derive_sources_aggregate_health ''switch-aggregate-health''"

definition derive_power_shelf_aggregate_health :: "int \<Rightarrow> health_report_sources \<Rightarrow> report" where
  "derive_power_shelf_aggregate_health = derive_sources_aggregate_health ''power-shelf-aggregate-health''"

section \<open>Managed hosts\<close>

text \<open>The payloads of the states are not inspected here; \<open>'p\<close> stands for them.\<close>

datatype 'p managed_host_state =
    DpuDiscoveringState 'p | DPUInit 'p | HostInit 'p | Validation 'p | Ready | Decommissioning 'p
  | Reset 'p | BootConfiguring 'p | Maintenance 'p | Assigned 'p | WaitingForCleanup 'p | ForceDeletion
  | Created | ConfigureAstra 'p | Failed 'p | DPUReprovision 'p | HostReprovision 'p | RotatingBmc 'p
  | RotatingHostUefi 'p | RotatingDpuUefi 'p | RotatingNicLockdown | Measuring 'p
  | PostAssignedMeasuring 'p | PreAssignedMeasuring 'p | StartAssignmentCycle | BomValidating 'p

fun suppress_dpu_alerts :: "'p managed_host_state \<Rightarrow> bool" where
  "suppress_dpu_alerts (DpuDiscoveringState _) = True"
| "suppress_dpu_alerts (DPUInit _) = True"
| "suppress_dpu_alerts (DPUReprovision _) = True"
| "suppress_dpu_alerts _ = False"

datatype hardware_health_reports_config = Disabled | MonitorOnly | Enabled

record host_health_config =
  hc_hardware_health_reports :: hardware_health_reports_config
  hc_dpu_agent_version_staleness_threshold :: int
  hc_prevent_allocations_on_stale_dpu_agent_version :: bool

record network_status_observation =
  no_machine_id :: string
  no_agent_version :: "string option"
  no_agent_version_superseded_at :: "int option"

text \<open>
  The fields of \<open>Machine\<close> that these functions read. \<open>ma_attached_dpus\<close> holds
  \<open>attached_dpu_machine_id\<close> of each interface, and the two versions are those of
  \<open>desired_boot_interface\<close> and \<open>boot_interface_status_observation\<close>.
\<close>

record 'dt machine =
  ma_is_dpu :: bool
  ma_health_reports :: health_report_sources
  ma_network_status_observation :: "network_status_observation option"
  ma_maintenance_requested :: "unit option"
  ma_desired_boot_version :: "'dt config_version option"
  ma_observed_boot_version :: "'dt config_version option"
  ma_attached_dpus :: "string option list"

record ('dt, 'p) managed_host =
  mh_host :: "'dt machine"
  mh_dpus :: "'dt machine list"
  mh_instance :: "unit option"
  mh_managed_state :: "'p managed_host_state"
  mh_aggregate_health :: report
  mh_rack_health_overrides :: "health_report_sources option"

datatype 'p not_allocatable_reason =
    InvalidState "'p managed_host_state" | PendingInstanceCreation | PendingBootConfiguration
  | NoDpuSnapshots | MaintenanceMode | HealthAlert "int health_probe_alert"

definition dpu_agent_health_report :: "'dt machine \<Rightarrow> report option" where
  "dpu_agent_health_report m = bt_get (hs_merges (ma_health_reports m)) DPU_AGENT_SOURCE"

definition pending_boot_interface_config_version :: "'dt machine \<Rightarrow> 'dt config_version option" where
  "pending_boot_interface_config_version m =
     (case ma_desired_boot_version m of
        None \<Rightarrow> None
      | Some desired_version \<Rightarrow>
          if Some desired_version \<noteq> ma_observed_boot_version m then Some desired_version else None)"

definition associated_dpu_machine_ids :: "'dt machine \<Rightarrow> string list" where
  "associated_dpu_machine_ids m =
     (if ma_is_dpu m then [] else List.map_filter (\<lambda>i. i) (ma_attached_dpus m))"

definition expired_version_health_report ::
    "(int \<Rightarrow> string) \<Rightarrow> string \<Rightarrow> int \<Rightarrow> network_status_observation \<Rightarrow> int \<Rightarrow> bool \<Rightarrow> report option" where
  "expired_version_health_report rfc3339 build_version now obs staleness_threshold prevent =
     (case no_agent_version obs of
        None \<Rightarrow> Some (report_stale_agent_version now ''forge-dpu-agent'' (no_machine_id obs)
                  ''Agent version is not known'' prevent)
      | Some agent_version \<Rightarrow>
          if agent_version = build_version then None
          else (case no_agent_version_superseded_at obs of
              Some superseded_at \<Rightarrow>
                (let staleness = now - superseded_at
                 in if staleness > staleness_threshold
                    then Some (report_stale_agent_version now ''forge-dpu-agent'' (no_machine_id obs)
                      (''Agent version is '' @ agent_version @ '', which is out of date since '' @ rfc3339 superseded_at)
                      prevent)
                    else None)
            | None \<Rightarrow> None))"

definition clear_classifications :: "report \<Rightarrow> report" where
  "clear_classifications r = r\<lparr>hr_alerts := map (\<lambda>a. a\<lparr>al_classifications := []\<rparr>) (hr_alerts r)\<rparr>"

text \<open>The result is the output, the report as it is left behind, and whether it is hardware health.\<close>

definition merge_override_report_with_hw_health ::
    "report \<Rightarrow> string \<Rightarrow> report \<Rightarrow> hardware_health_reports_config \<Rightarrow> report \<times> report \<times> bool" where
  "merge_override_report_with_hw_health output source report config =
     (if is_hardware_health_override_source source then
        (case config of
           Disabled \<Rightarrow> (output, report, True)
         | MonitorOnly \<Rightarrow> (let report = clear_classifications report in (report_merge output report, report, True))
         | Enabled \<Rightarrow> (report_merge output report, report, True))
      else (report_merge output report, report, False))"

text \<open>The loops over \<open>merges.iter_mut()\<close>, over the sources that pass the filter.\<close>

fun merge_sources :: "hardware_health_reports_config \<Rightarrow> (string \<Rightarrow> bool) \<Rightarrow> report
    \<Rightarrow> (string, report) btree_map \<Rightarrow> report \<times> (string, report) btree_map \<times> bool" where
  "merge_sources config keep output [] = (output, [], False)"
| "merge_sources config keep output ((source, over) # m) =
     (if keep source then
        (let (output, over, hw) = merge_override_report_with_hw_health output source over config;
             (output, m, hw') = merge_sources config keep output m
         in (output, (source, over) # m, hw \<or> hw'))
      else
        (let (output, m, hw) = merge_sources config keep output m
         in (output, (source, over) # m, hw)))"

definition merge_or_timeout :: "int \<Rightarrow> report \<Rightarrow> report option \<Rightarrow> string \<Rightarrow> report" where
  "merge_or_timeout now output input target =
     (case input of
        Some input \<Rightarrow> report_merge output input
      | None \<Rightarrow> report_merge output (report_heartbeat_timeout now [] target [] True False))"

definition merge_dpu :: "(int \<Rightarrow> string) \<Rightarrow> string \<Rightarrow> int \<Rightarrow> host_health_config \<Rightarrow> bool \<Rightarrow> report
    \<Rightarrow> 'dt machine \<Rightarrow> report \<times> 'dt machine" where
  "merge_dpu rfc3339 build_version now config suppress output snapshot =
     (let sources = ma_health_reports snapshot
      in case hs_replace sources of
        Some over \<Rightarrow>
          (let (output, over, hw) = merge_override_report_with_hw_health output (hr_source over) over
                 (hc_hardware_health_reports config)
           in (output, snapshot\<lparr>ma_health_reports := sources\<lparr>hs_replace := Some over\<rparr>\<rparr>))
      | None \<Rightarrow>
          (let health_report = (if suppress then map_option clear_classifications (dpu_agent_health_report snapshot)
                 else dpu_agent_health_report snapshot);
               output = (case ma_network_status_observation snapshot of
                   None \<Rightarrow> output
                 | Some obs \<Rightarrow> (case expired_version_health_report rfc3339 build_version now obs
                       (hc_dpu_agent_version_staleness_threshold config)
                       (hc_prevent_allocations_on_stale_dpu_agent_version config) of
                     None \<Rightarrow> output
                   | Some stale \<Rightarrow> report_merge output stale));
               output = merge_or_timeout now output health_report ''forge-dpu-agent'';
               (output, merges, hw) = merge_sources (hc_hardware_health_reports config)
                 (\<lambda>source. source \<noteq> DPU_AGENT_SOURCE) output (hs_merges sources)
           in (output, snapshot\<lparr>ma_health_reports := sources\<lparr>hs_merges := merges\<rparr>\<rparr>)))"

fun merge_dpus :: "(int \<Rightarrow> string) \<Rightarrow> string \<Rightarrow> int \<Rightarrow> host_health_config \<Rightarrow> bool \<Rightarrow> report
    \<Rightarrow> 'dt machine list \<Rightarrow> report \<times> 'dt machine list" where
  "merge_dpus rfc3339 build_version now config suppress output [] = (output, [])"
| "merge_dpus rfc3339 build_version now config suppress output (d # ds) =
     (let (output, d) = merge_dpu rfc3339 build_version now config suppress output d;
          (output, ds) = merge_dpus rfc3339 build_version now config suppress output ds
      in (output, d # ds))"

definition merge_rack :: "report \<Rightarrow> health_report_sources option \<Rightarrow> report" where
  "merge_rack output overrides =
     (case overrides of
        None \<Rightarrow> output
      | Some rack \<Rightarrow>
          (let output = (case hs_replace rack of None \<Rightarrow> output | Some rack_replace \<Rightarrow> report_merge output rack_replace)
           in fold (\<lambda>rack_merge output. report_merge output rack_merge) (bt_values (hs_merges rack)) output))"

definition derive_aggregate_health :: "(int \<Rightarrow> string) \<Rightarrow> string \<Rightarrow> int \<Rightarrow> host_health_config
    \<Rightarrow> ('dt, 'p) managed_host \<Rightarrow> ('dt, 'p) managed_host" where
  "derive_aggregate_health rfc3339 build_version now config mh =
     (let source = ''aggregate-host-health''; observed_at = Some now;
          host = mh_host mh; sources = ma_health_reports host
      in case hs_replace sources of
        Some over \<Rightarrow> mh\<lparr>mh_aggregate_health := over\<lparr>hr_source := source, hr_observed_at := observed_at\<rparr>\<rparr>
      | None \<Rightarrow>
          (let output = report_empty now [];
               (output, dpus) = merge_dpus rfc3339 build_version now config
                  (suppress_dpu_alerts (mh_managed_state mh)) output (mh_dpus mh);
               (output, merges, has_host_hardware_health) =
                  merge_sources (hc_hardware_health_reports config) (\<lambda>_. True) output (hs_merges sources);
               output = (if hc_hardware_health_reports config = Enabled \<and> \<not> has_host_hardware_health
                  then merge_or_timeout now output None ''hardware-health'' else output);
               output = merge_rack output (mh_rack_health_overrides mh)
           in mh\<lparr>mh_dpus := dpus,
                 mh_host := host\<lparr>ma_health_reports := sources\<lparr>hs_merges := merges\<rparr>\<rparr>,
                 mh_aggregate_health := output\<lparr>hr_source := source, hr_observed_at := observed_at\<rparr>\<rparr>))"

definition is_usable_as_instance :: "('dt, 'p) managed_host \<Rightarrow> bool \<Rightarrow> 'p not_allocatable_reason + unit" where
  "is_usable_as_instance mh allow_unhealthy =
     (if mh_managed_state mh \<noteq> Ready then Inl (InvalidState (mh_managed_state mh))
      else if mh_instance mh \<noteq> None then Inl PendingInstanceCreation
      else if ma_maintenance_requested (mh_host mh) \<noteq> None \<or>
              sources_maintenance_override (ma_health_reports (mh_host mh)) \<noteq> None then Inl MaintenanceMode
      else if pending_boot_interface_config_version (mh_host mh) \<noteq> None then Inl PendingBootConfiguration
      else if mh_dpus mh = [] \<and> associated_dpu_machine_ids (mh_host mh) \<noteq> [] then Inl NoDpuSnapshots
      else (case (if allow_unhealthy then None
                  else find_alert_by_classification (mh_aggregate_health mh) prevent_allocations) of
              Some alert \<Rightarrow> Inl (HealthAlert alert)
            | None \<Rightarrow> Inr ()))"

section \<open>What the aggregate contains\<close>

abbreviation cls :: "report \<Rightarrow> health_alert_classification set" where
  "cls r \<equiv> set (classifications r)"

abbreviation unique_alerts :: "report \<Rightarrow> bool" where
  "unique_alerts r \<equiv> distinct (map alert_key (hr_alerts r))"

lemma cls_clear [simp]: "cls (clear_classifications r) = {}"
  by (auto simp: classifications_def clear_classifications_def)

lemma cls_heartbeat [simp]:
  "cls (report_heartbeat_timeout now src target msg True False) = {prevent_allocations, prevent_host_state_changes}"
  by (simp add: classifications_def report_heartbeat_timeout_def alert_heartbeat_timeout_def)

lemma cls_stale [simp]:
  "cls (report_stale_agent_version now src dpu msg prevent) = (if prevent then {prevent_allocations} else {})"
  by (simp add: classifications_def report_stale_agent_version_def alert_stale_agent_version_def)

lemma cls_empty [simp]: "cls (report_empty now src) = {}" "unique_alerts (report_empty now src)"
  by (simp_all add: classifications_def report_empty_def)

lemma cls_update [simp]: "cls (r\<lparr>hr_source := s\<rparr>) = cls r" "cls (r\<lparr>hr_observed_at := t\<rparr>) = cls r"
  by (simp_all add: classifications_def)

lemmas cls_merge = merge_classifications_union merge_distinct

text \<open>The classifications that a source contributes under the hardware health setting.\<close>

definition effective :: "hardware_health_reports_config \<Rightarrow> string \<Rightarrow> report \<Rightarrow> health_alert_classification set" where
  "effective config source r =
     (if is_hardware_health_override_source source \<and> config \<noteq> Enabled then {} else cls r)"

definition effective_all :: "hardware_health_reports_config \<Rightarrow> (string \<Rightarrow> bool) \<Rightarrow> (string, report) btree_map
    \<Rightarrow> health_alert_classification set" where
  "effective_all config keep m = (\<Union>(source, r) \<in> set m. if keep source then effective config source r else {})"

definition dpu_classifications :: "(int \<Rightarrow> string) \<Rightarrow> string \<Rightarrow> int \<Rightarrow> host_health_config \<Rightarrow> bool
    \<Rightarrow> 'dt machine \<Rightarrow> health_alert_classification set" where
  "dpu_classifications rfc3339 build_version now config suppress d =
     (case hs_replace (ma_health_reports d) of
        Some over \<Rightarrow> effective (hc_hardware_health_reports config) (hr_source over) over
      | None \<Rightarrow>
          (case Option.bind (ma_network_status_observation d) (\<lambda>obs. expired_version_health_report rfc3339
              build_version now obs (hc_dpu_agent_version_staleness_threshold config)
              (hc_prevent_allocations_on_stale_dpu_agent_version config)) of
             None \<Rightarrow> {} | Some stale \<Rightarrow> cls stale) \<union>
          (case dpu_agent_health_report d of
             None \<Rightarrow> {prevent_allocations, prevent_host_state_changes}
           | Some r \<Rightarrow> if suppress then {} else cls r) \<union>
          effective_all (hc_hardware_health_reports config) (\<lambda>source. source \<noteq> DPU_AGENT_SOURCE)
            (hs_merges (ma_health_reports d)))"

definition rack_classifications :: "health_report_sources option \<Rightarrow> health_alert_classification set" where
  "rack_classifications overrides =
     (case overrides of None \<Rightarrow> {}
      | Some rack \<Rightarrow> (case hs_replace rack of None \<Rightarrow> {} | Some r \<Rightarrow> cls r) \<union>
          (\<Union>r \<in> set (bt_values (hs_merges rack)). cls r))"

definition host_classifications :: "(int \<Rightarrow> string) \<Rightarrow> string \<Rightarrow> int \<Rightarrow> host_health_config
    \<Rightarrow> ('dt, 'p) managed_host \<Rightarrow> health_alert_classification set" where
  "host_classifications rfc3339 build_version now config mh =
     (let sources = ma_health_reports (mh_host mh)
      in case hs_replace sources of
        Some over \<Rightarrow> cls over
      | None \<Rightarrow>
          (\<Union>d \<in> set (mh_dpus mh). dpu_classifications rfc3339 build_version now config
             (suppress_dpu_alerts (mh_managed_state mh)) d) \<union>
          effective_all (hc_hardware_health_reports config) (\<lambda>_. True) (hs_merges sources) \<union>
          (if hc_hardware_health_reports config = Enabled \<and>
              (\<forall>(source, r) \<in> set (hs_merges sources). \<not> is_hardware_health_override_source source)
           then {prevent_allocations, prevent_host_state_changes} else {}) \<union>
          rack_classifications (mh_rack_health_overrides mh))"

lemma merge_override_spec:
  assumes "merge_override_report_with_hw_health out source r config = (out', r', hw)" "unique_alerts out"
  shows "unique_alerts out'" "cls out' = cls out \<union> effective config source r"
    "hw = is_hardware_health_override_source source"
    "\<not> is_hardware_health_override_source source \<Longrightarrow> r' = r"
  using assms
  by (auto simp: merge_override_report_with_hw_health_def effective_def Let_def cls_merge
      split: if_splits hardware_health_reports_config.splits)

lemma merge_sources_spec:
  assumes "merge_sources config keep out m = (out', m', hw)" "unique_alerts out"
  shows "unique_alerts out' \<and> cls out' = cls out \<union> effective_all config keep m \<and>
    hw = (\<exists>(source, r) \<in> set m. keep source \<and> is_hardware_health_override_source source) \<and>
    (\<not> is_hardware_health_override_source k \<longrightarrow> bt_get m' k = bt_get m k)"
  using assms
proof (induction m arbitrary: out out' m' hw)
  case (Cons e m)
  obtain source over where e: "e = (source, over)" by fastforce
  obtain out1 over1 hw1 where o: "(if keep source then merge_override_report_with_hw_health out source over config
      else (out, over, False)) = (out1, over1, hw1)" by (metis prod_cases3)
  obtain out2 m2 hw2 where r: "merge_sources config keep out1 m = (out2, m2, hw2)" by (metis prod_cases3)
  have c: "out' = out2" "m' = (source, over1) # m2" "hw = (hw1 \<or> hw2)"
    using Cons.prems(1) o r by (auto simp: e split: if_splits)
  have "unique_alerts out1" "cls out1 = cls out \<union> (if keep source then effective config source over else {})"
    "hw1 = (keep source \<and> is_hardware_health_override_source source)"
    "\<not> is_hardware_health_override_source source \<Longrightarrow> over1 = over"
    using o merge_override_spec [of out source over config] Cons.prems(2) by (auto split: if_splits)
  with Cons.IH [OF r] show ?case
    by (auto simp: c e effective_all_def bt_get_def)
qed (simp add: effective_all_def)

lemma merge_or_timeout_spec:
  assumes "unique_alerts out"
  shows "unique_alerts (merge_or_timeout now out input target)"
    "cls (merge_or_timeout now out input target) = cls out \<union>
      (case input of None \<Rightarrow> {prevent_allocations, prevent_host_state_changes} | Some r \<Rightarrow> cls r)"
  using assms by (simp_all add: merge_or_timeout_def cls_merge split: option.splits)

lemma merge_dpu_spec:
  assumes "merge_dpu rfc3339 bv now config suppress out d = (out', d')" "unique_alerts out"
  shows "unique_alerts out' \<and> cls out' = cls out \<union> dpu_classifications rfc3339 bv now config suppress d"
proof (cases "hs_replace (ma_health_reports d)")
  case (Some over)
  obtain o1 r1 hw where "merge_override_report_with_hw_health out (hr_source over) over
      (hc_hardware_health_reports config) = (o1, r1, hw)" by (metis prod_cases3)
  with merge_override_spec [OF this assms(2)] Some assms(1) show ?thesis
    by (auto simp: merge_dpu_def dpu_classifications_def)
next
  case None
  define stale where "stale = Option.bind (ma_network_status_observation d) (\<lambda>obs. expired_version_health_report
    rfc3339 bv now obs (hc_dpu_agent_version_staleness_threshold config)
    (hc_prevent_allocations_on_stale_dpu_agent_version config))"
  define o1 where "o1 = (case stale of None \<Rightarrow> out | Some r \<Rightarrow> report_merge out r)"
  define agent where "agent = (if suppress then map_option clear_classifications (dpu_agent_health_report d)
    else dpu_agent_health_report d)"
  define o2 where "o2 = merge_or_timeout now o1 agent ''forge-dpu-agent''"
  obtain o3 m3 hw where m: "merge_sources (hc_hardware_health_reports config) (\<lambda>source. source \<noteq> DPU_AGENT_SOURCE)
    o2 (hs_merges (ma_health_reports d)) = (o3, m3, hw)" by (metis prod_cases3)
  have 1: "unique_alerts o1" "cls o1 = cls out \<union> (case stale of None \<Rightarrow> {} | Some r \<Rightarrow> cls r)"
    using assms(2) by (auto simp: o1_def cls_merge split: option.splits)
  have "o1 = (case ma_network_status_observation d of None \<Rightarrow> out | Some obs \<Rightarrow>
      (case expired_version_health_report rfc3339 bv now obs (hc_dpu_agent_version_staleness_threshold config)
        (hc_prevent_allocations_on_stale_dpu_agent_version config) of None \<Rightarrow> out | Some stale \<Rightarrow> report_merge out stale))"
    by (simp add: o1_def stale_def split: option.split)
  with m None assms(1) have "out' = o3"
    by (simp add: merge_dpu_def Let_def o2_def agent_def)
  moreover have "unique_alerts o2" "cls o2 = cls o1 \<union> (case dpu_agent_health_report d of
      None \<Rightarrow> {prevent_allocations, prevent_host_state_changes} | Some r \<Rightarrow> if suppress then {} else cls r)"
    using merge_or_timeout_spec [OF 1(1), of now agent] by (auto simp: o2_def agent_def split: option.splits)
  ultimately show ?thesis
    using merge_sources_spec [OF m] 1(2) None
    by (auto simp: dpu_classifications_def stale_def [symmetric])
qed

lemma merge_dpus_spec:
  "merge_dpus rfc3339 bv now config suppress out ds = (out', ds') \<Longrightarrow> unique_alerts out \<Longrightarrow>
   unique_alerts out' \<and> length ds' = length ds \<and>
   cls out' = cls out \<union> (\<Union>d \<in> set ds. dpu_classifications rfc3339 bv now config suppress d)"
proof (induction ds arbitrary: out out' ds')
  case (Cons d ds)
  obtain o1 d1 where 1: "merge_dpu rfc3339 bv now config suppress out d = (o1, d1)" by fastforce
  obtain o2 ds2 where 2: "merge_dpus rfc3339 bv now config suppress o1 ds = (o2, ds2)" by fastforce
  from Cons.prems(1) 1 2 have "out' = o2" "ds' = d1 # ds2" by simp_all
  with merge_dpu_spec [OF 1 Cons.prems(2)] Cons.IH [OF 2] show ?case by auto
qed simp

lemma fold_merge_spec:
  "unique_alerts out \<Longrightarrow> unique_alerts (fold (\<lambda>r out. report_merge out r) rs out) \<and>
   cls (fold (\<lambda>r out. report_merge out r) rs out) = cls out \<union> (\<Union>r \<in> set rs. cls r)"
  by (induction rs arbitrary: out) (auto simp: cls_merge)

lemma merge_rack_spec:
  assumes "unique_alerts out"
  shows "cls (merge_rack out overrides) = cls out \<union> rack_classifications overrides"
proof (cases overrides)
  case (Some rack)
  let ?o = "case hs_replace rack of None \<Rightarrow> out | Some r \<Rightarrow> report_merge out r"
  have "unique_alerts ?o" "cls ?o = cls out \<union> (case hs_replace rack of None \<Rightarrow> {} | Some r \<Rightarrow> cls r)"
    using assms by (auto simp: cls_merge split: option.splits)
  with Some fold_merge_spec [of ?o "bt_values (hs_merges rack)"] show ?thesis
    by (auto simp: merge_rack_def rack_classifications_def)
qed (simp add: merge_rack_def rack_classifications_def)

text \<open>Everything the aggregate depends on but the classifications is kept by the derivation.\<close>

lemma maintenance_override_merges:
  "merge_sources config keep out m = (out', m', hw) \<Longrightarrow> unique_alerts out \<Longrightarrow>
   sources_maintenance_override (h\<lparr>hs_merges := m'\<rparr>) = sources_maintenance_override (h\<lparr>hs_merges := m\<rparr>)"
  using merge_sources_spec [of config keep out m out' m' hw "''maintenance''"]
  by (simp add: sources_maintenance_override_def is_hardware_health_override_source_def
      HARDWARE_HEALTH_OVERRIDE_PREFIX_def)

lemma derive_aggregate_health_spec:
  "cls (mh_aggregate_health (derive_aggregate_health rfc3339 bv now config mh)) =
     host_classifications rfc3339 bv now config mh \<and>
   sources_maintenance_override (ma_health_reports (mh_host (derive_aggregate_health rfc3339 bv now config mh))) =
     sources_maintenance_override (ma_health_reports (mh_host mh)) \<and>
   (mh_dpus (derive_aggregate_health rfc3339 bv now config mh) = [] \<longleftrightarrow> mh_dpus mh = [])"
proof (cases "hs_replace (ma_health_reports (mh_host mh))")
  case (Some over)
  then show ?thesis by (simp add: derive_aggregate_health_def host_classifications_def)
next
  case None
  let ?s = "ma_health_reports (mh_host mh)"
  obtain o1 ds where 1: "merge_dpus rfc3339 bv now config (suppress_dpu_alerts (mh_managed_state mh))
    (report_empty now []) (mh_dpus mh) = (o1, ds)" by fastforce
  obtain o2 m hw where 2: "merge_sources (hc_hardware_health_reports config) (\<lambda>_. True) o1 (hs_merges ?s) = (o2, m, hw)"
    by (metis prod_cases3)
  define o3 where "o3 = (if hc_hardware_health_reports config = Enabled \<and> \<not> hw
    then merge_or_timeout now o2 None ''hardware-health'' else o2)"
  note d = merge_dpus_spec [OF 1 cls_empty(2)] and m = merge_sources_spec [OF 2]
  have "unique_alerts o3" "cls o3 = cls o2 \<union> (if hc_hardware_health_reports config = Enabled \<and> \<not> hw
      then {prevent_allocations, prevent_host_state_changes} else {})"
    using d m merge_or_timeout_spec [of o2 now None "''hardware-health''"] by (auto simp: o3_def)
  then have "cls (merge_rack o3 (mh_rack_health_overrides mh)) = host_classifications rfc3339 bv now config mh"
    using None d m by (auto simp: merge_rack_spec host_classifications_def Let_def)
  moreover have "derive_aggregate_health rfc3339 bv now config mh =
      mh\<lparr>mh_dpus := ds, mh_host := (mh_host mh)\<lparr>ma_health_reports := ?s\<lparr>hs_merges := m\<rparr>\<rparr>,
        mh_aggregate_health := (merge_rack o3 (mh_rack_health_overrides mh))\<lparr>hr_source := ''aggregate-host-health'',
          hr_observed_at := Some now\<rparr>\<rparr>"
    using None 1 2 by (simp add: derive_aggregate_health_def Let_def o3_def)
  ultimately show ?thesis
    using d maintenance_override_merges [OF 2, of ?s] by auto
qed

section \<open>Properties\<close>


text \<open>
  C3: a host whose health was just aggregated may be allocated iff it is \<open>Ready\<close>, has no instance,
  is under no maintenance, has its desired boot configuration verified, has DPU snapshots if DPUs
  are attached, and, unless unhealthy hosts are allowed, no report that counts carries
  \<open>PreventAllocations\<close>.
\<close>

theorem usable_as_instance_iff:
  fixes mh :: "('dt, 'p) managed_host"
  shows "is_usable_as_instance (derive_aggregate_health rfc3339 build_version now config mh) allow_unhealthy = Inr () \<longleftrightarrow>
     mh_managed_state mh = Ready \<and> mh_instance mh = None \<and>
     ma_maintenance_requested (mh_host mh) = None \<and>
     sources_maintenance_override (ma_health_reports (mh_host mh)) = None \<and>
     (ma_desired_boot_version (mh_host mh) \<noteq> None \<longrightarrow>
        ma_observed_boot_version (mh_host mh) = ma_desired_boot_version (mh_host mh)) \<and>
     (mh_dpus mh = [] \<longrightarrow> associated_dpu_machine_ids (mh_host mh) = []) \<and>
     (allow_unhealthy \<or> prevent_allocations \<notin> host_classifications rfc3339 build_version now config mh)"
proof -
  let ?d = "derive_aggregate_health rfc3339 build_version now config mh"
  note spec = derive_aggregate_health_spec [of rfc3339 build_version now config mh]
  have same: "mh_managed_state ?d = mh_managed_state mh" "mh_instance ?d = mh_instance mh"
    "ma_maintenance_requested (mh_host ?d) = ma_maintenance_requested (mh_host mh)"
    "ma_desired_boot_version (mh_host ?d) = ma_desired_boot_version (mh_host mh)"
    "ma_observed_boot_version (mh_host ?d) = ma_observed_boot_version (mh_host mh)"
    "ma_is_dpu (mh_host ?d) = ma_is_dpu (mh_host mh)" "ma_attached_dpus (mh_host ?d) = ma_attached_dpus (mh_host mh)"
    by (auto simp: derive_aggregate_health_def Let_def split: option.splits prod.splits)
  have "find_alert_by_classification (mh_aggregate_health ?d) prevent_allocations = None \<longleftrightarrow>
      prevent_allocations \<notin> host_classifications rfc3339 build_version now config mh"
    using spec has_classification_iff [of "mh_aggregate_health ?d" prevent_allocations]
    unfolding has_classification_def by metis
  then have health: "(case (if allow_unhealthy then None else find_alert_by_classification (mh_aggregate_health ?d)
      prevent_allocations) of Some alert \<Rightarrow> Inl (HealthAlert alert) | None \<Rightarrow> Inr ()) = (Inr () :: 'p not_allocatable_reason + unit) \<longleftrightarrow>
      allow_unhealthy \<or> prevent_allocations \<notin> host_classifications rfc3339 build_version now config mh"
    by (cases allow_unhealthy) (auto split: option.splits)
  have pend: "pending_boot_interface_config_version (mh_host ?d) = None \<longleftrightarrow> (ma_desired_boot_version (mh_host mh) \<noteq> None \<longrightarrow>
      ma_observed_boot_version (mh_host mh) = ma_desired_boot_version (mh_host mh))"
    by (auto simp: pending_boot_interface_config_version_def same(4,5) split: option.splits)
  have assoc: "associated_dpu_machine_ids (mh_host ?d) = associated_dpu_machine_ids (mh_host mh)"
    by (simp only: associated_dpu_machine_ids_def same(6,7))
  note maint = conjunct1 [OF conjunct2 [OF spec]] and dpus = conjunct2 [OF conjunct2 [OF spec]]
  have if_Inl: "(if b then Inl e else x) = Inr () \<longleftrightarrow> \<not> b \<and> x = Inr ()" for b x and e :: "'p not_allocatable_reason"
    by simp
  show ?thesis
    unfolding is_usable_as_instance_def same(1-3) maint dpus if_Inl health assoc pend by argo
qed

definition example_host :: "(nat, nat) managed_host" where
  "example_host =
     \<lparr>mh_host = \<lparr>ma_is_dpu = False,
        ma_health_reports = \<lparr>hs_replace = None, hs_merges = [(''sku-validation'', report_sku_missing 3 ''sku'')]\<rparr>,
        ma_network_status_observation = None, ma_maintenance_requested = None,
        ma_desired_boot_version = None, ma_observed_boot_version = None, ma_attached_dpus = []\<rparr>,
      mh_dpus = [], mh_instance = None, mh_managed_state = Ready,
      mh_aggregate_health = report_empty 0 [], mh_rack_health_overrides = None\<rparr>"

definition example_config :: host_health_config where
  "example_config = \<lparr>hc_hardware_health_reports = Disabled, hc_dpu_agent_version_staleness_threshold = 0,
     hc_prevent_allocations_on_stale_dpu_agent_version = False\<rparr>"

theorem usable_as_instance_iff_witness:
  "is_usable_as_instance (derive_aggregate_health (\<lambda>_. []) ''v1'' 7 example_config example_host) True = Inr () \<and>
   is_usable_as_instance (derive_aggregate_health (\<lambda>_. []) ''v1'' 7 example_config example_host) False \<noteq> Inr ()"
  unfolding usable_as_instance_iff
  by (simp add: example_host_def sources_maintenance_override_def bt_get_def associated_dpu_machine_ids_def
      map_filter_simps host_classifications_def example_config_def effective_all_def effective_def
      is_hardware_health_override_source_def HARDWARE_HEALTH_OVERRIDE_PREFIX_def rack_classifications_def
      classifications_def report_sku_missing_def alert_sku_missing_def)

text \<open>
  The aggregate of a rack, a switch or a power shelf is its replacing report when there is one,
  and otherwise a well-formed report with exactly the classifications of the merged reports.
\<close>

lemma sources_aggregate_health:
  "has_classification (derive_sources_aggregate_health name now sources) c \<longleftrightarrow>
     (case hs_replace sources of
        Some replace \<Rightarrow> has_classification replace c
      | None \<Rightarrow> \<exists>r \<in> set (bt_values (hs_merges sources)). has_classification r c)"
  using fold_merge_spec [of "report_empty now name" "bt_values (hs_merges sources)"]
  by (simp add: has_classification_iff derive_sources_aggregate_health_def split: option.split)

end
