(* ===== verification/State_Queue.thy ===== *)
theory State_Queue
  imports Prelude
begin

text \<open>
  The work queue of the state controllers (\<open>crates/state-controller/src/controller/db.rs\<close>) and the
  processors that claim, run and finalize its objects (\<open>controller/processor.rs\<close>).

  The queue table is a list of rows in table order with distinct object ids; each SQL statement
  is one function on it, and \<open>now\<close> is the time at which its transaction started. Object ids are
  represented by their text. Instants are integers. A task occupies its processor from the claim
  until its result is collected, and \<open>timeout_at\<close> ends it at its deadline at the latest.
\<close>

section \<open>The queue table\<close>

record queue_row =
  q_processed_by :: "string option"
  q_started_at :: int

type_synonym queue = "(string \<times> queue_row) list"

definition BIND_LIMIT :: nat where "BIND_LIMIT = 32768"

definition OBJECTS_PER_QUERY :: nat where "OBJECTS_PER_QUERY = BIND_LIMIT div 32"

text \<open>\<open>slice::chunks\<close>.\<close>

function chunks :: "nat \<Rightarrow> 'a list \<Rightarrow> 'a list list" where
  "chunks n xs = (if xs = [] \<or> n = 0 then [] else take n xs # chunks n (drop n xs))"
  by pat_completeness auto
termination by (relation "measure (\<lambda>(n, xs). length xs)") auto

declare chunks.simps [simp del]

text \<open>\<open>INSERT INTO ... ON CONFLICT (object_id) DO NOTHING\<close>, one value; the number is of affected rows.\<close>

definition insert_row :: "int \<Rightarrow> string \<Rightarrow> queue \<times> nat \<Rightarrow> queue \<times> nat" where
  "insert_row now object_id st =
     (if object_id \<in> fst ` set (fst st) then st
      else (fst st @ [(object_id, \<lparr>q_processed_by = None, q_started_at = now\<rparr>)], Suc (snd st)))"

definition queue_objects :: "int \<Rightarrow> string list \<Rightarrow> queue \<Rightarrow> queue \<times> nat" where
  "queue_objects now queued_objects tbl =
     fold (\<lambda>chunk. fold (insert_row now) chunk) (chunks OBJECTS_PER_QUERY (sort queued_objects)) (tbl, 0)"

definition claimable :: "int \<Rightarrow> int \<Rightarrow> queue_row \<Rightarrow> bool" where
  "claimable now max_outdated r \<longleftrightarrow> q_processed_by r = None \<or> q_started_at r + max_outdated < now"

text \<open>The claim: \<open>locked\<close> are the rows that other transactions hold and \<open>SKIP LOCKED\<close> passes over.\<close>

definition dequeued_ids :: "int \<Rightarrow> string set \<Rightarrow> nat \<Rightarrow> int \<Rightarrow> queue \<Rightarrow> string list" where
  "dequeued_ids now locked limit max_outdated tbl =
     map fst (take limit (sort_key (\<lambda>e. q_started_at (snd e))
       (filter (\<lambda>e. claimable now max_outdated (snd e) \<and> fst e \<notin> locked) tbl)))"

definition acquire_queued_objects ::
    "int \<Rightarrow> string set \<Rightarrow> nat \<Rightarrow> string \<Rightarrow> int \<Rightarrow> queue \<Rightarrow> queue \<times> string list" where
  "acquire_queued_objects now locked limit processor_id max_outdated tbl =
     (let ids = dequeued_ids now locked limit max_outdated tbl
      in (map (\<lambda>(i, r). if i \<in> set ids then (i, \<lparr>q_processed_by = Some processor_id, q_started_at = now\<rparr>)
               else (i, r)) tbl,
          map fst (filter (\<lambda>e. fst e \<in> set ids) tbl)))"

definition delete_rows :: "string \<Rightarrow> string list \<Rightarrow> queue \<times> nat \<Rightarrow> queue \<times> nat" where
  "delete_rows processor_id object_ids st =
     (let gone = (\<lambda>e. fst e \<in> set object_ids \<and> q_processed_by (snd e) = Some processor_id)
      in (filter (\<lambda>e. \<not> gone e) (fst st), snd st + length (filter gone (fst st))))"

definition delete_queued_objects :: "string list \<Rightarrow> string \<Rightarrow> queue \<Rightarrow> queue \<times> nat" where
  "delete_queued_objects object_ids processor_id tbl =
     fold (delete_rows processor_id) (chunks OBJECTS_PER_QUERY object_ids) (tbl, 0)"

section \<open>Processors\<close>

record state_processor =
  sp_id :: string
  sp_max_concurrency :: nat
  sp_max_object_handling_time :: int
  sp_object_tasks :: "(string \<times> int) list"
  sp_completed_objects :: "string list"
  sp_requeue_objects :: "string list"

definition remaining_capacity :: "state_processor \<Rightarrow> nat" where
  "remaining_capacity p = sp_max_concurrency p - length (sp_object_tasks p)"

datatype iteration_error = QueueClaimTimeout

text \<open>
  \<open>start\<close> is the instant the deadline counts from, \<open>now\<close> that of the claiming transaction and
  \<open>done\<close> the instant after it. \<open>valid\<close> says which texts parse as object ids.
\<close>

definition dequeue_and_dispatch_object_handling_tasks ::
    "(string \<Rightarrow> bool) \<Rightarrow> int \<Rightarrow> int \<Rightarrow> int \<Rightarrow> string set \<Rightarrow> state_processor \<Rightarrow> queue
     \<Rightarrow> queue \<times> state_processor \<times> (iteration_error + nat)" where
  "dequeue_and_dispatch_object_handling_tasks valid start now finished locked p tbl =
     (let capacity = remaining_capacity p
      in if capacity = 0 then (tbl, p, Inr 0)
         else
           (let deadline = start + sp_max_object_handling_time p;
                capacity = min capacity (2 ^ 32 - 1);
                (tbl', queued) = acquire_queued_objects now locked capacity (sp_id p)
                   (sp_max_object_handling_time p * 3) tbl
            in if finished \<ge> deadline then (tbl', p, Inl QueueClaimTimeout)
               else
                 (let objects = filter valid queued
                  in (tbl', p\<lparr>sp_object_tasks := sp_object_tasks p @ map (\<lambda>i. (i, deadline)) objects\<rparr>,
                      Inr (length objects)))))"

text \<open>\<open>process_object_handling_task_result\<close>; \<open>again\<close> is \<open>next_state.is_some() || iteration_invalidated\<close>.\<close>

definition process_object_handling_task_result ::
    "bool \<Rightarrow> string \<times> int \<Rightarrow> bool \<Rightarrow> state_processor \<Rightarrow> state_processor" where
  "process_object_handling_task_result allow_requeue task again p =
     p\<lparr>sp_object_tasks := remove1 task (sp_object_tasks p),
       sp_completed_objects := List.insert (fst task) (sp_completed_objects p),
       sp_requeue_objects := (if allow_requeue \<and> again then List.insert (fst task) (sp_requeue_objects p)
         else sp_requeue_objects p)\<rparr>"

definition finalize_completed_objects ::
    "int \<Rightarrow> state_processor \<Rightarrow> queue \<Rightarrow> queue \<times> state_processor" where
  "finalize_completed_objects now p tbl =
     (if sp_completed_objects p = [] then (tbl, p)
      else
        (let (tbl, num_deleted) = delete_queued_objects (sp_completed_objects p) (sp_id p) tbl;
             (tbl, num_requeued) = queue_objects now (sp_requeue_objects p) tbl
         in (tbl, p\<lparr>sp_completed_objects := [], sp_requeue_objects := []\<rparr>)))"

text \<open>
  \<open>drain\<close>: every task result is collected, then the queue is finalized. The results come with
  whether each task asks for another pass.
\<close>

definition drain :: "int \<Rightarrow> (string \<times> int \<Rightarrow> bool) \<Rightarrow> state_processor \<Rightarrow> queue \<Rightarrow> queue \<times> state_processor" where
  "drain now again p tbl =
     finalize_completed_objects now
       (fold (\<lambda>task. process_object_handling_task_result True task (again task)) (sp_object_tasks p) p) tbl"

section \<open>Facts about the table\<close>

definition row :: "queue \<Rightarrow> string \<Rightarrow> queue_row option" where
  "row tbl i = map_of tbl i"

definition queue_wf :: "queue \<Rightarrow> bool" where
  "queue_wf tbl \<longleftrightarrow> distinct (map fst tbl)"

lemma objects_per_query_pos: "0 < OBJECTS_PER_QUERY"
  by (simp add: OBJECTS_PER_QUERY_def BIND_LIMIT_def)

lemma concat_chunks: "0 < n \<Longrightarrow> concat (chunks n xs) = xs"
proof (induction n xs rule: chunks.induct)
  case (1 n xs)
  show ?case
  proof (cases "xs = []")
    case True
    then show ?thesis by (simp only: chunks.simps [of n "[]"]) simp
  next
    case False
    with 1 have "concat (chunks n (drop n xs)) = drop n xs" by blast
    with False 1(2) show ?thesis by (simp only: chunks.simps [of n xs]) simp
  qed
qed

lemma fold_chunks: "0 < n \<Longrightarrow> fold (\<lambda>c. fold f c) (chunks n xs) st = fold f xs st"
proof -
  have "fold (\<lambda>c. fold f c) cs st = fold f (concat cs) st" for cs by (induction cs arbitrary: st) auto
  then show "0 < n \<Longrightarrow> ?thesis" by (simp add: concat_chunks)
qed

lemma row_None_iff: "row tbl j = None \<longleftrightarrow> j \<notin> fst ` set tbl"
  by (simp add: row_def map_of_eq_None_iff)

lemma row_in_set: "queue_wf tbl \<Longrightarrow> row tbl j = Some r \<longleftrightarrow> (j, r) \<in> set tbl"
  by (simp add: queue_wf_def row_def)

lemma row_append: "row (tbl @ [(i, r)]) j = (case row tbl j of Some x \<Rightarrow> Some x | None \<Rightarrow> if j = i then Some r else None)"
  by (simp add: row_def map_add_def split: option.split)

lemma insert_row_spec:
  assumes "queue_wf (fst st)"
  shows "queue_wf (fst (insert_row now i st))"
    "row (fst (insert_row now i st)) j = (case row (fst st) j of
        Some r \<Rightarrow> Some r | None \<Rightarrow> if j = i then Some \<lparr>q_processed_by = None, q_started_at = now\<rparr> else None)"
proof -
  show "queue_wf (fst (insert_row now i st))"
    using assms by (auto simp: insert_row_def queue_wf_def)
  show "row (fst (insert_row now i st)) j = (case row (fst st) j of
      Some r \<Rightarrow> Some r | None \<Rightarrow> if j = i then Some \<lparr>q_processed_by = None, q_started_at = now\<rparr> else None)"
    using row_None_iff [of "fst st" i] by (auto simp: insert_row_def row_append split: option.split)
qed

lemma queue_objects_spec:
  assumes "queue_wf tbl"
  shows "queue_wf (fst (queue_objects now ids tbl))"
    "row (fst (queue_objects now ids tbl)) j = (case row tbl j of
        Some r \<Rightarrow> Some r
      | None \<Rightarrow> if j \<in> set ids then Some \<lparr>q_processed_by = None, q_started_at = now\<rparr> else None)"
proof -
  have "queue_wf (fst st) \<Longrightarrow> queue_wf (fst (fold (insert_row now) xs st)) \<and>
      row (fst (fold (insert_row now) xs st)) j = (case row (fst st) j of
        Some r \<Rightarrow> Some r
      | None \<Rightarrow> if j \<in> set xs then Some \<lparr>q_processed_by = None, q_started_at = now\<rparr> else None)" for xs st
    by (induction xs arbitrary: st) (auto simp: insert_row_spec split: option.splits)
  from this [of "(tbl, 0)" "sort ids"] assms
  show "queue_wf (fst (queue_objects now ids tbl))"
    "row (fst (queue_objects now ids tbl)) j = (case row tbl j of
        Some r \<Rightarrow> Some r
      | None \<Rightarrow> if j \<in> set ids then Some \<lparr>q_processed_by = None, q_started_at = now\<rparr> else None)"
    by (simp_all add: queue_objects_def fold_chunks [OF objects_per_query_pos])
qed

lemma delete_queued_objects_spec:
  assumes "queue_wf tbl"
  shows "queue_wf (fst (delete_queued_objects ids p tbl))"
    "row (fst (delete_queued_objects ids p tbl)) j = (case row tbl j of
        Some r \<Rightarrow> if j \<in> set ids \<and> q_processed_by r = Some p then None else Some r
      | None \<Rightarrow> None)"
proof -
  have 1: "row (filter Q tbl) j = (case row tbl j of Some r \<Rightarrow> if Q (j, r) then Some r else None | None \<Rightarrow> None)"
    if "queue_wf tbl" for Q and tbl :: queue
    using that by (induction tbl) (auto simp: queue_wf_def row_def map_of_eq_None_iff image_iff split: option.splits)
  have 2: "queue_wf (fst st) \<Longrightarrow> queue_wf (fst (fold (delete_rows p) cs st)) \<and>
      row (fst (fold (delete_rows p) cs st)) j = (case row (fst st) j of
        Some r \<Rightarrow> if j \<in> set (concat cs) \<and> q_processed_by r = Some p then None else Some r | None \<Rightarrow> None)" for cs st
  proof (induction cs arbitrary: st)
    case (Cons c cs)
    have "queue_wf (fst (delete_rows p c st))"
      using Cons.prems by (simp add: delete_rows_def queue_wf_def Let_def distinct_map_filter)
    moreover have "row (fst (delete_rows p c st)) j = (case row (fst st) j of
        Some r \<Rightarrow> if j \<in> set c \<and> q_processed_by r = Some p then None else Some r | None \<Rightarrow> None)"
      using Cons.prems by (simp add: delete_rows_def Let_def 1 split: option.split)
    ultimately show ?case using Cons.IH by (auto split: option.splits)
  qed (simp split: option.split)
  from 2 [of "(tbl, 0)" "chunks OBJECTS_PER_QUERY ids", unfolded concat_chunks [OF objects_per_query_pos]] assms
  show "queue_wf (fst (delete_queued_objects ids p tbl))"
    "row (fst (delete_queued_objects ids p tbl)) j = (case row tbl j of
        Some r \<Rightarrow> if j \<in> set ids \<and> q_processed_by r = Some p then None else Some r
      | None \<Rightarrow> None)"
    by (simp_all add: delete_queued_objects_def)
qed

lemma dequeued_ids_subset:
  assumes "queue_wf tbl" "i \<in> set (dequeued_ids now locked limit max_outdated tbl)"
  shows "\<exists>r. row tbl i = Some r \<and> claimable now max_outdated r \<and> i \<notin> locked"
  using assms by (auto simp: dequeued_ids_def row_in_set dest!: in_set_takeD)

lemma dequeued_ids_distinct:
  assumes "queue_wf tbl"
  shows "distinct (dequeued_ids now locked limit max_outdated tbl)"
proof -
  let ?s = "sort_key (\<lambda>e. q_started_at (snd e)) (filter (\<lambda>e. claimable now max_outdated (snd e) \<and> fst e \<notin> locked) tbl)"
  have "distinct (map fst ?s)"
    using assms by (auto simp: queue_wf_def distinct_map inj_on_def)
  then show ?thesis by (simp add: dequeued_ids_def flip: take_map)
qed

lemma acquire_spec:
  assumes "queue_wf tbl" "acquire_queued_objects now locked limit p max_outdated tbl = (tbl', objects)"
  shows "queue_wf tbl'" "set objects = set (dequeued_ids now locked limit max_outdated tbl)" "distinct objects"
    "length objects \<le> limit"
    "row tbl' j = (if j \<in> set objects then Some \<lparr>q_processed_by = Some p, q_started_at = now\<rparr> else row tbl j)"
proof -
  let ?ids = "dequeued_ids now locked limit max_outdated tbl"
  have t: "tbl' = map (\<lambda>(i, r). if i \<in> set ?ids then (i, \<lparr>q_processed_by = Some p, q_started_at = now\<rparr>) else (i, r)) tbl"
    and o: "objects = map fst (filter (\<lambda>e. fst e \<in> set ?ids) tbl)"
    using assms(2) by (auto simp: acquire_queued_objects_def Let_def)
  have "map fst tbl' = map fst tbl" by (auto simp: t)
  then show "queue_wf tbl'" using assms(1) by (simp add: queue_wf_def)
  show s: "set objects = set ?ids"
    using dequeued_ids_subset [OF assms(1), of _ now locked limit max_outdated] assms(1)
    by (force simp: o row_in_set)
  show d: "distinct objects" using assms(1) by (simp add: o queue_wf_def distinct_map_filter)
  have "length objects = length ?ids"
    using s d dequeued_ids_distinct [OF assms(1)] by (metis distinct_card)
  then show "length objects \<le> limit" by (simp add: dequeued_ids_def)
  have "row (map (\<lambda>(i, r). if i \<in> X then (i, f) else (i, r)) tbl) j = map_option (\<lambda>r. if j \<in> X then f else r) (row tbl j)"
    for X f and tbl :: queue unfolding row_def by (induction tbl) auto
  then have "row tbl' j = (if j \<in> set ?ids then map_option (\<lambda>_. \<lparr>q_processed_by = Some p, q_started_at = now\<rparr>) (row tbl j)
      else row tbl j)"
    by (simp add: t option.map_ident)
  then show "row tbl' j = (if j \<in> set objects then Some \<lparr>q_processed_by = Some p, q_started_at = now\<rparr> else row tbl j)"
    using dequeued_ids_subset [OF assms(1), of j now locked limit max_outdated] by (auto simp: s split: option.split)
qed

section \<open>Several processors on one queue\<close>

text \<open>
  A site: the clock, the table and the processors by id. A step is the clock moving, an enqueue, a
  claim with its dispatch, a collected result, a finalization, or a processor that crashes. The
  claim starts at \<open>start\<close>, runs at the current time and ends at \<open>finished\<close>. A finalization that fails is
  one that does not happen. With \<open>strict\<close>, a processor claims only when its last finalization
  went through and no result of its tasks is outstanding for twice the handling time.
\<close>

record site =
  st_now :: int
  st_table :: queue
  st_processors :: "string \<Rightarrow> state_processor"

definition prompt :: "int \<Rightarrow> state_processor \<Rightarrow> bool" where
  "prompt now p \<longleftrightarrow> sp_completed_objects p = [] \<and>
     (\<forall>t \<in> set (sp_object_tasks p). now \<le> snd t + 2 * sp_max_object_handling_time p)"

inductive site_step :: "(string \<Rightarrow> bool) \<Rightarrow> bool \<Rightarrow> site \<Rightarrow> site \<Rightarrow> bool" for valid strict where
  tick: "0 \<le> d \<Longrightarrow> site_step valid strict s (s\<lparr>st_now := st_now s + d\<rparr>)"
| enqueue: "site_step valid strict s (s\<lparr>st_table := fst (queue_objects (st_now s) ids (st_table s))\<rparr>)"
| dispatch: "start \<le> st_now s \<Longrightarrow> st_now s \<le> finished \<Longrightarrow>
    (strict \<Longrightarrow> prompt (st_now s) (st_processors s i)) \<Longrightarrow>
    dequeue_and_dispatch_object_handling_tasks valid start (st_now s) finished locked (st_processors s i) (st_table s) =
      (tbl, p, r) \<Longrightarrow>
    site_step valid strict s (s\<lparr>st_now := finished, st_table := tbl, st_processors := (st_processors s)(i := p)\<rparr>)"
| complete: "task \<in> set (sp_object_tasks (st_processors s i)) \<Longrightarrow>
    site_step valid strict s (s\<lparr>st_processors := (st_processors s)(i :=
      process_object_handling_task_result allow_requeue task again (st_processors s i))\<rparr>)"
| finalize: "finalize_completed_objects (st_now s) (st_processors s i) (st_table s) = (tbl, p) \<Longrightarrow>
    site_step valid strict s (s\<lparr>st_table := tbl, st_processors := (st_processors s)(i := p)\<rparr>)"
| crash: "site_step valid strict s (s\<lparr>st_processors := (st_processors s)(i :=
    (st_processors s i)\<lparr>sp_object_tasks := [], sp_completed_objects := [], sp_requeue_objects := []\<rparr>)\<rparr>)"

definition idle_processor :: "nat \<Rightarrow> int \<Rightarrow> string \<Rightarrow> state_processor" where
  "idle_processor max_concurrency handling_time i =
     \<lparr>sp_id = i, sp_max_concurrency = max_concurrency, sp_max_object_handling_time = handling_time,
      sp_object_tasks = [], sp_completed_objects = [], sp_requeue_objects = []\<rparr>"

definition site_init :: "nat \<Rightarrow> int \<Rightarrow> site" where
  "site_init max_concurrency handling_time =
     \<lparr>st_now = 0, st_table = [], st_processors = idle_processor max_concurrency handling_time\<rparr>"

text \<open>The configuration of the processors does not change, and none runs more than its limit.\<close>

definition site_config :: "nat \<Rightarrow> int \<Rightarrow> site \<Rightarrow> bool" where
  "site_config max_concurrency handling_time s \<longleftrightarrow> queue_wf (st_table s) \<and>
     (\<forall>i. sp_id (st_processors s i) = i \<and> sp_max_concurrency (st_processors s i) = max_concurrency \<and>
          sp_max_object_handling_time (st_processors s i) = handling_time \<and>
          length (sp_object_tasks (st_processors s i)) \<le> max_concurrency)"

text \<open>Ownership: every task that is not overdue holds the row of its object.\<close>

definition task_owned :: "int \<Rightarrow> site \<Rightarrow> string \<Rightarrow> string \<times> int \<Rightarrow> bool" where
  "task_owned handling_time s i t \<longleftrightarrow> (st_now s \<le> snd t + 2 * handling_time \<longrightarrow>
     (\<exists>r. row (st_table s) (fst t) = Some r \<and> q_processed_by r = Some i \<and> snd t \<le> q_started_at r + handling_time))"

definition site_owned :: "int \<Rightarrow> site \<Rightarrow> bool" where
  "site_owned handling_time s \<longleftrightarrow>
     (\<forall>i. distinct (map fst (sp_object_tasks (st_processors s i))) \<and>
          (\<forall>t \<in> set (sp_object_tasks (st_processors s i)).
             fst t \<notin> set (sp_completed_objects (st_processors s i)) \<and> task_owned handling_time s i t))"

lemma dispatch_cases:
  assumes "dequeue_and_dispatch_object_handling_tasks valid start now finished locked p tbl = (tbl', p', r)" "queue_wf tbl"
  obtains claimed objects where "queue_wf tbl'"
    "\<forall>x \<in> set claimed. \<exists>r. row tbl x = Some r \<and> claimable now (sp_max_object_handling_time p * 3) r"
    "\<forall>j. row tbl' j = (if j \<in> set claimed then Some \<lparr>q_processed_by = Some (sp_id p), q_started_at = now\<rparr> else row tbl j)"
    "set objects \<subseteq> set claimed" "distinct objects" "length objects \<le> remaining_capacity p"
    "p' = p\<lparr>sp_object_tasks := sp_object_tasks p @ map (\<lambda>i. (i, start + sp_max_object_handling_time p)) objects\<rparr>"
proof (cases "remaining_capacity p = 0")
  case True
  with assms(1) have "tbl' = tbl" "p' = p" by (simp_all add: dequeue_and_dispatch_object_handling_tasks_def)
  with assms(2) show ?thesis by (intro that [of "[]" "[]"]) simp_all
next
  case False
  let ?T = "sp_max_object_handling_time p"
  obtain t claimed where acq: "acquire_queued_objects now locked (min (remaining_capacity p) (2 ^ 32 - 1)) (sp_id p)
      (?T * 3) tbl = (t, claimed)" by fastforce
  note spec = acquire_spec [OF assms(2) acq]
  define objects where "objects = (if finished \<ge> start + ?T then [] else filter valid claimed)"
  have "tbl' = t" "p' = p\<lparr>sp_object_tasks := sp_object_tasks p @ map (\<lambda>i. (i, start + ?T)) objects\<rparr>"
    using assms(1) False acq
    by (auto simp: dequeue_and_dispatch_object_handling_tasks_def Let_def objects_def split: if_splits)
  moreover have "\<forall>x \<in> set claimed. \<exists>r. row tbl x = Some r \<and> claimable now (?T * 3) r"
    using dequeued_ids_subset [OF assms(2)] unfolding spec(2) by blast
  moreover have "length objects \<le> length claimed" by (simp add: objects_def)
  then have "length objects \<le> remaining_capacity p" using spec(4) by simp
  moreover have "set objects \<subseteq> set claimed" "distinct objects" using spec(3) by (auto simp: objects_def)
  ultimately show ?thesis by (intro that [of claimed objects]) (use spec(1,5) in simp_all)
qed

lemma finalize_spec:
  assumes "finalize_completed_objects now p tbl = (tbl', p')" "queue_wf tbl"
  shows "queue_wf tbl'"
    "p' = (if sp_completed_objects p = [] then p else p\<lparr>sp_completed_objects := [], sp_requeue_objects := []\<rparr>)"
    "row tbl j = Some r \<Longrightarrow> \<not> (j \<in> set (sp_completed_objects p) \<and> q_processed_by r = Some (sp_id p)) \<Longrightarrow> row tbl' j = Some r"
    "sp_completed_objects p \<noteq> [] \<Longrightarrow> j \<in> set (sp_requeue_objects p) \<Longrightarrow> row tbl' j \<noteq> None"
    "sp_completed_objects p \<noteq> [] \<Longrightarrow> row tbl j = Some r \<Longrightarrow> j \<in> set (sp_completed_objects p) \<Longrightarrow>
       q_processed_by r = Some (sp_id p) \<Longrightarrow> row tbl' j =
         (if j \<in> set (sp_requeue_objects p) then Some \<lparr>q_processed_by = None, q_started_at = now\<rparr> else None)"
proof -
  let ?d = "fst (delete_queued_objects (sp_completed_objects p) (sp_id p) tbl)"
  note d = delete_queued_objects_spec [OF assms(2), of "sp_completed_objects p" "sp_id p"]
  note q = queue_objects_spec [OF d(1), of now "sp_requeue_objects p"]
  have t: "tbl' = (if sp_completed_objects p = [] then tbl else fst (queue_objects now (sp_requeue_objects p) ?d))"
    and p: "p' = (if sp_completed_objects p = [] then p else p\<lparr>sp_completed_objects := [], sp_requeue_objects := []\<rparr>)"
    using assms(1) by (auto simp: finalize_completed_objects_def split: prod.splits if_splits)
  show "queue_wf tbl'" using assms(2) q(1) by (simp add: t)
  show "p' = (if sp_completed_objects p = [] then p else p\<lparr>sp_completed_objects := [], sp_requeue_objects := []\<rparr>)" by (rule p)
  show "row tbl j = Some r \<Longrightarrow> \<not> (j \<in> set (sp_completed_objects p) \<and> q_processed_by r = Some (sp_id p)) \<Longrightarrow> row tbl' j = Some r"
    using d(2) [of j] q(2) [of j] by (auto simp: t)
  show "sp_completed_objects p \<noteq> [] \<Longrightarrow> j \<in> set (sp_requeue_objects p) \<Longrightarrow> row tbl' j \<noteq> None"
    using q(2) [of j] by (auto simp: t split: option.splits)
  show "sp_completed_objects p \<noteq> [] \<Longrightarrow> row tbl j = Some r \<Longrightarrow> j \<in> set (sp_completed_objects p) \<Longrightarrow>
      q_processed_by r = Some (sp_id p) \<Longrightarrow> row tbl' j =
        (if j \<in> set (sp_requeue_objects p) then Some \<lparr>q_processed_by = None, q_started_at = now\<rparr> else None)"
    using d(2) [of j] q(2) [of j] by (auto simp: t)
qed

lemma site_step_config: "site_step valid strict s s' \<Longrightarrow> site_config m T s \<Longrightarrow> site_config m T s'"
proof (induction rule: site_step.induct)
  case (enqueue s ids)
  then show ?case by (simp add: site_config_def queue_objects_spec)
next
  case (dispatch start s finished i locked tbl p r)
  then have wf: "queue_wf (st_table s)" by (simp add: site_config_def)
  show ?case
  proof (rule dispatch_cases [OF dispatch(4) wf])
    fix claimed objects
    assume "queue_wf tbl" "length objects \<le> remaining_capacity (st_processors s i)"
      "p = st_processors s i\<lparr>sp_object_tasks := sp_object_tasks (st_processors s i) @
        map (\<lambda>x. (x, start + sp_max_object_handling_time (st_processors s i))) objects\<rparr>"
    moreover from this have "length (sp_object_tasks (st_processors s i)) + length objects \<le> m"
      using dispatch.prems by (simp add: site_config_def remaining_capacity_def le_diff_conv2 add.commute)
    ultimately show ?thesis using dispatch.prems by (simp add: site_config_def)
  qed
next
  case (complete task s i allow_requeue again)
  then show ?case
    by (auto simp: site_config_def process_object_handling_task_result_def intro: le_trans [OF length_remove1_le])
next
  case (finalize s i tbl p)
  then have "queue_wf (st_table s)" by (simp add: site_config_def)
  from finalize_spec(1,2) [OF finalize(1) this] finalize.prems show ?case by (auto simp: site_config_def)
qed (auto simp: site_config_def)

lemma task_owned_frame:
  assumes "task_owned T s i t" "st_now s \<le> st_now s'"
    "\<And>r. row (st_table s) (fst t) = Some r \<Longrightarrow> q_processed_by r = Some i \<Longrightarrow> snd t \<le> q_started_at r + T \<Longrightarrow>
       st_now s \<le> snd t + 2 * T \<Longrightarrow> row (st_table s') (fst t) = Some r"
  shows "task_owned T s' i t"
  using assms unfolding task_owned_def by force

lemma owned_dispatch:
  assumes own: "site_owned T s" and cfg: "site_config m T s" and T: "0 \<le> T"
    and le: "start \<le> st_now s" "st_now s \<le> finished" and pr: "prompt (st_now s) (st_processors s i)"
    and eq: "dequeue_and_dispatch_object_handling_tasks valid start (st_now s) finished locked (st_processors s i)
      (st_table s) = (tbl, p, r)"
  shows "site_owned T (s\<lparr>st_now := finished, st_table := tbl, st_processors := (st_processors s)(i := p)\<rparr>)"
    (is "site_owned T ?s'")
proof -
  let ?p = "st_processors s i"
  have wf: "queue_wf (st_table s)" and conf: "sp_id ?p = i" "sp_max_object_handling_time ?p = T"
    using cfg by (simp_all add: site_config_def)
  show ?thesis
  proof (rule dispatch_cases [OF eq wf], unfold conf)
    fix claimed objects
    assume cl: "\<forall>x \<in> set claimed. \<exists>r. row (st_table s) x = Some r \<and> claimable (st_now s) (T * 3) r"
      and row: "\<forall>j. row tbl j = (if j \<in> set claimed then Some \<lparr>q_processed_by = Some i, q_started_at = st_now s\<rparr>
        else row (st_table s) j)"
      and ob: "set objects \<subseteq> set claimed" "distinct objects"
      and p: "p = ?p\<lparr>sp_object_tasks := sp_object_tasks ?p @ map (\<lambda>x. (x, start + T)) objects\<rparr>"
    have free: "fst t \<notin> set claimed" if "t \<in> set (sp_object_tasks (st_processors s j))" "st_now s \<le> snd t + 2 * T" for j t
      using that own cl T by (fastforce simp: site_owned_def task_owned_def claimable_def)
    have old: "task_owned T ?s' j t" if "t \<in> set (sp_object_tasks (st_processors s j))" for j t
      by (rule task_owned_frame [of T s]) (use that own le row free [OF that] in \<open>auto simp: site_owned_def\<close>)
    have new: "task_owned T ?s' i (x, start + T)" if "x \<in> set objects" for x
      using that ob row le T by (auto simp: task_owned_def)
    have "fst ` set (sp_object_tasks ?p) \<inter> set objects = {}"
      using free [of _ i] pr ob conf by (auto simp: prompt_def)
    then have "distinct (map fst (sp_object_tasks p))"
      using own ob by (auto simp: p site_owned_def comp_def)
    with old new own pr show ?thesis by (auto simp: site_owned_def p prompt_def)
  qed
qed

lemma owned_complete:
  assumes "site_owned T s" "task \<in> set (sp_object_tasks (st_processors s i))"
  shows "site_owned T (s\<lparr>st_processors := (st_processors s)(i :=
    process_object_handling_task_result allow_requeue task again (st_processors s i))\<rparr>)"
proof -
  have d: "distinct (map fst (sp_object_tasks (st_processors s i)))" using assms(1) by (simp add: site_owned_def)
  then have "distinct (sp_object_tasks (st_processors s i))" by (simp add: distinct_map)
  moreover have "fst t \<noteq> fst task" if "t \<in> set (sp_object_tasks (st_processors s i))" "t \<noteq> task" for t
    using d that assms(2) by (auto simp: distinct_map dest: inj_onD)
  moreover have "distinct (map fst (remove1 task (sp_object_tasks (st_processors s i))))"
    using d by (auto simp: distinct_map intro: inj_on_diff)
  ultimately show ?thesis
    using assms(1) by (auto simp: site_owned_def process_object_handling_task_result_def task_owned_def)
qed

lemma site_step_owned:
  "site_step valid True s s' \<Longrightarrow> site_config m T s \<Longrightarrow> 0 \<le> T \<Longrightarrow> site_owned T s \<Longrightarrow> site_owned T s'"
proof (induction rule: site_step.induct)
  case (tick d s)
  then show ?case by (force simp: site_owned_def task_owned_def)
next
  case (enqueue s ids)
  then have "row (fst (queue_objects (st_now s) ids (st_table s))) j = Some r" if "row (st_table s) j = Some r" for j r
    using that by (simp add: site_config_def queue_objects_spec)
  with enqueue show ?case by (fastforce simp: site_owned_def task_owned_def)
next
  case (dispatch start s finished i locked tbl p r)
  then show ?case by (intro owned_dispatch) auto
next
  case (complete task s i allow_requeue again)
  then show ?case by (intro owned_complete)
next
  case (finalize s i tbl p)
  then have wf: "queue_wf (st_table s)" and i: "sp_id (st_processors s i) = i" by (simp_all add: site_config_def)
  note f = finalize_spec [OF finalize(1) wf, unfolded i]
  let ?s' = "s\<lparr>st_table := tbl, st_processors := (st_processors s)(i := p)\<rparr>"
  have "task_owned T ?s' j t" if t: "t \<in> set (sp_object_tasks (st_processors s j))" for j t
  proof (rule task_owned_frame [of T s])
    fix r assume "row (st_table s) (fst t) = Some r" "q_processed_by r = Some j"
    moreover have "j = i \<Longrightarrow> fst t \<notin> set (sp_completed_objects (st_processors s i))"
      using t finalize.prems(3) by (auto simp: site_owned_def)
    ultimately show "row (st_table ?s') (fst t) = Some r" using f(3) [of "fst t" r] by auto
  qed (use t finalize.prems in \<open>auto simp: site_owned_def\<close>)
  with finalize.prems show ?case by (auto simp: site_owned_def f(2))
next
  case (crash s i)
  then show ?case by (auto simp: site_owned_def task_owned_def)
qed

lemma site_reachable:
  assumes "(site_step valid True)\<^sup>*\<^sup>* (site_init m T) s" "0 \<le> T"
  shows "site_config m T s \<and> site_owned T s"
  using assms(1)
proof (induction rule: rtranclp_induct)
  case base
  then show ?case by (simp add: site_init_def site_config_def site_owned_def idle_processor_def queue_wf_def)
next
  case (step s s')
  with site_step_config site_step_owned assms(2) show ?case by blast
qed

lemma site_reachable_config:
  "(site_step valid strict)\<^sup>*\<^sup>* (site_init m T) s \<Longrightarrow> site_config m T s"
proof (induction rule: rtranclp_induct)
  case base
  then show ?case by (simp add: site_init_def site_config_def idle_processor_def queue_wf_def)
qed (rule site_step_config)

lemma sort_key_take_le:
  assumes "x \<in> set (take n (sort_key f xs))" "y \<in> set (drop n (sort_key f xs))"
  shows "f x \<le> f y"
proof -
  have "sorted (map f (take n (sort_key f xs) @ drop n (sort_key f xs)))" by simp
  then show ?thesis using assms unfolding map_append sorted_append by auto
qed

section \<open>Properties\<close>

text \<open>
  C1: only one processor works on an object. In every reachable state of a site whose
  processors finalize before they claim again and collect their results in time, two tasks
  within their deadline that handle the same object are the same task of the same processor,
  whatever the interleaving of claims, results, requeues, enqueues, crashes and the clock.
\<close>

theorem one_processor_per_object:
  assumes "(site_step valid True)\<^sup>*\<^sup>* (site_init m T) s" "0 \<le> T"
    and "(x, d) \<in> set (sp_object_tasks (st_processors s i))" "st_now s \<le> d"
    and "(x, e) \<in> set (sp_object_tasks (st_processors s j))" "st_now s \<le> e"
  shows "i = j \<and> d = e"
proof -
  have own: "site_owned T s" using site_reachable assms(1,2) by blast
  then have "task_owned T s i (x, d)" "task_owned T s j (x, e)" using assms(3,5) by (auto simp: site_owned_def)
  then have "i = j" using assms by (auto simp: task_owned_def)
  moreover have "distinct (map fst (sp_object_tasks (st_processors s i)))" using own by (simp add: site_owned_def)
  ultimately show ?thesis using assms(3,5) eq_key_imp_eq_value by fastforce
qed

definition one_claim :: site where
  "one_claim = \<lparr>st_now = 0, st_table = [(''a'', \<lparr>q_processed_by = Some ''p'', q_started_at = 0\<rparr>)],
     st_processors = (idle_processor 2 1)(''p'' := (idle_processor 2 1 ''p'')\<lparr>sp_object_tasks := [(''a'', 1)]\<rparr>)\<rparr>"

definition one_enqueued :: site where
  "one_enqueued = \<lparr>st_now = 0, st_table = [(''a'', \<lparr>q_processed_by = None, q_started_at = 0\<rparr>)],
     st_processors = idle_processor 2 1\<rparr>"

lemma queue_one: "queue_objects t [''a''] [] = ([(''a'', \<lparr>q_processed_by = None, q_started_at = t\<rparr>)], 1)"
  by (simp add: queue_objects_def fold_chunks [OF objects_per_query_pos] insert_row_def)

lemma reach_enqueued: "site_step valid strict (site_init 2 1) one_enqueued"
  using site_step.enqueue [of valid strict "site_init 2 1" "[''a'']"]
  by (simp add: site_init_def queue_one one_enqueued_def)

lemma reach_claim: "site_step (\<lambda>_. True) strict one_enqueued one_claim"
  using site_step.dispatch [of 0 one_enqueued 0 strict "''p''" "\<lambda>_. True" "{}"]
  by (simp add: one_enqueued_def one_claim_def idle_processor_def prompt_def remaining_capacity_def
      dequeue_and_dispatch_object_handling_tasks_def acquire_queued_objects_def dequeued_ids_def claimable_def)

theorem one_processor_per_object_witness:
  "(site_step (\<lambda>_. True) True)\<^sup>*\<^sup>* (site_init 2 1) one_claim \<and>
   {(j, e). (''a'', e) \<in> set (sp_object_tasks (st_processors one_claim j)) \<and> 0 \<le> e} = {(''p'', 1)}"
proof -
  have r: "(site_step (\<lambda>_. True) True)\<^sup>*\<^sup>* (site_init 2 1) one_claim"
    by (rule converse_rtranclp_into_rtranclp, rule reach_enqueued, rule r_into_rtranclp, rule reach_claim)
  have u: "j = ''p'' \<and> e = 1" if "(''a'', e) \<in> set (sp_object_tasks (st_processors one_claim j))" "0 \<le> e" for j e
    using one_processor_per_object [OF r, of "''a''" 1 "''p''" e j] that by (simp add: one_claim_def)
  have m: "(''a'', 1) \<in> set (sp_object_tasks (st_processors one_claim ''p''))" by (simp add: one_claim_def)
  show ?thesis
  proof (rule conjI [OF r], rule set_eqI)
    fix q :: "string \<times> int"
    show "q \<in> {(j, e). (''a'', e) \<in> set (sp_object_tasks (st_processors one_claim j)) \<and> 0 \<le> e} \<longleftrightarrow> q \<in> {(''p'', 1)}"
      using u [of "snd q" "fst q"] m by (cases q) (simp, rule iffI, simp_all)
  qed
qed

text \<open>
  C30: no processor ever has more object handling tasks than \<open>max_concurrency\<close>, also when
  finalizations fail, and the object ids of the queue stay distinct.
\<close>

theorem tasks_within_concurrency:
  "(site_step valid strict)\<^sup>*\<^sup>* (site_init m T) s \<Longrightarrow>
   length (sp_object_tasks (st_processors s i)) \<le> m \<and> distinct (map fst (st_table s))"
  using site_reachable_config [of valid strict m T s] by (simp add: site_config_def queue_wf_def)

theorem tasks_within_concurrency_witness:
  "length (sp_object_tasks (st_processors one_claim ''p'')) \<le> 2 \<and> distinct (map fst (st_table one_claim))"
proof -
  have "(site_step (\<lambda>_. True) False)\<^sup>*\<^sup>* (site_init 2 1) one_claim"
    by (rule converse_rtranclp_into_rtranclp, rule reach_enqueued, rule r_into_rtranclp, rule reach_claim)
  then show ?thesis by (rule tasks_within_concurrency)
qed



text \<open>
  C24: \<open>finalize_completed_objects\<close> gives back exactly what is done. The row of a completed object
  that still belongs to the processor is removed, or replaced by a fresh unclaimed row when
  another pass was asked for; a row that meanwhile belongs to another processor is left alone;
  an object to be requeued is in the queue afterwards in any case.
\<close>

theorem finalize_releases:
  assumes "distinct (map fst tbl)" "sp_completed_objects p \<noteq> []" "finalize_completed_objects now p tbl = (tbl', p')"
  shows "sp_completed_objects p' = [] \<and> sp_requeue_objects p' = [] \<and> sp_object_tasks p' = sp_object_tasks p \<and>
    (\<forall>x r. row tbl x = Some r \<longrightarrow> row tbl' x =
      (if x \<in> set (sp_completed_objects p) \<and> q_processed_by r = Some (sp_id p)
       then (if x \<in> set (sp_requeue_objects p) then Some \<lparr>q_processed_by = None, q_started_at = now\<rparr> else None)
       else Some r)) \<and>
    (\<forall>x \<in> set (sp_requeue_objects p). row tbl' x \<noteq> None)"
proof -
  have "queue_wf tbl" using assms(1) by (simp add: queue_wf_def)
  note f = finalize_spec [OF assms(3) this]
  show ?thesis using f(2) assms(2) f(3-5) by auto
qed

theorem finalize_releases_witness:
  "row (fst (finalize_completed_objects 7 ((idle_processor 2 1 ''p'')\<lparr>sp_completed_objects := [''a''],
       sp_requeue_objects := [''a'']\<rparr>) [(''a'', \<lparr>q_processed_by = Some ''p'', q_started_at = 0\<rparr>)])) ''a'' =
   Some \<lparr>q_processed_by = None, q_started_at = 7\<rparr>"
proof -
  let ?p = "(idle_processor 2 1 ''p'')\<lparr>sp_completed_objects := [''a''], sp_requeue_objects := [''a'']\<rparr>"
    and ?tbl = "[(''a'', \<lparr>q_processed_by = Some ''p'', q_started_at = 0\<rparr>)]"
  obtain t q where f: "finalize_completed_objects 7 ?p ?tbl = (t, q)" by fastforce
  show ?thesis using finalize_releases [OF _ _ f] f by (simp add: idle_processor_def row_def)
qed

text \<open>A run in which the finalization of \<open>p\<close> fails until its claim has lapsed.\<close>

definition lapsed :: "int \<Rightarrow> int \<Rightarrow> (string \<times> int) list \<Rightarrow> site" where
  "lapsed now started tasks = \<lparr>st_now = now, st_table = [(''a'', \<lparr>q_processed_by = Some ''p'', q_started_at = started\<rparr>)],
     st_processors = (idle_processor 2 1)(''p'' := (idle_processor 2 1 ''p'')\<lparr>sp_object_tasks := tasks,
       sp_completed_objects := [''a''], sp_requeue_objects := [''a'']\<rparr>)\<rparr>"

definition released :: site where
  "released = \<lparr>st_now = 4, st_table = [(''a'', \<lparr>q_processed_by = None, q_started_at = 4\<rparr>)],
     st_processors = (idle_processor 2 1)(''p'' := (idle_processor 2 1 ''p'')\<lparr>sp_object_tasks := [(''a'', 5)]\<rparr>)\<rparr>"

definition shared :: site where
  "shared = \<lparr>st_now = 4, st_table = [(''a'', \<lparr>q_processed_by = Some ''q'', q_started_at = 4\<rparr>)],
     st_processors = (st_processors released)(''q'' := (idle_processor 2 1 ''q'')\<lparr>sp_object_tasks := [(''a'', 5)]\<rparr>)\<rparr>"

lemmas run_defs = one_claim_def lapsed_def released_def shared_def idle_processor_def
  prompt_def remaining_capacity_def dequeue_and_dispatch_object_handling_tasks_def
  acquire_queued_objects_def dequeued_ids_def claimable_def Let_def

lemma reach_done: "site_step valid strict one_claim (lapsed 0 0 [])"
  using site_step.complete [of "(''a'', 1)" one_claim "''p''" valid strict True True]
  by (simp add: run_defs process_object_handling_task_result_def)

lemma reach_lapsed: "site_step valid strict (lapsed 0 0 []) (lapsed 4 0 [])"
  using site_step.tick [of 4 valid strict "lapsed 0 0 []"] by (simp add: run_defs)

lemma reach_again: "site_step (\<lambda>_. True) False (lapsed 4 0 []) (lapsed 4 4 [(''a'', 5)])"
  using site_step.dispatch [of 4 "lapsed 4 0 []" 4 False "''p''" "\<lambda>_. True" "{}"] by (simp add: run_defs)

lemma reach_released: "site_step valid strict (lapsed 4 4 [(''a'', 5)]) released"
  using site_step.finalize [of "lapsed 4 4 [(''a'', 5)]" "''p''" "st_table released" "st_processors released ''p''" valid strict]
  by (simp add: run_defs finalize_completed_objects_def delete_queued_objects_def chunks.simps delete_rows_def queue_one
      OBJECTS_PER_QUERY_def BIND_LIMIT_def)

lemma reach_shared: "site_step (\<lambda>_. True) False released shared"
  using site_step.dispatch [of 4 released 4 False "''q''" "\<lambda>_. True" "{}"] by (simp add: run_defs)


end
