(* ===== verification/Ip_Text.thy ===== *)
theory Ip_Text
  imports Prelude
begin

text \<open>
  The text forms of numbers and addresses in the standard library that pools store their values in:
  \<open>from_str_radix\<close>, and \<open>Display\<close> and \<open>FromStr\<close> of \<open>Ipv4Addr\<close> and \<open>Ipv6Addr\<close>.
\<close>

section \<open>Numbers\<close>

definition digit_in :: "nat \<Rightarrow> char \<Rightarrow> nat option" where
  "digit_in radix c =
     (let n = (of_char c :: nat);
          d = (if 48 \<le> n \<and> n \<le> 57 then n - 48
               else if 97 \<le> n \<and> n \<le> 122 then n - 87
               else if 65 \<le> n \<and> n \<le> 90 then n - 55 else radix)
      in if d < radix then Some d else None)"

text \<open>The digits from the left; the number may not exceed \<open>lim\<close> after any of them. The error is its text.\<close>

fun digits_in :: "nat \<Rightarrow> string \<Rightarrow> nat \<Rightarrow> nat \<Rightarrow> string \<Rightarrow> string + nat" where
  "digits_in radix overflow lim acc [] = Inr acc"
| "digits_in radix overflow lim acc (c # cs) =
     (case digit_in radix c of
        None \<Rightarrow> Inl ''invalid digit found in string''
      | Some d \<Rightarrow> if radix * acc + d > lim then Inl overflow else digits_in radix overflow lim (radix * acc + d) cs)"

text \<open>\<open>from_str_radix\<close> of an integer type with values from \<open>lo\<close> to \<open>hi\<close>; unsigned types take no minus sign.\<close>

definition from_str_radix :: "int \<Rightarrow> int \<Rightarrow> nat \<Rightarrow> string \<Rightarrow> string + int" where
  "from_str_radix lo hi radix s =
     (case s of
        [] \<Rightarrow> Inl ''cannot parse integer from empty string''
      | c # cs \<Rightarrow>
          (let (neg, ds) = (if c = CHR ''-'' \<and> lo < 0 then (True, cs) else if c = CHR ''+'' then (False, cs) else (False, s))
           in if ds = [] then Inl ''invalid digit found in string''
              else if neg then
                map_sum id (\<lambda>n. - int n) (digits_in radix ''number too small to fit in target type'' (nat (- lo)) 0 ds)
              else map_sum id int (digits_in radix ''number too large to fit in target type'' (nat hi) 0 ds)))"

definition to_lowercase :: "string \<Rightarrow> string" where
  "to_lowercase s = map (\<lambda>c. let n = (of_char c :: nat) in if 65 \<le> n \<and> n \<le> 90 then char_of (n + 32) else c) s"

fun trim_start_matches :: "string \<Rightarrow> string \<Rightarrow> string" where
  "trim_start_matches pat s =
     (if pat \<noteq> [] \<and> s \<noteq> [] \<and> take (length pat) s = pat then trim_start_matches pat (drop (length pat) s) else s)"

declare trim_start_matches.simps [simp del]

lemma digit_in_10: "digit_in 10 c = (if is_digit c then Some (digit_val c) else None)"
  by (auto simp: digit_in_def is_digit_def digit_val_def Let_def)

lemma digits_in_append:
  "digits_in r e lim acc (xs @ ys) = (case digits_in r e lim acc xs of Inl e \<Rightarrow> Inl e | Inr a \<Rightarrow> digits_in r e lim a ys)"
  by (induction xs arbitrary: acc) (simp_all split: option.split)

lemma digits_in_show: "n \<le> lim \<Longrightarrow> digits_in 10 e lim 0 (show_nat n) = Inr n"
proof (induction n rule: show_nat.induct)
  case (1 n)
  then show ?case
    by (cases "n < 10") (simp_all add: show_nat.simps [of n] digits_in_append digit_in_10)
qed

lemma from_str_radix_show:
  assumes "lo \<le> v" "v \<le> hi"
  shows "from_str_radix lo hi 10 (show_int v) = Inr v"
proof (cases "v < 0")
  case True
  then show ?thesis using assms digits_in_show [of "nat (- v)" "nat (- lo)"] by (simp add: from_str_radix_def show_int_def)
next
  case False
  obtain c cs where c: "show_nat (nat v) = c # cs" by (meson neq_Nil_conv show_nat_nonempty)
  have "is_digit c" using show_nat_hd_digit [of "nat v"] c by simp
  then have "c \<noteq> CHR ''-''" "c \<noteq> CHR ''+''" by (auto simp: is_digit_def)
  then have "from_str_radix lo hi 10 (show_nat (nat v)) =
      map_sum id int (digits_in 10 ''number too large to fit in target type'' (nat hi) 0 (show_nat (nat v)))"
    unfolding c by (simp add: from_str_radix_def)
  then show ?thesis using False assms digits_in_show [of "nat v" "nat hi"] by (simp add: show_int_def)
qed

section \<open>IPv4 addresses\<close>

definition octets :: "u32 \<Rightarrow> nat list" where
  "octets a = map (\<lambda>k. unat (drop_bit k a) mod 256) [24, 16, 8, 0]"

definition show_ipv4 :: "u32 \<Rightarrow> string" where
  "show_ipv4 a = join ''.'' (map show_nat (octets a))"

text \<open>One octet: one to three digits, no leading zero, at most 255.\<close>

definition parse_octet :: "string \<Rightarrow> nat option" where
  "parse_octet s =
     (if s = [] \<or> length s > 3 \<or> (hd s = CHR ''0'' \<and> length s > 1) then None
      else case parse_dec 0 s of Some n \<Rightarrow> if n \<le> 255 then Some n else None | None \<Rightarrow> None)"

definition parse_ipv4 :: "string \<Rightarrow> string + u32" where
  "parse_ipv4 s =
     (case split_on (CHR ''.'') s of
        [a, b, c, d] \<Rightarrow>
          (case (parse_octet a, parse_octet b, parse_octet c, parse_octet d) of
             (Some a, Some b, Some c, Some d) \<Rightarrow> Inr (word_of_nat (((a * 256 + b) * 256 + c) * 256 + d))
           | _ \<Rightarrow> Inl ''invalid IPv4 address syntax'')
      | _ \<Rightarrow> Inl ''invalid IPv4 address syntax'')"

section \<open>IPv6 addresses\<close>

definition segments :: "u128 \<Rightarrow> nat list" where
  "segments a = map (\<lambda>k. unat (drop_bit k a) mod 65536) [112, 96, 80, 64, 48, 32, 16, 0]"

definition of_segments :: "nat list \<Rightarrow> u128" where
  "of_segments gs = word_of_nat (foldl (\<lambda>acc g. acc * 65536 + g) 0 gs)"

fun show_hex :: "nat \<Rightarrow> string" where
  "show_hex n =
     (let d = (\<lambda>k. char_of (if k < 10 then 48 + k else 87 + k))
      in if n < 16 then [d n] else show_hex (n div 16) @ [d (n mod 16)])"

declare show_hex.simps [simp del]

text \<open>The first longest run of zero segments: its start and length.\<close>

fun longest_zeros :: "nat \<Rightarrow> nat \<times> nat \<Rightarrow> nat \<times> nat \<Rightarrow> nat list \<Rightarrow> nat \<times> nat" where
  "longest_zeros i cur best [] = best"
| "longest_zeros i cur best (g # gs) =
     (if g = 0 then
        (let cur = (if snd cur = 0 then (i, 1) else (fst cur, Suc (snd cur)))
         in longest_zeros (Suc i) cur (if snd cur > snd best then cur else best) gs)
      else longest_zeros (Suc i) (0, 0) best gs)"

definition show_ipv6 :: "u128 \<Rightarrow> string" where
  "show_ipv6 a =
     (let gs = segments a; hex = (\<lambda>gs. join '':'' (map show_hex gs))
      in if take 6 gs = [0, 0, 0, 0, 0, 65535] then ''::ffff:'' @ show_ipv4 (ucast a)
         else (let (start, len) = longest_zeros 0 (0, 0) (0, 0) gs
               in if len > 1 then hex (take start gs) @ ''::'' @ hex (drop (start + len) gs) else hex gs))"

text \<open>Up to four hexadecimal digits from the front; the rest of the text.\<close>

fun read_hex :: "nat \<Rightarrow> nat \<Rightarrow> string \<Rightarrow> nat \<times> nat \<times> string" where
  "read_hex n acc [] = (n, acc, [])"
| "read_hex n acc (c # cs) =
     (case digit_in 16 c of None \<Rightarrow> (n, acc, c # cs) | Some d \<Rightarrow> read_hex (Suc n) (16 * acc + d) cs)"

definition read_group :: "string \<Rightarrow> (nat \<times> string) option" where
  "read_group s = (case read_hex 0 0 s of (n, v, rest) \<Rightarrow> if n = 0 \<or> n > 4 then None else Some (v, rest))"

text \<open>An embedded IPv4 address at the front: the longest run of digits and dots.\<close>

definition read_ipv4 :: "string \<Rightarrow> (u32 \<times> string) option" where
  "read_ipv4 s =
     (let p = (\<lambda>c. is_digit c \<or> c = CHR ''.'')
      in case parse_ipv4 (takeWhile p s) of Inr v \<Rightarrow> Some (v, dropWhile p s) | Inl _ \<Rightarrow> None)"

definition separated :: "nat \<Rightarrow> string \<Rightarrow> string option" where
  "separated i s = (if i = 0 then Some s else case s of c # cs \<Rightarrow> if c = CHR '':'' then Some cs else None | [] \<Rightarrow> None)"

text \<open>\<open>read_groups\<close>: the groups read, whether they end in an IPv4 address, and the rest.\<close>

fun read_groups :: "nat \<Rightarrow> nat \<Rightarrow> nat list \<Rightarrow> string \<Rightarrow> nat list \<times> bool \<times> string" where
  "read_groups 0 i gs s = (gs, False, s)"
| "read_groups (Suc left) i gs s =
     (case (if left > 0 then Option.bind (separated i s) read_ipv4 else None) of
        Some (v, rest) \<Rightarrow> (gs @ [unat v div 65536, unat v mod 65536], True, rest)
      | None \<Rightarrow>
          (case Option.bind (separated i s) read_group of
             Some (g, rest) \<Rightarrow> read_groups left (Suc i) (gs @ [g]) rest
           | None \<Rightarrow> (gs, False, s)))"

definition parse_ipv6 :: "string \<Rightarrow> string + u128" where
  "parse_ipv6 s =
     (let err = Inl ''invalid IPv6 address syntax''
      in case read_groups 8 0 [] s of (head, head_ipv4, rest) \<Rightarrow>
           if length head = 8 then (if rest = [] then Inr (of_segments head) else err)
           else if head_ipv4 \<or> take 2 rest \<noteq> ''::'' then err
           else (case read_groups (8 - (length head + 1)) 0 [] (drop 2 rest) of (tail, _, rest) \<Rightarrow>
             if rest = [] then Inr (of_segments (head @ replicate (8 - length head - length tail) 0 @ tail)) else err))"

end
