(* ===== verification/Handler_Outcome.thy ===== *)
theory Handler_Outcome
  imports Prelude
begin

text \<open>
  What a state handler returns: outcomes and errors (\<open>crates/state-controller/src/state_handler.rs\<close>),
  what is stored of them (\<open>crates/api-model/src/controller_outcome.rs\<close>), conditional writes
  (\<open>crates/api-db/src/conditional_write.rs\<close>, \<open>crates/state-controller/src/conditional_write.rs\<close>) and
  the batch of writes a handler queues (\<open>db_write_batch.rs\<close>).

  The database is a type variable. A transaction is the working copy it would commit, so an
  outcome that carries a transaction carries that copy. Payloads of errors that belong to other
  packages are their displayed text.
\<close>

section \<open>Outcomes\<close>

record location =
  loc_file :: string
  loc_line :: nat
  loc_column :: nat

definition show_location :: "location \<Rightarrow> string" where
  "show_location l = loc_file l @ '':'' @ show_nat (loc_line l) @ '':'' @ show_nat (loc_column l)"

datatype ('s, 'db) state_handler_outcome =
    Wait string location "'db option"
  | Transition 's location "'db option"
  | DoNothing location "'db option"
  | Deleted location "'db option"

fun outcome_txn :: "('s, 'db) state_handler_outcome \<Rightarrow> 'db option" where
  "outcome_txn (Wait _ _ txn) = txn"
| "outcome_txn (Transition _ _ txn) = txn"
| "outcome_txn (DoNothing _ txn) = txn"
| "outcome_txn (Deleted _ txn) = txn"

fun replace_txn :: "'db option \<Rightarrow> ('s, 'db) state_handler_outcome \<Rightarrow> ('s, 'db) state_handler_outcome" where
  "replace_txn t (Wait reason source_ref _) = Wait reason source_ref t"
| "replace_txn t (Transition next_state source_ref _) = Transition next_state source_ref t"
| "replace_txn t (DoNothing source_ref _) = DoNothing source_ref t"
| "replace_txn t (Deleted source_ref _) = Deleted source_ref t"

definition take_transaction ::
    "('s, 'db) state_handler_outcome \<Rightarrow> 'db option \<times> ('s, 'db) state_handler_outcome" where
  "take_transaction o1 = (outcome_txn o1, replace_txn None o1)"

text \<open>\<open>None\<close> is the failed \<open>debug_assert\<close> of a build with debug assertions.\<close>

definition with_txn_opt ::
    "bool \<Rightarrow> ('s, 'db) state_handler_outcome \<Rightarrow> 'db option \<Rightarrow> ('s, 'db) state_handler_outcome option" where
  "with_txn_opt debug o1 txn =
     (if debug \<and> fst (take_transaction o1) \<noteq> None then None else Some (replace_txn txn o1))"

definition with_txn ::
    "bool \<Rightarrow> ('s, 'db) state_handler_outcome \<Rightarrow> 'db \<Rightarrow> ('s, 'db) state_handler_outcome option" where
  "with_txn debug o1 txn = with_txn_opt debug o1 (Some txn)"

definition do_nothing :: "location \<Rightarrow> ('s, 'db) state_handler_outcome" where
  "do_nothing caller = DoNothing caller None"

definition transition :: "location \<Rightarrow> 's \<Rightarrow> ('s, 'db) state_handler_outcome" where
  "transition caller next_state = Transition next_state caller None"

definition wait :: "location \<Rightarrow> string \<Rightarrow> ('s, 'db) state_handler_outcome" where
  "wait caller reason = Wait reason caller None"

definition deleted :: "location \<Rightarrow> ('s, 'db) state_handler_outcome" where
  "deleted caller = Deleted caller None"

text \<open>\<open>in_transaction\<close>: the outer error is that of \<open>begin\<close>, the inner one that of the closure.\<close>

definition in_transaction ::
    "(string + 'db) \<Rightarrow> ('db \<Rightarrow> 'e + 'db) \<Rightarrow> ('s, 'db) state_handler_outcome
     \<Rightarrow> string + ('e + ('s, 'db) state_handler_outcome)" where
  "in_transaction begin_result f o1 =
     (case (case outcome_txn o1 of Some txn \<Rightarrow> Inr txn | None \<Rightarrow> begin_result) of
        Inl e \<Rightarrow> Inl e
      | Inr txn \<Rightarrow> (case f txn of Inl e \<Rightarrow> Inr (Inl e) | Inr txn' \<Rightarrow> Inr (Inr (replace_txn (Some txn') o1))))"

fun show_outcome :: "('s, 'db) state_handler_outcome \<Rightarrow> string" where
  "show_outcome (Wait reason _ _) = reason"
| "show_outcome (Transition _ _ _) = ''Transition to next state''"
| "show_outcome (DoNothing _ _) = ''Do nothing''"
| "show_outcome (Deleted _ _) = ''Deleted''"

section \<open>Errors\<close>

record external_service_error =
  es_service :: string
  es_operation :: string
  es_details :: string
  es_metric_label :: string
  es_source :: "string option"

definition external_service_error_new ::
    "string \<Rightarrow> string \<Rightarrow> string \<Rightarrow> string \<Rightarrow> external_service_error" where
  "external_service_error_new service operation details label =
     \<lparr>es_service = service, es_operation = operation, es_details = details, es_metric_label = label, es_source = None\<rparr>"

definition external_service_error_with_source ::
    "string \<Rightarrow> string \<Rightarrow> string \<Rightarrow> string \<Rightarrow> string \<Rightarrow> external_service_error" where
  "external_service_error_with_source service operation details label source =
     \<lparr>es_service = service, es_operation = operation, es_details = details, es_metric_label = label,
      es_source = Some source\<rparr>"

definition show_external_service_error :: "external_service_error \<Rightarrow> string" where
  "show_external_service_error e =
     (if es_operation e = []
      then ''Failed '' @ es_service e @ '' operation. Details: '' @ es_details e @ ''.''
      else ''Failed '' @ es_service e @ '' operation: '' @ es_operation e @ ''. Details: '' @ es_details e @ ''.'')"

datatype state_handler_error =
    IterationInvalidated location
  | TransactionError string
  | GenericError string
  | MissingData string string
  | DBError string
  | PoolReleaseError string
  | InvalidHostState string string
  | ExternalServiceError external_service_error
  | Timeout string string
  | FirmwareUpdateError string
  | ManualInterventionRequired string
  | InvalidHandlerState string
  | HealthProbeAlert
  | TimeInStateAboveSla string
  | ResourceCleanupError string string
  | SpdmError string
  | InvalidHostMachineId location string

fun show_error :: "state_handler_error \<Rightarrow> string" where
  "show_error (IterationInvalidated source_ref) = ''controller iteration invalidated at '' @ show_location source_ref"
| "show_error (TransactionError e) = ''unable to perform database transaction: '' @ e"
| "show_error (GenericError e) = ''failed to advance state: '' @ e"
| "show_error (MissingData object_id missing) =
     ''state for object '' @ object_id @ '' can not be advanced. missing data: '' @ missing"
| "show_error (DBError e) = e"
| "show_error (PoolReleaseError e) = ''error releasing from resource pool: '' @ e"
| "show_error (InvalidHostState machine state) = ''invalid host state '' @ state @ '' for machine '' @ machine"
| "show_error (ExternalServiceError e) = show_external_service_error e"
| "show_error (Timeout object_id state) =
     ''the state handler for object '' @ object_id @ '' in state \"'' @ state @ ''\" timed out''"
| "show_error (FirmwareUpdateError e) = ''failed to update firmware: '' @ e"
| "show_error (ManualInterventionRequired e) = ''manual intervention required. cannot make progress. '' @ e"
| "show_error (InvalidHandlerState e) = ''invalid state: '' @ e"
| "show_error HealthProbeAlert = ''state will not be advanced due to health probe alert''"
| "show_error (TimeInStateAboveSla handler_outcome) =
     ''the object is in the state for longer than defined by the SLA. handler outcome: '' @ handler_outcome"
| "show_error (ResourceCleanupError resource e) = ''resource '' @ resource @ '' cleanup error: '' @ e"
| "show_error (SpdmError e) = ''spdm error: '' @ e"
| "show_error (InvalidHostMachineId l e) = ''bug: invalid machine ID at '' @ show_location l @ '': '' @ e"

fun metric_label :: "state_handler_error \<Rightarrow> string" where
  "metric_label (IterationInvalidated _) = ''iteration_invalidated''"
| "metric_label (TransactionError _) = ''transaction_error''"
| "metric_label (GenericError _) = ''generic_error''"
| "metric_label (FirmwareUpdateError _) = ''firware_update_error''"
| "metric_label (MissingData _ _) = ''missing_data''"
| "metric_label (DBError _) = ''db_error''"
| "metric_label (Timeout _ _) = ''timeout''"
| "metric_label (PoolReleaseError _) = ''pool_release_error''"
| "metric_label (InvalidHostState _ _) = ''invalid_host_state''"
| "metric_label (InvalidHandlerState _) = ''invalid_state''"
| "metric_label (ExternalServiceError e) = es_metric_label e"
| "metric_label (ManualInterventionRequired _) = ''manual_intervention_required''"
| "metric_label HealthProbeAlert = ''health_probe_alert''"
| "metric_label (TimeInStateAboveSla _) = ''time_in_state_above_sla''"
| "metric_label (ResourceCleanupError resource _) =
     (if resource = ''VpcLoopbackIp'' then ''vpcloopback_release_failed''
      else if resource = ''network_segment'' then ''network_segment_cleanup_failed''
      else ''resource_cleanup_failed'')"
| "metric_label (SpdmError _) = ''spdm_attestation_error''"
| "metric_label (InvalidHostMachineId _ _) = ''invalid_host_machine_id''"

section \<open>What is stored of an iteration\<close>

record persistent_source_reference =
  psr_file :: string
  psr_line :: nat

definition to_source_reference :: "location \<Rightarrow> persistent_source_reference" where
  "to_source_reference l = \<lparr>psr_file = loc_file l, psr_line = loc_line l\<rparr>"

datatype persistent_state_handler_outcome =
    PWait string "persistent_source_reference option"
  | PError string "persistent_source_reference option"
  | PTransition "persistent_source_reference option"
  | PDoNothing "persistent_source_reference option"
  | PDoNothingWithDetails

text \<open>\<open>from_result\<close>; \<open>None\<close> is \<open>unreachable!()\<close>.\<close>

fun from_result ::
    "state_handler_error + ('s, 'db) state_handler_outcome \<Rightarrow> persistent_state_handler_outcome option" where
  "from_result (Inr (Wait reason source_ref _)) = Some (PWait reason (Some (to_source_reference source_ref)))"
| "from_result (Inr (Transition _ source_ref _)) = Some (PTransition (Some (to_source_reference source_ref)))"
| "from_result (Inr (DoNothing source_ref _)) = Some (PDoNothing (Some (to_source_reference source_ref)))"
| "from_result (Inr (Deleted _ _)) = None"
| "from_result (Inl err) = Some (PError (show_error err) None)"

section \<open>Writes\<close>

datatype ('a, 'r) conditional_write = Applied 'a | NotApplied 'r

datatype controller_state_not_current = ControllerStateNotCurrent

fun check_applied :: "location \<Rightarrow> ('a, 'r) conditional_write \<Rightarrow> state_handler_error + 'a" where
  "check_applied caller (Applied v) = Inr v"
| "check_applied caller (NotApplied _) = Inl (IterationInvalidated caller)"

type_synonym 'db write_op = "'db \<Rightarrow> state_handler_error + 'db"

definition push :: "'db write_op \<Rightarrow> 'db write_op list \<Rightarrow> 'db write_op list" where
  "push write writes = writes @ [write]"

fun apply_all :: "'db write_op list \<Rightarrow> 'db \<Rightarrow> state_handler_error + 'db" where
  "apply_all [] txn = Inr txn"
| "apply_all (w # ws) txn = (case w txn of Inl e \<Rightarrow> Inl e | Inr txn' \<Rightarrow> apply_all ws txn')"

end
