(* ===== verification/Resource_Pool.thy ===== *)
theory Resource_Pool
  imports Ip_Text Handler_Outcome
begin

text \<open>
  Resource pools (\<open>crates/api-db/src/resource_pool.rs\<close>, \<open>crates/api-model/src/resource_pool\<close>): the table of
  values that network segments, VPCs, partitions and machines draw their identifiers from, and
  the definitions that seed it.

  The table is a list of rows in the order of their ids, with distinct pairs of pool and value; each
  SQL statement is one function on it. Values are stored as text; the value type of a pool
  appears as its \<open>Display\<close> and \<open>FromStr\<close>, the record \<open>text_ops\<close>. \<open>now\<close> is the time of the
  transaction. \<open>ORDER BY random()\<close> is a number that selects among the candidates, and \<open>locked\<close> are the
  rows that \<open>SKIP LOCKED\<close> passes over. Failures of the database itself are not represented.
\<close>

section \<open>Rows\<close>

datatype value_type = Integer | Ipv4 | Ipv6 | Ipv6Prefix

datatype owner_type = Machine | NetworkSegment | IBPartition | Vpc | SpxPartition

fun show_owner_type :: "owner_type \<Rightarrow> string" where
  "show_owner_type Machine = ''machine''"
| "show_owner_type NetworkSegment = ''network_segment''"
| "show_owner_type IBPartition = ''ib_partition''"
| "show_owner_type Vpc = ''vpc''"
| "show_owner_type SpxPartition = ''spx_partition''"

definition parse_owner_type :: "string \<Rightarrow> string + owner_type" where
  "parse_owner_type s =
     (if s = ''machine'' then Inr Machine
      else if s = ''network_segment'' then Inr NetworkSegment
      else if s = ''ib_partition'' then Inr IBPartition
      else if s = ''vpc'' then Inr Vpc
      else if s = ''spx_partition'' then Inr SpxPartition
      else Inl (''Unknown owner_type '' @ CHR 0x27 # s @ [CHR 0x27]))"

datatype entry_state = Free | Allocated string string

record pool_row =
  rp_name :: string
  rp_value :: string
  rp_value_type :: value_type
  rp_state :: entry_state
  rp_allocated :: "int option"
  rp_auto_assign :: bool

type_synonym pool_table = "pool_row list"

record 'a text_ops =
  to_str :: "'a \<Rightarrow> string"
  of_str :: "string \<Rightarrow> string + 'a"

record resource_pool =
  pool_name :: string
  pool_value_type :: value_type

definition int_text :: "int \<Rightarrow> int \<Rightarrow> int text_ops" where
  "int_text lo hi = \<lparr>to_str = show_int, of_str = from_str_radix lo hi 10\<rparr>"

datatype resource_pool_error = Empty | Parse string string string string string

datatype database_error = FailedPrecondition string | RowNotFound string | UniqueViolation string | NetworkSegmentDelete string

datatype resource_pool_database_error = PoolError resource_pool_error | DatabaseErr database_error

section \<open>Statements\<close>

definition owned_by :: "owner_type \<Rightarrow> string \<Rightarrow> entry_state" where
  "owned_by owner_type owner_id = Allocated owner_id (show_owner_type owner_type)"

definition pool_insert :: "resource_pool \<Rightarrow> bool \<Rightarrow> string \<Rightarrow> pool_table \<Rightarrow> pool_table" where
  "pool_insert pool auto_assign v tbl =
     (if \<exists>r \<in> set tbl. rp_name r = pool_name pool \<and> rp_value r = v then tbl
      else tbl @ [\<lparr>rp_name = pool_name pool, rp_value = v, rp_value_type = pool_value_type pool, rp_state = Free,
                   rp_allocated = None, rp_auto_assign = auto_assign\<rparr>])"

text \<open>\<open>populate\<close>; the chunks only bound the size of one statement.\<close>

definition populate_pool :: "('a \<Rightarrow> string) \<Rightarrow> resource_pool \<Rightarrow> 'a list \<Rightarrow> bool \<Rightarrow> pool_table \<Rightarrow> pool_table" where
  "populate_pool show pool all_values auto_assign tbl = fold (\<lambda>v. pool_insert pool auto_assign (show v)) all_values tbl"

record pool_stats =
  ps_used :: nat
  ps_free :: nat
  ps_auto_assign_used :: nat
  ps_auto_assign_free :: nat
  ps_non_auto_assign_used :: nat
  ps_non_auto_assign_free :: nat

definition count_rows :: "(pool_row \<Rightarrow> bool) \<Rightarrow> string \<Rightarrow> pool_table \<Rightarrow> nat" where
  "count_rows P name tbl = length (filter (\<lambda>r. rp_name r = name \<and> P r) tbl)"

definition stats :: "string \<Rightarrow> pool_table \<Rightarrow> pool_stats" where
  "stats name tbl =
     (let au = count_rows (\<lambda>r. rp_state r \<noteq> Free \<and> rp_auto_assign r) name tbl;
          af = count_rows (\<lambda>r. rp_state r = Free \<and> rp_auto_assign r) name tbl;
          nu = count_rows (\<lambda>r. rp_state r \<noteq> Free \<and> \<not> rp_auto_assign r) name tbl;
          nf = count_rows (\<lambda>r. rp_state r = Free \<and> \<not> rp_auto_assign r) name tbl
      in \<lparr>ps_used = au + nu, ps_free = af + nf, ps_auto_assign_used = au, ps_auto_assign_free = af,
          ps_non_auto_assign_used = nu, ps_non_auto_assign_free = nf\<rparr>)"

definition set_state :: "(pool_row \<Rightarrow> bool) \<Rightarrow> entry_state \<Rightarrow> int option \<Rightarrow> pool_table \<Rightarrow> pool_table" where
  "set_state P state allocated tbl =
     map (\<lambda>r. if P r then r\<lparr>rp_state := state, rp_allocated := allocated\<rparr> else r) tbl"

definition candidates :: "string \<Rightarrow> bool \<Rightarrow> string option \<Rightarrow> string set \<Rightarrow> pool_table \<Rightarrow> pool_row list" where
  "candidates name auto_assign req locked tbl =
     filter (\<lambda>r. rp_name r = name \<and> rp_state r = Free \<and> rp_auto_assign r = auto_assign \<and>
                 (rp_auto_assign r \<or> Some (rp_value r) = req) \<and> rp_value r \<notin> locked) tbl"

definition unavailable :: "string \<Rightarrow> resource_pool \<Rightarrow> database_error" where
  "unavailable v pool =
     FailedPrecondition (''`'' @ v @ ''` not an available value for resource-pool `'' @ pool_name pool @ ''`'')"

definition parse_value ::
    "'a text_ops \<Rightarrow> resource_pool \<Rightarrow> owner_type \<Rightarrow> string \<Rightarrow> string \<Rightarrow> resource_pool_database_error + 'a" where
  "parse_value T pool owner_type owner_id v =
     (case of_str T v of
        Inr x \<Rightarrow> Inr x
      | Inl e \<Rightarrow> Inl (PoolError (Parse e v (pool_name pool) (show_owner_type owner_type) owner_id)))"

definition allocate ::
    "int \<Rightarrow> string set \<Rightarrow> nat \<Rightarrow> 'a text_ops \<Rightarrow> resource_pool \<Rightarrow> owner_type \<Rightarrow> string \<Rightarrow> 'a option \<Rightarrow> pool_table
     \<Rightarrow> pool_table \<times> (resource_pool_database_error + 'a)" where
  "allocate now locked rnd T pool owner_type owner_id requested_value tbl =
     (let auto_assign = (requested_value = None);
          req = map_option (to_str T) requested_value;
          rows = candidates (pool_name pool) auto_assign req locked tbl
      in if rows = [] then
           (tbl, Inl (let s = stats (pool_name pool) tbl
              in if (if auto_assign then ps_auto_assign_free s else ps_non_auto_assign_free s) = 0 then PoolError Empty
                 else if \<not> auto_assign then DatabaseErr (unavailable (case req of Some v \<Rightarrow> v | None \<Rightarrow> []) pool)
                 else DatabaseErr (RowNotFound ''allocate'')))
         else
           (let v = rp_value (rows ! (rnd mod length rows))
            in (set_state (\<lambda>r. rp_name r = pool_name pool \<and> rp_value r = v) (owned_by owner_type owner_id) (Some now) tbl,
                parse_value T pool owner_type owner_id v)))"

definition allocate_exact ::
    "int \<Rightarrow> 'a text_ops \<Rightarrow> resource_pool \<Rightarrow> owner_type \<Rightarrow> string \<Rightarrow> 'a \<Rightarrow> pool_table \<Rightarrow> pool_table \<times> (database_error + 'a)" where
  "allocate_exact now T pool owner_type owner_id requested_value tbl =
     (let v = to_str T requested_value;
          P = (\<lambda>r. rp_name r = pool_name pool \<and> rp_value r = v \<and> rp_state r = Free)
      in if filter P tbl = [] then (tbl, Inl (unavailable v pool))
         else (set_state P (owned_by owner_type owner_id) (Some now) tbl, Inr requested_value))"

definition find_owned_allocation ::
    "'a text_ops \<Rightarrow> resource_pool \<Rightarrow> owner_type \<Rightarrow> string \<Rightarrow> pool_table \<Rightarrow> resource_pool_database_error + 'a option" where
  "find_owned_allocation T pool owner_type owner_id tbl =
     (let values = take 2 (sort (map rp_value
            (filter (\<lambda>r. rp_name r = pool_name pool \<and> rp_state r = owned_by owner_type owner_id) tbl)))
      in if length values > 1 then
           Inl (DatabaseErr (FailedPrecondition (''resource pool `'' @ pool_name pool @
              ''` has multiple values allocated to '' @ show_owner_type owner_type @ '' `'' @ owner_id @ ''`'')))
         else (case values of [] \<Rightarrow> Inr None | v # _ \<Rightarrow> map_sum id Some (parse_value T pool owner_type owner_id v)))"

definition find_pool_overlap :: "resource_pool \<Rightarrow> resource_pool \<Rightarrow> pool_table \<Rightarrow> string option" where
  "find_pool_overlap first second tbl =
     map_option rp_value (find (\<lambda>r. rp_name r = pool_name first \<and>
        (\<exists>s \<in> set tbl. rp_name s = pool_name second \<and> rp_value s = rp_value r)) tbl)"

datatype allocation_not_owned = ResourcePoolAllocationNotOwned

definition release ::
    "'a text_ops \<Rightarrow> resource_pool \<Rightarrow> 'a \<Rightarrow> owner_type \<Rightarrow> string \<Rightarrow> pool_table
     \<Rightarrow> pool_table \<times> (unit, allocation_not_owned) conditional_write" where
  "release T pool v owner_type owner_id tbl =
     (let P = (\<lambda>r. rp_name r = pool_name pool \<and> rp_value r = to_str T v \<and> rp_state r = owned_by owner_type owner_id)
      in (set_state P Free None tbl,
          if filter P tbl = [] then NotApplied ResourcePoolAllocationNotOwned else Applied ()))"

definition find_value :: "string \<Rightarrow> pool_table \<Rightarrow> (string \<times> value_type \<times> entry_state \<times> int option) list" where
  "find_value v tbl = map (\<lambda>r. (rp_name r, rp_value_type r, rp_state r, rp_allocated r)) (filter (\<lambda>r. rp_value r = v) tbl)"

definition pool_has_rows :: "string \<Rightarrow> pool_table \<Rightarrow> bool" where
  "pool_has_rows name tbl = (\<exists>r \<in> set tbl. rp_name r = name)"

text \<open>How an allocation failure is classified.\<close>

datatype pool_failure = Exhausted | ParseFailure | RequestedValueUnavailable | Database

fun classify_database_failure :: "database_error \<Rightarrow> pool_failure" where
  "classify_database_failure (FailedPrecondition _) = RequestedValueUnavailable"
| "classify_database_failure _ = Database"

fun classify_resource_pool_failure :: "resource_pool_database_error \<Rightarrow> pool_failure" where
  "classify_resource_pool_failure (PoolError Empty) = Exhausted"
| "classify_resource_pool_failure (PoolError (Parse _ _ _ _ _)) = ParseFailure"
| "classify_resource_pool_failure (DatabaseErr e) = classify_database_failure e"

definition is_requested_value_unavailable :: "resource_pool_database_error \<Rightarrow> bool" where
  "is_requested_value_unavailable e = (classify_resource_pool_failure e = RequestedValueUnavailable)"

section \<open>Definitions of pools\<close>

text \<open>
  The \<open>ipnetwork\<close> package: parsing, the addresses of a network, and construction. \<open>IpNetwork\<close> is
  the sum of the two families.
\<close>

record ('n4, 'n6) ipnetwork =
  parse_network :: "string \<Rightarrow> string + ('n4 + 'n6)"
  parse_network6 :: "string \<Rightarrow> string + 'n6"
  network4 :: "'n4 \<Rightarrow> u32"
  broadcast4 :: "'n4 \<Rightarrow> u32"
  ip6 :: "'n6 \<Rightarrow> u128"
  network6 :: "'n6 \<Rightarrow> u128"
  broadcast6 :: "'n6 \<Rightarrow> u128"
  prefix6 :: "'n6 \<Rightarrow> nat"
  new6 :: "u128 \<Rightarrow> nat \<Rightarrow> string + 'n6"
  show6 :: "'n6 \<Rightarrow> string"

datatype pool_type = TIpv4 | TIpv6 | TIpv6Prefix | TInteger

record pool_range =
  range_start :: string
  range_end :: string
  range_auto_assign :: bool

record pool_def =
  pd_ranges :: "pool_range list"
  pd_prefix :: "string option"
  pd_pool_type :: pool_type
  pd_delegate_prefix_len :: "nat option"

datatype define_error = InvalidArgument string | TooBig nat nat | DefineDatabaseError database_error

definition MAX_POOL_SIZE :: nat where "MAX_POOL_SIZE = 250000"

definition usize_max :: nat where "usize_max = 2 ^ 64 - 1"

text \<open>\<open>usize::try_from(n).unwrap_or(usize::MAX)\<close>, and \<open>1u128.checked_shl(bits).unwrap_or(u128::MAX)\<close>.\<close>

definition to_usize :: "nat \<Rightarrow> nat" where
  "to_usize n = min n usize_max"

definition shl_one :: "nat \<Rightarrow> nat" where
  "shl_one bits = (if bits < 128 then 2 ^ bits else 2 ^ 128 - 1)"

definition arg :: "string + 'a \<Rightarrow> define_error + 'a" where
  "arg r = (case r of Inl e \<Rightarrow> Inl (InvalidArgument e) | Inr x \<Rightarrow> Inr x)"

definition expand_ip_prefix :: "('n4, 'n6) ipnetwork \<Rightarrow> string \<Rightarrow> string + u32 list" where
  "expand_ip_prefix N network =
     (case parse_network N network of
        Inl e \<Rightarrow> Inl e
      | Inr (Inr _) \<Rightarrow> Inl (''invalid IPv4 network: '' @ network)
      | Inr (Inl n) \<Rightarrow> Inr (map word_of_nat [unat (network4 N n) ..< unat (broadcast4 N n)]))"

definition expand_ip_range :: "string \<Rightarrow> string \<Rightarrow> string + u32 list" where
  "expand_ip_range start_s end_s =
     (case parse_ipv4 start_s of
        Inl e \<Rightarrow> Inl e
      | Inr start_addr \<Rightarrow> (case parse_ipv4 end_s of
          Inl e \<Rightarrow> Inl e
        | Inr end_addr \<Rightarrow> Inr (map word_of_nat [unat start_addr ..< unat end_addr])))"

definition expand_ipv6_prefix :: "('n4, 'n6) ipnetwork \<Rightarrow> string \<Rightarrow> define_error + u128 list" where
  "expand_ipv6_prefix N network =
     (case parse_network N network of
        Inl e \<Rightarrow> Inl (InvalidArgument e)
      | Inr (Inl _) \<Rightarrow> Inl (InvalidArgument (''Invalid IPv6 network: '' @ network))
      | Inr (Inr n) \<Rightarrow>
          (let num_addresses = shl_one (128 - prefix6 N n)
           in if num_addresses > MAX_POOL_SIZE then Inl (TooBig (to_usize num_addresses) MAX_POOL_SIZE)
              else Inr (map word_of_nat [unat (network6 N n) ..< Suc (unat (broadcast6 N n))])))"

definition expand_ipv6_range :: "string \<Rightarrow> string \<Rightarrow> define_error + u128 list" where
  "expand_ipv6_range start_s end_s =
     (case arg (parse_ipv6 start_s) of
        Inl e \<Rightarrow> Inl e
      | Inr start_addr \<Rightarrow> (case arg (parse_ipv6 end_s) of
          Inl e \<Rightarrow> Inl e
        | Inr end_addr \<Rightarrow>
            (let count = unat end_addr - unat start_addr
             in if count > MAX_POOL_SIZE then Inl (TooBig (to_usize count) MAX_POOL_SIZE)
                else Inr (map word_of_nat [unat start_addr ..< unat end_addr]))))"

text \<open>The loop that builds networks \<open>step\<close> apart.\<close>

fun build_networks :: "('n4, 'n6) ipnetwork \<Rightarrow> nat \<Rightarrow> nat \<Rightarrow> nat \<Rightarrow> nat list \<Rightarrow> define_error + 'n6 list" where
  "build_networks N base step len [] = Inr []"
| "build_networks N base step len (i # is) =
     (case arg (new6 N (word_of_nat (base + i * step)) len) of
        Inl e \<Rightarrow> Inl e
      | Inr n \<Rightarrow> (case build_networks N base step len is of Inl e \<Rightarrow> Inl e | Inr ns \<Rightarrow> Inr (n # ns)))"

definition expand_ipv6_prefix_delegation :: "('n4, 'n6) ipnetwork \<Rightarrow> string \<Rightarrow> nat \<Rightarrow> define_error + 'n6 list" where
  "expand_ipv6_prefix_delegation N parent delegate_len =
     (case parse_network N parent of
        Inl e \<Rightarrow> Inl (InvalidArgument e)
      | Inr (Inl _) \<Rightarrow> Inl (InvalidArgument (''Invalid IPv6 network: '' @ parent))
      | Inr (Inr n) \<Rightarrow>
          (let parent_len = prefix6 N n
           in if delegate_len \<le> parent_len then
                Inl (InvalidArgument (''Delegation prefix length /'' @ show_nat delegate_len @
                  '' must be longer than parent prefix length /'' @ show_nat parent_len))
              else if delegate_len > 128 then
                Inl (InvalidArgument (''Delegation prefix length /'' @ show_nat delegate_len @ '' exceeds maximum /128''))
              else
                (let count = shl_one (delegate_len - parent_len)
                 in if count > MAX_POOL_SIZE then Inl (TooBig (to_usize count) MAX_POOL_SIZE)
                    else build_networks N (unat (network6 N n)) (2 ^ (128 - delegate_len)) delegate_len [0 ..< count])))"

definition expand_ipv6_prefix_range :: "('n4, 'n6) ipnetwork \<Rightarrow> string \<Rightarrow> string \<Rightarrow> define_error + 'n6 list" where
  "expand_ipv6_prefix_range N start_s end_s =
     (case arg (parse_network6 N start_s) of
        Inl e \<Rightarrow> Inl e
      | Inr start_net \<Rightarrow> (case arg (parse_network6 N end_s) of
          Inl e \<Rightarrow> Inl e
        | Inr end_net \<Rightarrow>
            (let len = prefix6 N start_net
             in if prefix6 N end_net \<noteq> len then
                  Inl (InvalidArgument (''Range endpoints have different prefix lengths: /'' @ show_nat len @
                    '' vs /'' @ show_nat (prefix6 N end_net)))
                else if ip6 N start_net \<noteq> network6 N start_net then
                  Inl (InvalidArgument (''Start prefix '' @ start_s @ '' has host bits set''))
                else if ip6 N end_net \<noteq> network6 N end_net then
                  Inl (InvalidArgument (''End prefix '' @ end_s @ '' has host bits set''))
                else if network6 N end_net \<le> network6 N start_net then
                  Inl (InvalidArgument ''End prefix must be greater than start prefix'')
                else
                  (let step = 2 ^ (128 - len);
                       count = (unat (network6 N end_net) - unat (network6 N start_net)) div step
                   in if count > MAX_POOL_SIZE then Inl (TooBig (to_usize count) MAX_POOL_SIZE)
                      else build_networks N (unat (network6 N start_net)) step len [0 ..< count]))))"

definition parse_int_range :: "string \<Rightarrow> string + int" where
  "parse_int_range data =
     (let data = to_lowercase data;
          base = (if take 2 data = ''0x'' then 16 else 10)
      in from_str_radix (- (2 ^ 63)) (2 ^ 63 - 1) base (trim_start_matches ''0x'' data))"

definition expand_int_range :: "string \<Rightarrow> string \<Rightarrow> string + int list" where
  "expand_int_range start_s end_s =
     (case parse_int_range start_s of
        Inl e \<Rightarrow> Inl e
      | Inr start_v \<Rightarrow> (case parse_int_range end_s of
          Inl e \<Rightarrow> Inl e
        | Inr end_v \<Rightarrow> Inr [start_v .. end_v - 1]))"

text \<open>A pool of one value type, filled with its values unless there are too many of them.\<close>

definition fill :: "string \<Rightarrow> value_type \<Rightarrow> ('a \<Rightarrow> string) \<Rightarrow> bool \<Rightarrow> define_error + 'a list \<Rightarrow> pool_table
    \<Rightarrow> define_error + pool_table" where
  "fill name vt show auto_assign values tbl =
     (case values of
        Inl e \<Rightarrow> Inl e
      | Inr vs \<Rightarrow> Inr (populate_pool show \<lparr>pool_name = name, pool_value_type = vt\<rparr> vs auto_assign tbl))"

definition check_size :: "define_error + 'a list \<Rightarrow> define_error + 'a list" where
  "check_size values = (case values of
      Inr vs \<Rightarrow> if length vs > MAX_POOL_SIZE then Inl (TooBig (length vs) MAX_POOL_SIZE) else Inr vs
    | Inl e \<Rightarrow> Inl e)"

definition define_by_prefix ::
    "('n4, 'n6) ipnetwork \<Rightarrow> string \<Rightarrow> pool_type \<Rightarrow> string \<Rightarrow> nat option \<Rightarrow> pool_table \<Rightarrow> define_error + pool_table" where
  "define_by_prefix N name pool_type pfx delegate_prefix_len tbl =
     (case pool_type of
        TIpv4 \<Rightarrow> fill name Ipv4 show_ipv4 True (check_size (arg (expand_ip_prefix N pfx))) tbl
      | TIpv6 \<Rightarrow> fill name Ipv6 show_ipv6 True (expand_ipv6_prefix N pfx) tbl
      | TIpv6Prefix \<Rightarrow>
          (case delegate_prefix_len of
             None \<Rightarrow> Inl (InvalidArgument (''Pool type 'ipv6prefix' requires 'delegate_prefix_len'' @ [CHR 0x27]))
           | Some len \<Rightarrow> fill name Ipv6Prefix (show6 N) True (expand_ipv6_prefix_delegation N pfx len) tbl)
      | TInteger \<Rightarrow> Inl (InvalidArgument ''Pool type 'integer' cannot take a prefix''))"

definition define_by_range ::
    "('n4, 'n6) ipnetwork \<Rightarrow> string \<Rightarrow> pool_type \<Rightarrow> string \<Rightarrow> string \<Rightarrow> bool \<Rightarrow> pool_table \<Rightarrow> define_error + pool_table" where
  "define_by_range N name pool_type start_s end_s auto_assign tbl =
     (case pool_type of
        TIpv4 \<Rightarrow> fill name Ipv4 show_ipv4 auto_assign (check_size (arg (expand_ip_range start_s end_s))) tbl
      | TIpv6 \<Rightarrow> fill name Ipv6 show_ipv6 auto_assign (expand_ipv6_range start_s end_s) tbl
      | TIpv6Prefix \<Rightarrow> fill name Ipv6Prefix (show6 N) auto_assign (expand_ipv6_prefix_range N start_s end_s) tbl
      | TInteger \<Rightarrow> fill name Integer show_int auto_assign (check_size (arg (expand_int_range start_s end_s))) tbl)"

fun define_by_ranges ::
    "('n4, 'n6) ipnetwork \<Rightarrow> string \<Rightarrow> pool_type \<Rightarrow> pool_range list \<Rightarrow> pool_table \<Rightarrow> define_error + pool_table" where
  "define_by_ranges N name pool_type [] tbl = Inr tbl"
| "define_by_ranges N name pool_type (r # rs) tbl =
     (case define_by_range N name pool_type (range_start r) (range_end r) (range_auto_assign r) tbl of
        Inl e \<Rightarrow> Inl e
      | Inr tbl \<Rightarrow> define_by_ranges N name pool_type rs tbl)"

definition define_pool :: "('n4, 'n6) ipnetwork \<Rightarrow> string \<Rightarrow> pool_def \<Rightarrow> pool_table \<Rightarrow> define_error + pool_table" where
  "define_pool N name d tbl =
     (if name = ''pkey'' then
        Inl (InvalidArgument ''pkey pool is deprecated. Use ib_fabrics.default.pkeys as replacement'')
      else
        (case pd_prefix d of
           None \<Rightarrow>
             if pd_ranges d = [] then Inl (InvalidArgument (''Please provide one of 'prefix' or 'ranges'' @ [CHR 0x27]))
             else define_by_ranges N name (pd_pool_type d) (pd_ranges d) tbl
         | Some pfx \<Rightarrow>
             if pd_ranges d \<noteq> [] then Inl (InvalidArgument (''Please provide only one of 'prefix' or 'ranges'' @ [CHR 0x27]))
             else define_by_prefix N name (pd_pool_type d) pfx (pd_delegate_prefix_len d) tbl))"

fun define_all_from :: "('n4, 'n6) ipnetwork \<Rightarrow> (string \<times> pool_def) list \<Rightarrow> pool_table \<Rightarrow> define_error + pool_table" where
  "define_all_from N [] tbl = Inr tbl"
| "define_all_from N ((name, d) # ds) tbl =
     (case define_pool N name d tbl of Inl e \<Rightarrow> Inl e | Inr tbl \<Rightarrow> define_all_from N ds tbl)"

section \<open>Reconciliation with the declared pools\<close>

text \<open>The definition table is a list of rows with distinct names; the drift events are the report.\<close>

type_synonym def_table = "(string \<times> pool_def) list"

datatype drift = Changed string | Dropped string

definition insert_pool_def :: "string \<Rightarrow> pool_def \<Rightarrow> def_table \<Rightarrow> database_error + def_table" where
  "insert_pool_def name d defs =
     (if map_of defs name \<noteq> None then Inl (UniqueViolation name) else Inr (defs @ [(name, d)]))"

definition stored_def :: "string \<Rightarrow> def_table \<Rightarrow> pool_def option" where
  "stored_def name defs = map_of defs name"

definition reconcile_one ::
    "('n4, 'n6) ipnetwork \<Rightarrow> def_table \<Rightarrow> string \<Rightarrow> pool_def \<Rightarrow> pool_table \<times> def_table \<times> drift list
     \<Rightarrow> define_error + (pool_table \<times> def_table \<times> drift list)" where
  "reconcile_one N stored name d st =
     (case st of (tbl, defs, log) \<Rightarrow>
       (case (stored_def name stored, pool_has_rows name tbl) of
          (Some _, False) \<Rightarrow> Inr st
        | (Some old, True) \<Rightarrow> if old = d then Inr st else Inr (tbl, defs, log @ [Changed name])
        | (None, True) \<Rightarrow>
            (case insert_pool_def name d defs of
               Inl e \<Rightarrow> Inl (DefineDatabaseError e)
             | Inr defs \<Rightarrow> Inr (tbl, defs, log))
        | (None, False) \<Rightarrow>
            (case define_pool N name d tbl of
               Inl e \<Rightarrow> Inl e
             | Inr tbl \<Rightarrow>
                 (case insert_pool_def name d defs of
                    Inl e \<Rightarrow> Inl (DefineDatabaseError e)
                  | Inr defs \<Rightarrow> Inr (tbl, defs, log)))))"

fun reconcile_each ::
    "('n4, 'n6) ipnetwork \<Rightarrow> def_table \<Rightarrow> (string \<times> pool_def) list \<Rightarrow> pool_table \<times> def_table \<times> drift list
     \<Rightarrow> define_error + (pool_table \<times> def_table \<times> drift list)" where
  "reconcile_each N stored [] st = Inr st"
| "reconcile_each N stored ((name, d) # ds) st =
     (case reconcile_one N stored name d st of Inl e \<Rightarrow> Inl e | Inr st \<Rightarrow> reconcile_each N stored ds st)"

definition reconcile_pool_defs ::
    "('n4, 'n6) ipnetwork \<Rightarrow> (string \<times> pool_def) list \<Rightarrow> pool_table \<Rightarrow> def_table
     \<Rightarrow> define_error + (pool_table \<times> def_table \<times> drift list)" where
  "reconcile_pool_defs N declared tbl defs =
     (case reconcile_each N defs declared (tbl, defs, []) of
        Inl e \<Rightarrow> Inl e
      | Inr (tbl', defs', log) \<Rightarrow>
          Inr (tbl', defs', log @ map Dropped (filter (\<lambda>n. map_of declared n = None) (map fst defs))))"

end
