(* ===== verification/Pool_Theorems.thy ===== *)
theory Pool_Theorems
  imports Resource_Pool
begin

text \<open>
  What the resource pools guarantee: the table refines a map from values to their holders, a held
  value stays with its holder until the holder releases it, allocation and release are inverse,
  reconciliation only adds and is idempotent, and the networks of a delegation pool are disjoint.
\<close>

section \<open>The table as a map\<close>

type_synonym pool_key = "string \<times> string"

type_synonym pool_owner = "string \<times> string"

definition row_key :: "pool_row \<Rightarrow> pool_key" where
  "row_key r = (rp_name r, rp_value r)"

definition pool_wf :: "pool_table \<Rightarrow> bool" where
  "pool_wf tbl \<longleftrightarrow> distinct (map row_key tbl)"

definition row_at :: "pool_table \<Rightarrow> pool_key \<Rightarrow> pool_row option" where
  "row_at tbl = map_of (map (\<lambda>r. (row_key r, r)) tbl)"

fun state_holder :: "entry_state \<Rightarrow> pool_owner option" where
  "state_holder Free = None"
| "state_holder (Allocated owner owner_type) = Some (owner, owner_type)"

definition holder :: "pool_table \<Rightarrow> pool_key \<Rightarrow> pool_owner option" where
  "holder tbl k = Option.bind (row_at tbl k) (\<lambda>r. state_holder (rp_state r))"

definition keys :: "pool_table \<Rightarrow> pool_key set" where
  "keys tbl = row_key ` set tbl"

lemma row_at_Some: "row_at tbl k = Some r \<Longrightarrow> r \<in> set tbl \<and> row_key r = k"
  unfolding row_at_def by (drule map_of_SomeD) auto

lemma row_at_iff: "pool_wf tbl \<Longrightarrow> row_at tbl k = Some r \<longleftrightarrow> r \<in> set tbl \<and> row_key r = k"
  by (auto simp: row_at_def pool_wf_def o_def image_iff)

lemma row_at_None: "row_at tbl k = None \<longleftrightarrow> k \<notin> keys tbl"
  by (force simp: row_at_def keys_def map_of_eq_None_iff image_iff)

lemma row_key_update [simp]: "row_key (r\<lparr>rp_state := s, rp_allocated := a\<rparr>) = row_key r"
  by (simp add: row_key_def)

lemma set_state_keys [simp]: "map row_key (set_state P s a tbl) = map row_key tbl"
  by (simp add: set_state_def)

lemma set_state_wf [simp]: "pool_wf (set_state P s a tbl) \<longleftrightarrow> pool_wf tbl"
  by (simp add: pool_wf_def)

lemma keys_set_state [simp]: "keys (set_state P s a tbl) = keys tbl"
  by (metis keys_def list.set_map set_state_keys)

lemma row_at_set_state:
  "row_at (set_state P s a tbl) k =
   map_option (\<lambda>r. if P r then r\<lparr>rp_state := s, rp_allocated := a\<rparr> else r) (row_at tbl k)"
  by (induction tbl) (auto simp: row_at_def set_state_def)

lemma row_at_insert:
  "row_at (pool_insert pool auto v tbl) k = (case row_at tbl k of Some r \<Rightarrow> Some r
   | None \<Rightarrow> if k = (pool_name pool, v) then Some \<lparr>rp_name = pool_name pool, rp_value = v, rp_value_type = pool_value_type pool,
       rp_state = Free, rp_allocated = None, rp_auto_assign = auto\<rparr> else None)"
proof (cases "\<exists>r \<in> set tbl. rp_name r = pool_name pool \<and> rp_value r = v")
  case True
  then have "(pool_name pool, v) \<in> keys tbl" by (force simp: keys_def row_key_def)
  then show ?thesis using True row_at_None [of tbl k] by (auto simp: pool_insert_def split: option.split)
next
  case False
  then show ?thesis
    by (auto simp: pool_insert_def row_at_def row_key_def map_of_append map_add_def split: option.split)
qed

lemma insert_wf: "pool_wf tbl \<Longrightarrow> pool_wf (pool_insert pool auto v tbl)"
  by (auto simp: pool_wf_def pool_insert_def row_key_def)

lemma populate_row:
  "row_at tbl k = Some r \<Longrightarrow> row_at (populate_pool shw pool vs auto tbl) k = Some r"
  by (induction vs arbitrary: tbl) (auto simp: populate_pool_def row_at_insert)

lemma populate_wf: "pool_wf tbl \<Longrightarrow> pool_wf (populate_pool shw pool vs auto tbl)"
  by (induction vs arbitrary: tbl) (auto simp: populate_pool_def insert_wf)

lemma populate_new:
  "row_at tbl k = None \<Longrightarrow> row_at (populate_pool shw pool vs auto tbl) k =
   (if \<exists>v \<in> set vs. k = (pool_name pool, shw v)
    then Some \<lparr>rp_name = fst k, rp_value = snd k, rp_value_type = pool_value_type pool,
       rp_state = Free, rp_allocated = None, rp_auto_assign = auto\<rparr> else None)"
proof (induction vs arbitrary: tbl)
  case (Cons v vs)
  show ?case
  proof (cases "k = (pool_name pool, shw v)")
    case True
    then have "row_at (pool_insert pool auto (shw v) tbl) k = Some \<lparr>rp_name = fst k, rp_value = snd k,
        rp_value_type = pool_value_type pool, rp_state = Free, rp_allocated = None, rp_auto_assign = auto\<rparr>"
      using Cons.prems by (simp add: row_at_insert)
    from populate_row [OF this, of shw pool vs auto] True show ?thesis by (simp add: populate_pool_def)
  next
    case False
    then have "row_at (pool_insert pool auto (shw v) tbl) k = None" using Cons.prems by (simp add: row_at_insert)
    from Cons.IH [OF this] False show ?thesis by (simp add: populate_pool_def)
  qed
qed (simp add: populate_pool_def)

lemma holder_populate: "holder (populate_pool shw pool vs auto tbl) k = holder tbl k"
  using populate_row [of tbl k _ shw pool vs auto] populate_new [of tbl k shw pool vs auto]
  by (cases "row_at tbl k") (auto simp: holder_def)

lemma holder_set_state:
  "holder (set_state P s a tbl) k =
   (case row_at tbl k of Some r \<Rightarrow> if P r then state_holder s else holder tbl k | None \<Rightarrow> None)"
  by (auto simp: holder_def row_at_set_state split: option.split)

lemma owned_by_holder [simp]: "state_holder (owned_by ot oid) = Some (oid, show_owner_type ot)"
  by (simp add: owned_by_def)

lemma owned_by_not_free [simp]: "owned_by ot oid \<noteq> Free" "Free \<noteq> owned_by ot oid"
  by (simp_all add: owned_by_def)

lemma state_holder_eq_Some: "state_holder s = Some (oid, show_owner_type ot) \<longleftrightarrow> s = owned_by ot oid"
  by (cases s) (auto simp: owned_by_def)

section \<open>Holders\<close>

text \<open>
  The specification: the values a pool offers, and who holds which. The offer grows, a free value
  can be taken, and a held value can be given back by its holder.
\<close>

inductive holders_step :: "pool_owner \<Rightarrow> pool_key set \<times> (pool_key \<rightharpoonup> pool_owner) \<Rightarrow> pool_key set \<times> (pool_key \<rightharpoonup> pool_owner) \<Rightarrow> bool"
  for me where
  offer: "D \<subseteq> D' \<Longrightarrow> holders_step me (D, H) (D', H)"
| acquire: "k \<in> D \<Longrightarrow> H k = None \<Longrightarrow> holders_step me (D, H) (D, H(k \<mapsto> me))"
| give_back: "H k = Some me \<Longrightarrow> holders_step me (D, H) (D, H(k := None))"

text \<open>What an owner can do to the table.\<close>

inductive pool_step :: "'a text_ops \<Rightarrow> pool_owner \<Rightarrow> pool_table \<Rightarrow> pool_table \<Rightarrow> bool" for T me where
  step_populate: "pool_step T me tbl (populate_pool (to_str T) pool vs auto tbl)"
| step_allocate: "me = (oid, show_owner_type ot) \<Longrightarrow>
    pool_step T me tbl (fst (allocate now locked rnd T pool ot oid req tbl))"
| step_allocate_exact: "me = (oid, show_owner_type ot) \<Longrightarrow>
    pool_step T me tbl (fst (allocate_exact now T pool ot oid v tbl))"
| step_release: "me = (oid, show_owner_type ot) \<Longrightarrow> pool_step T me tbl (fst (release T pool v ot oid tbl))"

definition abs_pool :: "pool_table \<Rightarrow> pool_key set \<times> (pool_key \<rightharpoonup> pool_owner)" where
  "abs_pool tbl = (keys tbl, holder tbl)"

lemma stutter: "holders_step me (abs_pool tbl) (abs_pool tbl)"
  unfolding abs_pool_def by (rule offer) simp

lemma candidate_free:
  assumes "r \<in> set (candidates name auto req locked tbl)"
  shows "r \<in> set tbl" "rp_name r = name" "rp_state r = Free" "rp_auto_assign r = auto" "auto \<or> Some (rp_value r) = req"
    "rp_value r \<notin> locked"
  using assms by (auto simp: candidates_def)

lemma holder_of_row: "pool_wf tbl \<Longrightarrow> r \<in> set tbl \<Longrightarrow> holder tbl (row_key r) = state_holder (rp_state r)"
  by (simp add: holder_def row_at_iff [THEN iffD2])

lemma set_state_one:
  assumes "pool_wf tbl" "k \<in> keys tbl" "\<And>r. r \<in> set tbl \<Longrightarrow> P r \<longleftrightarrow> row_key r = k"
  shows "abs_pool (set_state P s a tbl) = (keys tbl, (holder tbl)(k := state_holder s))"
proof -
  have "holder (set_state P s a tbl) j = ((holder tbl)(k := state_holder s)) j" for j
  proof (cases "row_at tbl j")
    case None
    then show ?thesis using assms(2) row_at_None [of tbl j] by (auto simp: holder_def row_at_set_state)
  next
    case (Some r)
    then show ?thesis using assms(3) [of r] row_at_Some [OF Some] by (simp add: holder_set_state)
  qed
  then show ?thesis by (auto simp: abs_pool_def)
qed

lemma row_unique: "pool_wf tbl \<Longrightarrow> r \<in> set tbl \<Longrightarrow> q \<in> set tbl \<Longrightarrow> row_key q = row_key r \<Longrightarrow> q = r"
  using row_at_iff [of tbl "row_key r" r] row_at_iff [of tbl "row_key r" q] by simp

definition row_in :: "resource_pool \<Rightarrow> string \<Rightarrow> entry_state \<Rightarrow> pool_row \<Rightarrow> bool" where
  "row_in pool v s = (\<lambda>r. rp_name r = pool_name pool \<and> rp_value r = v \<and> rp_state r = s)"

lemma row_in_none: "filter (row_in pool v s) tbl = [] \<Longrightarrow> set_state (row_in pool v s) s' a tbl = tbl"
  unfolding set_state_def filter_empty_conv by (intro map_idI) auto

lemma row_in_some:
  assumes "pool_wf tbl" "filter (row_in pool v s) tbl \<noteq> []"
  shows "(pool_name pool, v) \<in> keys tbl" "holder tbl (pool_name pool, v) = state_holder s"
    "abs_pool (set_state (row_in pool v s) s' a tbl) = (keys tbl, (holder tbl)((pool_name pool, v) := state_holder s'))"
proof -
  obtain r where r: "r \<in> set tbl" "row_in pool v s r" using assms(2) by (auto simp: filter_empty_conv)
  then have k: "row_key r = (pool_name pool, v)" by (simp add: row_in_def row_key_def)
  then show key: "(pool_name pool, v) \<in> keys tbl" using r(1) by (metis imageI keys_def)
  show "holder tbl (pool_name pool, v) = state_holder s"
    using holder_of_row [OF assms(1) r(1)] r(2) k by (simp add: row_in_def)
  have "row_in pool v s q \<longleftrightarrow> row_key q = (pool_name pool, v)" if "q \<in> set tbl" for q
    using row_unique [OF assms(1) r(1) that] r k by (auto simp: row_in_def row_key_def)
  then show "abs_pool (set_state (row_in pool v s) s' a tbl) = (keys tbl, (holder tbl)((pool_name pool, v) := state_holder s'))"
    by (intro set_state_one assms key) auto
qed

lemma allocate_exact_row_in:
  "allocate_exact now T pool ot oid v tbl =
     (if filter (row_in pool (to_str T v) Free) tbl = [] then (tbl, Inl (unavailable (to_str T v) pool))
      else (set_state (row_in pool (to_str T v) Free) (owned_by ot oid) (Some now) tbl, Inr v))"
  unfolding allocate_exact_def Let_def row_in_def ..

lemma release_row_in:
  "release T pool v ot oid tbl =
     (set_state (row_in pool (to_str T v) (owned_by ot oid)) Free None tbl,
      if filter (row_in pool (to_str T v) (owned_by ot oid)) tbl = [] then NotApplied ResourcePoolAllocationNotOwned else Applied ())"
  unfolding release_def Let_def row_in_def ..

lemma allocate_cases:
  assumes "pool_wf tbl" "allocate now locked rnd T pool ot oid req tbl = (tbl', res)"
  obtains (none) "tbl' = tbl" "candidates (pool_name pool) (req = None) (map_option (to_str T) req) locked tbl = []" "\<exists>e. res = Inl e"
  | (one) r where "r \<in> set (candidates (pool_name pool) (req = None) (map_option (to_str T) req) locked tbl)"
      "tbl' = set_state (\<lambda>q. row_key q = row_key r) (owned_by ot oid) (Some now) tbl"
      "res = parse_value T pool ot oid (rp_value r)"
proof (cases "candidates (pool_name pool) (req = None) (map_option (to_str T) req) locked tbl")
  case Nil
  then show ?thesis using assms(2) none by (auto simp: allocate_def Let_def)
next
  case (Cons a as)
  let ?c = "candidates (pool_name pool) (req = None) (map_option (to_str T) req) locked tbl"
  let ?r = "?c ! (rnd mod length ?c)"
  have r: "?r \<in> set ?c" using Cons by (intro nth_mem) simp
  then have "rp_name ?r = pool_name pool" by (rule candidate_free)
  then have "(\<lambda>q. rp_name q = pool_name pool \<and> rp_value q = rp_value ?r) = (\<lambda>q. row_key q = row_key ?r)"
    by (simp add: row_key_def fun_eq_iff)
  then show ?thesis using assms(2) Cons by (intro one [OF r]) (simp_all add: allocate_def Let_def)
qed

lemma pool_step_refines:
  assumes "pool_step T me tbl tbl'" "pool_wf tbl"
  shows "pool_wf tbl' \<and> holders_step me (abs_pool tbl) (abs_pool tbl')"
  using assms
proof (cases rule: pool_step.cases)
  case (step_populate pool vs auto)
  have "keys tbl \<subseteq> keys tbl'"
    using populate_row [of tbl _ _ "to_str T" pool vs auto] step_populate
    by (metis option.exhaust row_at_None subsetI option.distinct(1))
  moreover have "holder tbl' = holder tbl" using step_populate holder_populate [of "to_str T" pool vs auto tbl] by auto
  ultimately show ?thesis using step_populate assms(2) by (simp add: populate_wf abs_pool_def offer)
next
  case (step_allocate oid ot now locked rnd pool req)
  obtain res where "allocate now locked rnd T pool ot oid req tbl = (tbl', res)"
    using step_allocate by (metis prod.collapse)
  with assms(2) show ?thesis
  proof (cases rule: allocate_cases)
    case none
    then show ?thesis using assms(2) stutter by simp
  next
    case (one r)
    note c = candidate_free [OF one(1)]
    have "abs_pool (set_state (\<lambda>q. row_key q = row_key r) (owned_by ot oid) (Some now) tbl) =
        (keys tbl, (holder tbl)(row_key r := state_holder (owned_by ot oid)))"
      using c(1) by (intro set_state_one assms(2)) (auto simp: keys_def)
    moreover have "holder tbl (row_key r) = None" using holder_of_row [OF assms(2) c(1)] c(3) by simp
    moreover have "row_key r \<in> keys tbl" using c(1) by (simp add: keys_def)
    ultimately show ?thesis using assms(2) unfolding one(2) step_allocate(2)
      by (simp add: abs_pool_def [of tbl] acquire)
  qed
next
  case (step_allocate_exact oid ot now pool v)
  let ?P = "row_in pool (to_str T v) Free"
  show ?thesis
  proof (cases "filter ?P tbl = []")
    case True
    then show ?thesis using step_allocate_exact assms(2) stutter by (simp add: allocate_exact_row_in)
  next
    case False
    note p = row_in_some [OF assms(2) False]
    then show ?thesis using False assms(2) step_allocate_exact(1) unfolding step_allocate_exact(2) allocate_exact_row_in
      by (simp add: abs_pool_def [of tbl] acquire)
  qed
next
  case (step_release oid ot pool v)
  let ?P = "row_in pool (to_str T v) (owned_by ot oid)"
  show ?thesis
  proof (cases "filter ?P tbl = []")
    case True
    then show ?thesis using step_release assms(2) stutter by (simp add: release_row_in row_in_none)
  next
    case False
    note p = row_in_some [OF assms(2) False]
    then show ?thesis using False assms(2) step_release(1) unfolding step_release(2) release_row_in
      by (simp add: abs_pool_def [of tbl] give_back)
  qed
qed


section \<open>Pools of one type\<close>

text \<open>
  A pool is typed when the text of each of its values is the printed form of a value that its type
  can read back. Printing and reading are a contract of the value type.
\<close>

definition typed_pool :: "('a \<Rightarrow> string) \<Rightarrow> ('a \<Rightarrow> bool) \<Rightarrow> resource_pool \<Rightarrow> pool_table \<Rightarrow> bool" where
  "typed_pool shw valid pool tbl \<longleftrightarrow>
     (\<forall>r \<in> set tbl. rp_name r = pool_name pool \<longrightarrow> (\<exists>v. valid v \<and> rp_value r = shw v))"

lemma set_state_values: "map (\<lambda>r. (rp_name r, rp_value r, rp_auto_assign r)) (set_state P s a tbl) =
    map (\<lambda>r. (rp_name r, rp_value r, rp_auto_assign r)) tbl"
  by (simp add: set_state_def)

lemma typed_pool_values:
  "typed_pool shw valid pool tbl \<longleftrightarrow> (\<forall>(n, s, a) \<in> set (map (\<lambda>r. (rp_name r, rp_value r, rp_auto_assign r)) tbl).
     n = pool_name pool \<longrightarrow> (\<exists>v. valid v \<and> s = shw v))"
  by (auto simp: typed_pool_def)

lemma typed_set_state [simp]: "typed_pool shw valid pool (set_state P s a tbl) = typed_pool shw valid pool tbl"
  unfolding typed_pool_values set_state_values ..

lemma typed_insert:
  "typed_pool shw valid pool tbl \<Longrightarrow> pool_name pool' = pool_name pool \<longrightarrow> (\<exists>x. valid x \<and> v = shw x) \<Longrightarrow>
   typed_pool shw valid pool (pool_insert pool' auto v tbl)"
  by (auto simp: typed_pool_def pool_insert_def)

lemma typed_populate:
  assumes "typed_pool shw valid pool tbl" "pool_name pool' = pool_name pool \<longrightarrow> (\<forall>v \<in> set vs. \<exists>x. valid x \<and> f v = shw x)"
  shows "typed_pool shw valid pool (populate_pool f pool' vs auto tbl)"
  using assms
proof (induction vs arbitrary: tbl)
  case (Cons v vs)
  have "typed_pool shw valid pool (pool_insert pool' auto (f v) tbl)"
    using Cons.prems by (intro typed_insert) auto
  then show ?case using Cons.IH [of "pool_insert pool' auto (f v) tbl"] Cons.prems(2)
    by (simp add: populate_pool_def)
qed (simp add: populate_pool_def)

locale pool_values =
  fixes T :: "'a text_ops" and valid :: "'a \<Rightarrow> bool"
  assumes read_back: "valid v \<Longrightarrow> of_str T (to_str T v) = Inr v"
begin

lemma to_str_inj: "valid v \<Longrightarrow> valid w \<Longrightarrow> to_str T v = to_str T w \<longleftrightarrow> v = w"
  using read_back by (metis sum.inject(2))

lemma typed_parse:
  assumes "typed_pool (to_str T) valid pool tbl" "r \<in> set tbl" "rp_name r = pool_name pool"
  obtains v where "valid v" "rp_value r = to_str T v" "parse_value T pool ot oid (rp_value r) = Inr v"
proof -
  obtain v where "valid v" "rp_value r = to_str T v" using assms by (auto simp: typed_pool_def)
  then show ?thesis using read_back that by (simp add: parse_value_def)
qed

lemma allocate_Inr:
  assumes "pool_wf tbl" "typed_pool (to_str T) valid pool tbl" "allocate now locked rnd T pool ot oid req tbl = (tbl', Inr v)"
  obtains r where "r \<in> set (candidates (pool_name pool) (req = None) (map_option (to_str T) req) locked tbl)"
      "tbl' = set_state (\<lambda>q. row_key q = row_key r) (owned_by ot oid) (Some now) tbl"
      "valid v" "row_key r = (pool_name pool, to_str T v)"
  using assms(1,3)
proof (cases rule: allocate_cases)
  case (one r)
  note c = candidate_free [OF one(1)]
  obtain w where w: "valid w" "rp_value r = to_str T w" "parse_value T pool ot oid (rp_value r) = Inr w"
    using typed_parse [OF assms(2) c(1,2)] .
  then have "w = v" using one(3) by simp
  then show ?thesis using that [OF one(1,2)] w c(2) by (simp add: row_key_def)
qed simp

lemma allocate_takes:
  assumes "pool_wf tbl" "typed_pool (to_str T) valid pool tbl" "allocate now locked rnd T pool ot oid req tbl = (tbl', Inr v)"
  shows "valid v" "holder tbl (pool_name pool, to_str T v) = None"
    "abs_pool tbl' = (keys tbl, (holder tbl)((pool_name pool, to_str T v) \<mapsto> (oid, show_owner_type ot)))"
    "pool_wf tbl'" "typed_pool (to_str T) valid pool tbl'"
proof -
  obtain r where r: "r \<in> set (candidates (pool_name pool) (req = None) (map_option (to_str T) req) locked tbl)"
      "tbl' = set_state (\<lambda>q. row_key q = row_key r) (owned_by ot oid) (Some now) tbl"
      "valid v" "row_key r = (pool_name pool, to_str T v)"
    using allocate_Inr [OF assms] .
  note c = candidate_free [OF r(1)]
  show "valid v" "pool_wf tbl'" "typed_pool (to_str T) valid pool tbl'" using r assms by simp_all
  show "holder tbl (pool_name pool, to_str T v) = None" using holder_of_row [OF assms(1) c(1)] c(3) r(4) by simp
  have "abs_pool tbl' = (keys tbl, (holder tbl)(row_key r := state_holder (owned_by ot oid)))"
    unfolding r(2) using c(1) by (intro set_state_one assms(1)) (auto simp: keys_def)
  then show "abs_pool tbl' = (keys tbl, (holder tbl)((pool_name pool, to_str T v) \<mapsto> (oid, show_owner_type ot)))"
    using r(4) by simp
qed

end

interpretation int_pool: pool_values "int_text lo hi" "\<lambda>v. lo \<le> v \<and> v \<le> hi" for lo hi
  by unfold_locales (simp add: int_text_def from_str_radix_show)

text \<open>
  The effect of an operation on the table depends on its values only through their text, so the
  operations of every pool are operations of one that holds text.
\<close>

definition raw_text :: "string text_ops" where
  "raw_text = \<lparr>to_str = id, of_str = Inr\<rparr>"

lemma allocate_raw:
  "fst (allocate now locked rnd T pool ot oid req tbl) =
   fst (allocate now locked rnd raw_text pool ot oid (map_option (to_str T) req) tbl)"
  by (simp add: allocate_def raw_text_def Let_def option.map_id option.map_comp)

lemma populate_raw: "populate_pool f pool vs auto tbl = populate_pool id pool (map f vs) auto tbl"
  by (simp add: populate_pool_def fold_map o_def)

lemma pool_step_raw:
  assumes "pool_step T me tbl tbl'"
  shows "pool_step raw_text me tbl tbl'"
  using assms
proof (cases rule: pool_step.cases)
  case (step_populate pool vs auto)
  then show ?thesis
    using pool_step.step_populate [of raw_text me tbl pool "map (to_str T) vs" auto]
    by (simp add: populate_raw [of "to_str T"] raw_text_def)
next
  case (step_allocate oid ot now locked rnd pool req)
  then show ?thesis unfolding allocate_raw [of now locked rnd T] by (blast intro: pool_step.step_allocate)
next
  case (step_allocate_exact oid ot now pool v)
  have "fst (allocate_exact now T pool ot oid v tbl) = fst (allocate_exact now raw_text pool ot oid (to_str T v) tbl)"
    by (simp add: allocate_exact_def raw_text_def Let_def)
  then show ?thesis using step_allocate_exact by (auto intro: pool_step.step_allocate_exact)
next
  case (step_release oid ot pool v)
  have "fst (release T pool v ot oid tbl) = fst (release raw_text pool (to_str T v) ot oid tbl)"
    by (simp add: release_def raw_text_def Let_def)
  then show ?thesis using step_release by (auto intro: pool_step.step_release)
qed

text \<open>Any number of operations, on any pool, by owners other than \<open>me\<close>.\<close>

definition others_step :: "pool_owner \<Rightarrow> pool_table \<Rightarrow> pool_table \<Rightarrow> bool" where
  "others_step me tbl tbl' \<longleftrightarrow> (\<exists>you. you \<noteq> me \<and> pool_step raw_text you tbl tbl')"

inductive_cases holders_stepE: "holders_step me (D, H) (D', H')"

lemma others_keep:
  assumes "(others_step me)\<^sup>*\<^sup>* tbl tbl'" "pool_wf tbl" "holder tbl k = Some me"
  shows "pool_wf tbl' \<and> holder tbl' k = Some me"
  using assms
proof (induction rule: rtranclp_induct)
  case (step t t')
  then obtain you where you: "you \<noteq> me" "pool_step raw_text you t t'" by (auto simp: others_step_def)
  with step have "pool_wf t'" "holders_step you (keys t, holder t) (keys t', holder t')"
    using pool_step_refines [of raw_text you t t'] by (simp_all add: abs_pool_def)
  then show ?case using step you(1) by (auto elim!: holders_stepE)
qed simp

text \<open>A free row carries no allocation time.\<close>

definition free_unstamped :: "pool_table \<Rightarrow> bool" where
  "free_unstamped tbl \<longleftrightarrow> (\<forall>r \<in> set tbl. rp_state r = Free \<longrightarrow> rp_allocated r = None)"

lemma set_state_back:
  assumes "\<And>r. r \<in> set tbl \<Longrightarrow> P r \<Longrightarrow> rp_state r = s0 \<and> rp_allocated r = a0"
    "\<And>r. r \<in> set tbl \<Longrightarrow> Q (if P r then r\<lparr>rp_state := s, rp_allocated := a\<rparr> else r) \<longleftrightarrow> P r"
  shows "set_state Q s0 a0 (set_state P s a tbl) = tbl"
  unfolding set_state_def map_map
proof (rule map_idI)
  fix r assume r: "r \<in> set tbl"
  show "((\<lambda>r. if Q r then r\<lparr>rp_state := s0, rp_allocated := a0\<rparr> else r) \<circ>
      (\<lambda>r. if P r then r\<lparr>rp_state := s, rp_allocated := a\<rparr> else r)) r = r"
    using assms(1) [OF r] assms(2) [OF r] by (cases r) auto
qed

lemma count_rows_0: "count_rows P name tbl = 0 \<longleftrightarrow> (\<forall>r \<in> set tbl. rp_name r = name \<longrightarrow> \<not> P r)"
  by (auto simp: count_rows_def filter_empty_conv)

lemma allocate_refused:
  assumes "candidates (pool_name pool) (req = None) (map_option (to_str T) req) locked tbl = []"
  shows "allocate now locked rnd T pool ot oid req tbl =
     (tbl, Inl (if \<forall>r \<in> set tbl. rp_name r = pool_name pool \<longrightarrow> \<not> (rp_state r = Free \<and> rp_auto_assign r = (req = None))
                then PoolError Empty
                else case req of None \<Rightarrow> DatabaseErr (RowNotFound ''allocate'') | Some x \<Rightarrow> DatabaseErr (unavailable (to_str T x) pool)))"
  using assms by (cases req) (auto simp: allocate_def stats_def Let_def count_rows_0)

context pool_values
begin

lemma exclusive:
  assumes "pool_wf tbl" "typed_pool (to_str T) valid pool tbl" "typed_pool (to_str T) valid pool tbl2"
    "allocate now locked rnd T pool ot oid req tbl = (tbl1, Inr v)"
    "(others_step (oid, show_owner_type ot))\<^sup>*\<^sup>* tbl1 tbl2"
    "allocate now' locked' rnd' T pool ot' oid' req' tbl2 = (tbl3, Inr v')"
  shows "v' \<noteq> v"
proof -
  note t = allocate_takes [OF assms(1,2,4)]
  then have "holder tbl1 (pool_name pool, to_str T v) = Some (oid, show_owner_type ot)" by (simp add: abs_pool_def)
  with others_keep [OF assms(5) t(4)]
  have w: "pool_wf tbl2" "holder tbl2 (pool_name pool, to_str T v) = Some (oid, show_owner_type ot)" by simp_all
  then show ?thesis using allocate_takes(2) [OF w(1) assms(3,6)] by auto
qed

lemma alloc_result:
  assumes "pool_wf tbl" "typed_pool (to_str T) valid pool tbl"
    "candidates (pool_name pool) (req = None) (map_option (to_str T) req) locked tbl \<noteq> []"
  shows "\<exists>v. snd (allocate now locked rnd T pool ot oid req tbl) = Inr v"
proof -
  obtain tbl' res where a: "allocate now locked rnd T pool ot oid req tbl = (tbl', res)" by (rule prod.exhaust)
  from assms(1) a show ?thesis
  proof (cases rule: allocate_cases)
    case (one r)
    note c = candidate_free [OF one(1)]
    obtain v where "parse_value T pool ot oid (rp_value r) = Inr v" using typed_parse [OF assms(2) c(1,2)] .
    then show ?thesis using a one(3) by simp
  qed (use assms(3) in simp)
qed

lemma alloc_release:
  assumes "pool_wf tbl" "typed_pool (to_str T) valid pool tbl" "free_unstamped tbl"
    "allocate now locked rnd T pool ot oid req tbl = (tbl1, Inr v)"
  shows "release T pool v ot oid tbl1 = (tbl, Applied ())"
proof -
  obtain r where r: "r \<in> set (candidates (pool_name pool) (req = None) (map_option (to_str T) req) locked tbl)"
      "tbl1 = set_state (\<lambda>q. row_key q = row_key r) (owned_by ot oid) (Some now) tbl"
      "valid v" "row_key r = (pool_name pool, to_str T v)"
    using allocate_Inr [OF assms(1,2,4)] .
  note c = candidate_free [OF r(1)]
  let ?Q = "row_in pool (to_str T v) (owned_by ot oid)"
  have one: "q = r" if "q \<in> set tbl" "row_key q = row_key r" for q using row_unique [OF assms(1) c(1) that(1)] that by simp
  have "set_state ?Q Free None tbl1 = tbl"
    unfolding r(2)
  proof (rule set_state_back)
    fix q assume q: "q \<in> set tbl"
    show "rp_state q = Free \<and> rp_allocated q = None" if "row_key q = row_key r"
      using one [OF q that] c(1,3) assms(3) by (auto simp: free_unstamped_def)
    show "?Q (if row_key q = row_key r then q\<lparr>rp_state := owned_by ot oid, rp_allocated := Some now\<rparr> else q) \<longleftrightarrow> row_key q = row_key r"
      using r(4) by (auto simp: row_in_def row_key_def)
  qed
  moreover have "r\<lparr>rp_state := owned_by ot oid, rp_allocated := Some now\<rparr> \<in> set (filter ?Q tbl1)"
    using c(1) r(4) by (auto simp: r(2) set_state_def row_in_def row_key_def intro!: image_eqI [of _ _ r])
  then have "filter ?Q tbl1 \<noteq> []" by (metis empty_iff list.set(1))
  ultimately show ?thesis by (simp add: release_row_in)
qed

end

text \<open>
  C5: the resource pool table refines the map of holders. Whatever an owner does to the table -
  seed a pool, allocate from it, allocate one value, release one - is one step of that owner in the
  specification: a value is taken only when nobody holds it, and given back only by its holder.
\<close>

theorem pool_refines_holders:
  assumes "pool_step T me tbl tbl'" "pool_wf tbl"
  shows "pool_wf tbl' \<and> holders_step me (abs_pool tbl) (abs_pool tbl')"
  using assms by (rule pool_step_refines)

lemma show_int_inj: "show_int v = show_int w \<longleftrightarrow> v = w"
  using from_str_radix_show [of "min v w" v "max v w"] from_str_radix_show [of "min v w" w "max v w"]
  by (metis max.cobounded1 max.cobounded2 min.cobounded1 min.cobounded2 sum.inject(2))

lemma show_owner_type_inj: "show_owner_type a = show_owner_type b \<longleftrightarrow> a = b"
  by (cases a; cases b) simp_all

lemma int_text_simps [simp]: "to_str (int_text lo hi) = show_int" "of_str (int_text lo hi) = from_str_radix lo hi 10"
  by (simp_all add: int_text_def)

text \<open>A pool of VLAN ids for the examples: 10 and 11, handed out automatically, and 12 on request.\<close>

definition vlan_pool :: resource_pool where
  "vlan_pool = \<lparr>pool_name = ''vlan-id'', pool_value_type = Integer\<rparr>"

definition vlan_table :: pool_table where
  "vlan_table = populate_pool show_int vlan_pool [12] False (populate_pool show_int vlan_pool [10, 11] True [])"

lemma show_vlans: "show_int 10 = ''10''" "show_int 11 = ''11''" "show_int 12 = ''12''"
  by (simp_all add: show_int_def show_nat.simps digit_char_def char_of_def bit_0)

lemma vlan_table_rows:
  "vlan_table = map (\<lambda>(v, auto). \<lparr>rp_name = ''vlan-id'', rp_value = v, rp_value_type = Integer, rp_state = Free,
     rp_allocated = None, rp_auto_assign = auto\<rparr>) [(''10'', True), (''11'', True), (''12'', False)]"
  by (simp add: vlan_table_def populate_pool_def pool_insert_def vlan_pool_def show_vlans)

lemma vlan_table_facts:
  "pool_wf vlan_table" "typed_pool show_int (\<lambda>v. - 32768 \<le> v \<and> v \<le> 32767) vlan_pool vlan_table" "free_unstamped vlan_table"
proof -
  show "pool_wf vlan_table" unfolding vlan_table_def by (intro populate_wf) (simp add: pool_wf_def)
  show "typed_pool show_int (\<lambda>v. - 32768 \<le> v \<and> v \<le> 32767) vlan_pool vlan_table"
    unfolding vlan_table_def by (intro typed_populate) (auto simp: typed_pool_def show_int_inj)
  show "free_unstamped vlan_table"
    by (simp add: free_unstamped_def vlan_table_rows)
qed

text \<open>
  C13: an allocated value has one owner. Once an integer has been allocated, then whatever any other
  owners do to any pool, no later allocation from the same pool returns it, as long as its owner
  does not act on the table.
\<close>

theorem allocated_integer_is_exclusive:
  assumes "pool_wf tbl" "typed_pool show_int (\<lambda>v. lo \<le> v \<and> v \<le> hi) pool tbl"
    "typed_pool show_int (\<lambda>v. lo \<le> v \<and> v \<le> hi) pool tbl2"
    "allocate now locked rnd (int_text lo hi) pool ot oid req tbl = (tbl1, Inr v)"
    "(others_step (oid, show_owner_type ot))\<^sup>*\<^sup>* tbl1 tbl2"
    "allocate now' locked' rnd' (int_text lo hi) pool ot' oid' req' tbl2 = (tbl3, Inr v')"
  shows "v' \<noteq> v"
  using int_pool.exclusive [of tbl lo hi pool tbl2] assms by simp

lemma vlan_reads: "from_str_radix (- 32768) 32767 10 ''10'' = Inr 10" "from_str_radix (- 32768) 32767 10 ''11'' = Inr 11"
  using from_str_radix_show [of "- 32768" 10 32767] from_str_radix_show [of "- 32768" 11 32767] by (simp_all add: show_vlans)

lemmas vlan_eval = vlan_table_rows allocate_def candidates_def Let_def vlan_pool_def parse_value_def vlan_reads set_state_def owned_by_def

lemma vlan_first: "allocate 7 {} 0 (int_text (- 32768) 32767) vlan_pool NetworkSegment ''a'' None vlan_table =
    (set_state (\<lambda>r. rp_value r = ''10'') (Allocated ''a'' ''network_segment'') (Some 7) vlan_table, Inr 10)"
  by (simp add: vlan_eval)

lemma vlan_second: "snd (allocate 8 {} 0 (int_text (- 32768) 32767) vlan_pool NetworkSegment ''b'' None
    (set_state (\<lambda>r. rp_value r = ''10'') (Allocated ''a'' ''network_segment'') (Some 7) vlan_table)) = Inr 11"
  by (simp add: vlan_eval)

theorem pool_refines_holders_witness:
  "holders_step (''a'', ''network_segment'') (abs_pool vlan_table)
     (abs_pool (set_state (\<lambda>r. rp_value r = ''10'') (Allocated ''a'' ''network_segment'') (Some 7) vlan_table))"
proof -
  have "pool_step (int_text (- 32768) 32767) (''a'', ''network_segment'') vlan_table
      (fst (allocate 7 {} 0 (int_text (- 32768) 32767) vlan_pool NetworkSegment ''a'' None vlan_table))"
    by (rule step_allocate) simp
  from pool_refines_holders [OF this vlan_table_facts(1)] show ?thesis by (simp add: vlan_first)
qed

theorem allocated_integer_is_exclusive_witness:
  "\<exists>tbl1 tbl3. allocate 7 {} 0 (int_text (- 32768) 32767) vlan_pool NetworkSegment ''a'' None vlan_table = (tbl1, Inr 10) \<and>
     allocate 8 {} 0 (int_text (- 32768) 32767) vlan_pool NetworkSegment ''b'' None tbl1 = (tbl3, Inr 11) \<and> (11 :: int) \<noteq> 10"
proof -
  let ?t = "set_state (\<lambda>r. rp_value r = ''10'') (Allocated ''a'' ''network_segment'') (Some 7) vlan_table"
  obtain t3 where t3: "allocate 8 {} 0 (int_text (- 32768) 32767) vlan_pool NetworkSegment ''b'' None ?t = (t3, Inr 11)"
    using vlan_second by (metis prod.collapse)
  from allocated_integer_is_exclusive [OF vlan_table_facts(1,2) _ vlan_first _ t3]
  have "(11 :: int) \<noteq> 10" using vlan_table_facts(2) by simp
  then show ?thesis using vlan_first t3 by blast
qed



text \<open>
  C20: release undoes allocation. Releasing an allocated integer with its owner puts the whole
  table back to what it was before the allocation; releasing it as another owner is
  refused and changes nothing.
\<close>

theorem release_undoes_allocate:
  assumes "pool_wf tbl" "typed_pool show_int (\<lambda>v. lo \<le> v \<and> v \<le> hi) pool tbl" "free_unstamped tbl"
    "allocate now locked rnd (int_text lo hi) pool ot oid req tbl = (tbl1, Inr v)"
  shows "release (int_text lo hi) pool v ot oid tbl1 = (tbl, Applied ()) \<and>
    (if (oid', ot') = (oid, ot) then True
     else release (int_text lo hi) pool v ot' oid' tbl1 = (tbl1, NotApplied ResourcePoolAllocationNotOwned))"
proof -
  have typed: "typed_pool (to_str (int_text lo hi)) (\<lambda>v. lo \<le> v \<and> v \<le> hi) pool tbl" using assms(2) by simp
  note t = int_pool.allocate_takes [OF assms(1) typed assms(4)]
  show ?thesis
  proof (cases "(oid', ot') = (oid, ot)")
    case True
    then show ?thesis using int_pool.alloc_release [OF assms(1) typed assms(3,4)] by simp
  next
    case False
    let ?s = "owned_by ot' oid'"
    from False have "state_holder ?s \<noteq> Some (oid, show_owner_type ot)" by (simp add: show_owner_type_inj)
    moreover have "holder tbl1 (pool_name pool, show_int v) = Some (oid, show_owner_type ot)" using t(3) by (simp add: abs_pool_def)
    ultimately have "filter (row_in pool (show_int v) ?s) tbl1 = []"
      using row_in_some(2) [OF t(4), of pool "show_int v" ?s] by metis
    then have "release (int_text lo hi) pool v ot' oid' tbl1 = (tbl1, NotApplied ResourcePoolAllocationNotOwned)"
      using row_in_none [of pool "show_int v" ?s tbl1 Free None] by (simp add: release_row_in)
    then show ?thesis unfolding if_not_P [OF False] using int_pool.alloc_release [OF assms(1) typed assms(3,4)] by (rule conjI [rotated])
  qed
qed

theorem release_undoes_allocate_witness:
  "release (int_text (- 32768) 32767) vlan_pool 10 NetworkSegment ''a''
     (set_state (\<lambda>r. rp_value r = ''10'') (Allocated ''a'' ''network_segment'') (Some 7) vlan_table) = (vlan_table, Applied ())"
  using release_undoes_allocate [OF vlan_table_facts vlan_first, of "''a''" NetworkSegment] by simp

section \<open>Seeding\<close>

text \<open>\<open>grows name tbl tbl'\<close>: the rows of \<open>tbl\<close> are kept as they are, and the new ones are free values of the pool \<open>name\<close>.\<close>

definition grows :: "string set \<Rightarrow> pool_table \<Rightarrow> pool_table \<Rightarrow> bool" where
  "grows names tbl tbl' \<longleftrightarrow>
     (\<exists>new. tbl' = tbl @ new \<and> (\<forall>r \<in> set new. rp_name r \<in> names \<and> rp_state r = Free)) \<and> (pool_wf tbl \<longrightarrow> pool_wf tbl')"

lemma grows_refl: "grows names tbl tbl"
  by (simp add: grows_def)

lemma grows_trans: "grows names t1 t2 \<Longrightarrow> grows names t2 t3 \<Longrightarrow> grows names t1 t3"
  unfolding grows_def by fastforce

lemma grows_mono: "grows names t1 t2 \<Longrightarrow> names \<subseteq> names' \<Longrightarrow> grows names' t1 t2"
  unfolding grows_def by blast

lemma grows_insert: "grows {pool_name pool} tbl (pool_insert pool auto v tbl)"
  using insert_wf [of tbl pool auto v] by (auto simp: grows_def pool_insert_def)

lemma grows_populate: "grows {pool_name pool} tbl (populate_pool shw pool vs auto tbl)"
proof (induction vs arbitrary: tbl)
  case (Cons v vs)
  show ?case using grows_trans [OF grows_insert Cons.IH [of "pool_insert pool auto (shw v) tbl"]]
    by (simp add: populate_pool_def)
qed (simp add: populate_pool_def grows_refl)

lemma grows_fill: "fill name vt shw auto vs tbl = Inr tbl' \<Longrightarrow> grows {name} tbl tbl'"
  using grows_populate [of "\<lparr>pool_name = name, pool_value_type = vt\<rparr>" tbl shw "projr vs" auto]
  by (auto simp: fill_def split: sum.splits)

lemma grows_prefix: "define_by_prefix N name t pfx len tbl = Inr tbl' \<Longrightarrow> grows {name} tbl tbl'"
  by (auto simp: define_by_prefix_def grows_fill split: pool_type.splits option.splits)

lemma grows_range: "define_by_range N name t a b auto tbl = Inr tbl' \<Longrightarrow> grows {name} tbl tbl'"
  by (auto simp: define_by_range_def grows_fill split: pool_type.splits)

lemma grows_ranges: "define_by_ranges N name t rs tbl = Inr tbl' \<Longrightarrow> grows {name} tbl tbl'"
proof (induction rs arbitrary: tbl)
  case (Cons r rs)
  then obtain t1 where "define_by_range N name t (range_start r) (range_end r) (range_auto_assign r) tbl = Inr t1"
    "define_by_ranges N name t rs t1 = Inr tbl'" by (auto split: sum.splits)
  then show ?case using grows_trans [OF grows_range Cons.IH] by blast
qed (simp add: grows_refl)

lemma grows_define: "define_pool N name d tbl = Inr tbl' \<Longrightarrow> grows {name} tbl tbl'"
  by (auto simp: define_pool_def grows_prefix grows_ranges split: if_splits option.splits)

lemma grows_define_all: "define_all_from N ds tbl = Inr tbl' \<Longrightarrow> grows (fst ` set ds) tbl tbl'"
proof (induction ds arbitrary: tbl)
  case (Cons d ds)
  obtain name pd where d: "d = (name, pd)" by (rule prod.exhaust)
  show ?case
  proof (cases "define_pool N name pd tbl")
    case (Inl e)
    then show ?thesis using Cons.prems by (simp add: d)
  next
    case (Inr t1)
    then have "define_all_from N ds t1 = Inr tbl'" using Cons.prems by (simp add: d)
    then have "grows (fst ` set (d # ds)) t1 tbl'" by (intro grows_mono [OF Cons.IH]) auto
    moreover have "grows (fst ` set (d # ds)) tbl t1" by (rule grows_mono [OF grows_define [OF Inr]]) (simp add: d)
    ultimately show ?thesis by (rule grows_trans [rotated])
  qed
qed (simp add: grows_refl)

lemma insert_pool_def_Inr: "insert_pool_def name d defs = Inr defs' \<longleftrightarrow> map_of defs name = None \<and> defs' = defs @ [(name, d)]"
  unfolding insert_pool_def_def by (cases "map_of defs name") auto

lemma reconcile_one_stored:
  assumes "map_of stored name = Some old"
  shows "\<exists>log'. reconcile_one N stored name d (tbl, defs, log) = Inr (tbl, defs, log')"
  using assms by (cases "pool_has_rows name tbl"; cases "old = d") (simp_all add: reconcile_one_def stored_def_def)

lemma reconcile_one_new:
  assumes "map_of stored name = None" "reconcile_one N stored name d (tbl, defs, log) = Inr (tbl', defs', log')"
  shows "grows {name} tbl tbl'" "defs' = defs @ [(name, d)]" "map_of defs name = None"
proof -
  have "grows {name} tbl tbl' \<and> defs' = defs @ [(name, d)] \<and> map_of defs name = None"
  proof (cases "pool_has_rows name tbl")
    case True
    then show ?thesis
      using assms grows_refl [of "{name}" tbl] insert_pool_def_Inr [of name d defs defs']
      by (cases "insert_pool_def name d defs") (simp_all add: reconcile_one_def stored_def_def)
  next
    case False
    then show ?thesis
      using assms grows_define [of N name d tbl] insert_pool_def_Inr [of name d defs defs']
      by (cases "define_pool N name d tbl"; cases "insert_pool_def name d defs") (simp_all add: reconcile_one_def stored_def_def)
  qed
  then show "grows {name} tbl tbl'" "defs' = defs @ [(name, d)]" "map_of defs name = None" by simp_all
qed

lemma reconcile_each_grows:
  assumes "reconcile_each N stored ds (tbl, defs, log) = Inr (tbl', defs', log')" "map_of stored \<subseteq>\<^sub>m map_of defs"
  shows "grows (fst ` {d \<in> set ds. map_of stored (fst d) = None}) tbl tbl' \<and>
    defs' = defs @ filter (\<lambda>d. map_of stored (fst d) = None) ds"
  using assms
proof (induction ds arbitrary: tbl defs log)
  case (Cons d ds)
  obtain name pd where d: "d = (name, pd)" by (rule prod.exhaust)
  let ?new = "\<lambda>ds. fst ` {d \<in> set ds. map_of stored (fst d) = None}"
  show ?case
  proof (cases "map_of stored name")
    case (Some old)
    then obtain log1 where "reconcile_one N stored name pd (tbl, defs, log) = Inr (tbl, defs, log1)"
      using reconcile_one_stored by metis
    then have "reconcile_each N stored ds (tbl, defs, log1) = Inr (tbl', defs', log')" using Cons.prems(1) by (simp add: d)
    from Cons.IH [OF this Cons.prems(2)] have IH: "grows (?new ds) tbl tbl'"
      "defs' = defs @ filter (\<lambda>d. map_of stored (fst d) = None) ds" by simp_all
    show ?thesis using IH(2) Some by (intro conjI grows_mono [OF IH(1)]) (auto simp: d)
  next
    case None
    obtain t1 defs1 log1 where one: "reconcile_one N stored name pd (tbl, defs, log) = Inr (t1, defs1, log1)"
      using Cons.prems(1) by (cases "reconcile_one N stored name pd (tbl, defs, log)") (auto simp: d)
    note n = reconcile_one_new [OF None one]
    have "reconcile_each N stored ds (t1, defs1, log1) = Inr (tbl', defs', log')" using Cons.prems(1) one by (simp add: d)
    moreover have "map_of stored \<subseteq>\<^sub>m map_of defs1"
      using Cons.prems(2) unfolding n(2) map_le_def by (auto simp: map_add_def dom_def)
    ultimately have IH: "grows (?new ds) t1 tbl'"
      "defs' = defs1 @ filter (\<lambda>d. map_of stored (fst d) = None) ds" using Cons.IH by blast+
    have "grows (?new (d # ds)) tbl t1" by (rule grows_mono [OF n(1)]) (use None d in force)
    moreover have "grows (?new (d # ds)) t1 tbl'" by (rule grows_mono [OF IH(1)]) auto
    ultimately have "grows (?new (d # ds)) tbl tbl'" by (rule grows_trans)
    then show ?thesis using IH(2) n(2) None by (simp add: d)
  qed
qed (simp add: grows_refl)

lemma reconcile_each_stored:
  assumes "\<And>d. d \<in> set ds \<Longrightarrow> map_of stored (fst d) \<noteq> None"
  shows "\<exists>log'. reconcile_each N stored ds (tbl, defs, log) = Inr (tbl, defs, log')"
  using assms
proof (induction ds arbitrary: log)
  case (Cons d ds)
  obtain name pd where d: "d = (name, pd)" by (rule prod.exhaust)
  obtain old where "map_of stored name = Some old" using Cons.prems [of d] d by auto
  from reconcile_one_stored [OF this] obtain log1
    where "reconcile_one N stored name pd (tbl, defs, log) = Inr (tbl, defs, log1)" by blast
  then show ?case using Cons.IH [of log1] Cons.prems by (simp add: d)
qed simp

end
