(* ===== verification/Pool_Networks.thy ===== *)
theory Pool_Networks
  imports Pool_Theorems
begin

text \<open>
  The pools of IPv6 networks. The contract of the \<open>ipnetwork\<close> package is a locale; in it, the networks that a
  delegation pool is seeded with are shown to partition the parent. A reference implementation
  of the package interprets the locale.
\<close>

section \<open>The contract\<close>

lemma unat_small: "n < 2 ^ LENGTH('a) \<Longrightarrow> unat (word_of_nat n :: 'a :: len word) = n"
  by (simp add: unsigned_of_nat take_bit_nat_eq_self)

definition block6 :: "('n4, 'n6) ipnetwork \<Rightarrow> 'n6 \<Rightarrow> nat set" where
  "block6 N n = {unat (network6 N n) ..< unat (network6 N n) + 2 ^ (128 - prefix6 N n)}"

locale ipnetwork_laws =
  fixes N :: "('n4, 'n6) ipnetwork"
  assumes prefix6_le: "prefix6 N n \<le> 128"
    and new6_ok: "l \<le> 128 \<Longrightarrow> \<exists>n. new6 N a l = Inr n \<and> ip6 N n = a \<and> prefix6 N n = l"
    and network6_mask: "unat (network6 N n) = unat (ip6 N n) - unat (ip6 N n) mod 2 ^ (128 - prefix6 N n)"
    and broadcast6_last: "unat (broadcast6 N n) = unat (network6 N n) + 2 ^ (128 - prefix6 N n) - 1"
begin

lemma network6_aligned: "2 ^ (128 - prefix6 N n) dvd unat (network6 N n)"
  unfolding network6_mask by (simp add: dvd_minus_mod)

lemma network6_end: "unat (network6 N n) + 2 ^ (128 - prefix6 N n) \<le> 2 ^ 128"
proof -
  let ?s = "2 ^ (128 - prefix6 N n) :: nat"
  obtain k where k: "unat (network6 N n) = ?s * k" using network6_aligned [of n] by (metis dvdE)
  have s: "(2 ^ 128 :: nat) = ?s * 2 ^ prefix6 N n" using prefix6_le [of n] by (simp flip: power_add)
  have "unat (network6 N n) < 2 ^ 128" using unsigned_less [of "network6 N n", where ?'a = nat] by simp
  then have "k < 2 ^ prefix6 N n" unfolding k s by simp
  then have "?s * Suc k \<le> ?s * 2 ^ prefix6 N n" by (intro mult_le_mono2) simp
  then show ?thesis unfolding k s by simp
qed

lemma build_networks_ok:
  assumes "l \<le> 128" "2 ^ (128 - l) dvd base" "\<And>i. i \<in> set is \<Longrightarrow> base + i * 2 ^ (128 - l) < 2 ^ 128"
  shows "\<exists>ns. build_networks N base (2 ^ (128 - l)) l is = Inr ns \<and>
    list_all2 (\<lambda>i n. prefix6 N n = l \<and> unat (network6 N n) = base + i * 2 ^ (128 - l)) is ns"
  using assms(3)
proof (induction "is")
  case (Cons i "is")
  let ?a = "base + i * 2 ^ (128 - l)"
  obtain n where n: "new6 N (word_of_nat ?a) l = Inr n" "ip6 N n = word_of_nat ?a" "prefix6 N n = l"
    using new6_ok [OF assms(1)] by blast
  have a: "unat (word_of_nat ?a :: u128) = ?a" using Cons.prems [of i] by (intro unat_small) simp
  have "2 ^ (128 - l) dvd ?a" using assms(2) by simp
  then have "unat (network6 N n) = ?a" unfolding network6_mask n a by simp
  then show ?case using Cons.IH Cons.prems n by (force simp: arg_def)
qed simp

end

section \<open>A reference implementation\<close>

definition split_network :: "string \<Rightarrow> string \<times> string option" where
  "split_network s =
     (case dropWhile (\<lambda>c. c \<noteq> CHR ''/'') s of
        [] \<Rightarrow> (s, None)
      | _ # len \<Rightarrow> (takeWhile (\<lambda>c. c \<noteq> CHR ''/'') s, Some len))"

definition ref_len :: "nat \<Rightarrow> string option \<Rightarrow> string + nat" where
  "ref_len w len = (case len of
      None \<Rightarrow> Inr w
    | Some l \<Rightarrow> (case from_str_radix 0 255 10 l of
        Inl e \<Rightarrow> Inl e
      | Inr p \<Rightarrow> if nat p \<le> w then Inr (nat p) else Inl ''invalid prefix''))"

definition ref_parse6 :: "string \<Rightarrow> string + (u128 \<times> nat)" where
  "ref_parse6 s = (case split_network s of (a, len) \<Rightarrow>
     (case parse_ipv6 a of Inl e \<Rightarrow> Inl e | Inr ip \<Rightarrow> map_sum id (Pair ip) (ref_len 128 len)))"

definition ref_parse4 :: "string \<Rightarrow> string + (u32 \<times> nat)" where
  "ref_parse4 s = (case split_network s of (a, len) \<Rightarrow>
     (case parse_ipv4 a of Inl e \<Rightarrow> Inl e | Inr ip \<Rightarrow> map_sum id (Pair ip) (ref_len 32 len)))"

definition ref_first :: "nat \<Rightarrow> nat \<Rightarrow> nat \<Rightarrow> nat" where
  "ref_first w a len = a - a mod 2 ^ (w - len)"

definition ref_last :: "nat \<Rightarrow> nat \<Rightarrow> nat \<Rightarrow> nat" where
  "ref_last w a len = ref_first w a len + 2 ^ (w - len) - 1"

definition ref_network :: "(u32 \<times> nat, u128 \<times> nat) ipnetwork" where
  "ref_network = \<lparr>
     parse_network = (\<lambda>s. case ref_parse4 s of Inr n \<Rightarrow> Inr (Inl n) | Inl _ \<Rightarrow> map_sum id Inr (ref_parse6 s)),
     parse_network6 = ref_parse6,
     network4 = (\<lambda>(a, len). word_of_nat (ref_first 32 (unat a) (min len 32))),
     broadcast4 = (\<lambda>(a, len). word_of_nat (ref_last 32 (unat a) (min len 32))),
     ip6 = fst,
     network6 = (\<lambda>(a, len). word_of_nat (ref_first 128 (unat a) (min len 128))),
     broadcast6 = (\<lambda>(a, len). word_of_nat (ref_last 128 (unat a) (min len 128))),
     prefix6 = (\<lambda>(_, len). min len 128),
     new6 = (\<lambda>a len. if len \<le> 128 then Inr (a, len) else Inl ''invalid prefix''),
     show6 = (\<lambda>(a, len). show_ipv6 a @ CHR ''/'' # show_nat len)\<rparr>"

lemma ref_last_bound:
  assumes "len \<le> w" "a < 2 ^ w"
  shows "ref_last w a len < 2 ^ w"
proof -
  let ?s = "2 ^ (w - len) :: nat"
  have s: "(2 ^ w :: nat) = ?s * 2 ^ len" using assms(1) by (simp flip: power_add)
  have "a div ?s < 2 ^ len" using assms(2) s by (simp add: less_mult_imp_div_less mult.commute)
  then have "?s * Suc (a div ?s) \<le> ?s * 2 ^ len" by (intro mult_le_mono2) simp
  then have "a - a mod ?s + ?s \<le> 2 ^ w" unfolding s minus_mod_eq_mult_div by simp
  moreover have "0 < ?s" by simp
  ultimately show ?thesis unfolding ref_last_def ref_first_def by linarith
qed

lemma ref_first_word: "unat (word_of_nat (ref_first 128 (unat (a :: u128)) len) :: u128) = ref_first 128 (unat a) len"
  using unsigned_less [of a, where ?'a = nat] by (intro unat_small) (simp add: ref_first_def less_imp_diff_less)

lemma ref_last_word: "len \<le> 128 \<Longrightarrow> unat (word_of_nat (ref_last 128 (unat (a :: u128)) len) :: u128) = ref_last 128 (unat a) len"
  using ref_last_bound [of len 128 "unat a"] unsigned_less [of a, where ?'a = nat] by (intro unat_small) simp

interpretation refnet: ipnetwork_laws ref_network
  by unfold_locales (auto simp: ref_network_def ref_first_word ref_last_word, simp_all add: ref_first_def ref_last_def)

section \<open>Delegation\<close>

lemma shl_one_le: "bits \<le> 128 \<Longrightarrow> shl_one bits > MAX_POOL_SIZE \<longleftrightarrow> 18 \<le> bits"
proof -
  have "MAX_POOL_SIZE < 2 ^ bits" if "18 \<le> bits" using power_increasing [OF that, of "2 :: nat"] by (simp add: MAX_POOL_SIZE_def)
  moreover have "2 ^ bits \<le> MAX_POOL_SIZE" if "bits \<le> 17" using power_increasing [OF that, of "2 :: nat"] by (simp add: MAX_POOL_SIZE_def)
  ultimately show "shl_one bits > MAX_POOL_SIZE \<longleftrightarrow> 18 \<le> bits"
    by (cases "18 \<le> bits") (auto simp: shl_one_def MAX_POOL_SIZE_def not_less)
qed

lemma interval_tiles: "(\<Union>i < k. {b + i * s ..< b + i * s + s}) = {b ..< b + k * (s :: nat)}"
  by (induction k) (auto simp: lessThan_Suc)

context ipnetwork_laws
begin

lemma tiles:
  assumes "l \<le> 128" "2 ^ (128 - l) dvd base" "base + k * 2 ^ (128 - l) \<le> 2 ^ 128"
  shows "\<exists>ns. build_networks N base (2 ^ (128 - l)) l [0 ..< k] = Inr ns \<and> length ns = k \<and>
    (\<forall>i < k. prefix6 N (ns ! i) = l \<and> block6 N (ns ! i) = {base + i * 2 ^ (128 - l) ..< base + i * 2 ^ (128 - l) + 2 ^ (128 - l)}) \<and>
    (\<Union>n \<in> set ns. block6 N n) = {base ..< base + k * 2 ^ (128 - l)}"
proof -
  let ?s = "2 ^ (128 - l) :: nat"
  have "base + i * ?s < 2 ^ 128" if "i \<in> set [0 ..< k]" for i
  proof -
    have "i * ?s < k * ?s" using that by simp
    then show ?thesis using assms(3) by linarith
  qed
  from build_networks_ok [OF assms(1,2) this]
  obtain ns where ns: "build_networks N base ?s l [0 ..< k] = Inr ns"
    "list_all2 (\<lambda>i n. prefix6 N n = l \<and> unat (network6 N n) = base + i * ?s) [0 ..< k] ns" by blast
  then have len: "length ns = k" using list_all2_lengthD [OF ns(2)] by simp
  have at: "prefix6 N (ns ! i) = l \<and> block6 N (ns ! i) = {base + i * ?s ..< base + i * ?s + ?s}" if "i < k" for i
    using list_all2_nthD [OF ns(2), of i] that by (simp add: block6_def)
  have "(\<Union>n \<in> set ns. block6 N n) = (\<Union>i < k. block6 N (ns ! i))" by (auto simp: set_conv_nth len)
  also have "\<dots> = (\<Union>i < k. {base + i * ?s ..< base + i * ?s + ?s})" using at by auto
  also have "\<dots> = {base ..< base + k * ?s}" by (rule interval_tiles)
  finally show ?thesis using ns(1) len at by (intro exI [of _ ns]) simp
qed

lemma delegation:
  assumes "parse_network N parent = Inr (Inr n)" "prefix6 N n < d" "d \<le> 128" "d - prefix6 N n \<le> 17"
  shows "\<exists>ns. expand_ipv6_prefix_delegation N parent d = Inr ns \<and> length ns = 2 ^ (d - prefix6 N n) \<and>
    (\<forall>i < length ns. prefix6 N (ns ! i) = d \<and>
       block6 N (ns ! i) = {unat (network6 N n) + i * 2 ^ (128 - d) ..< unat (network6 N n) + i * 2 ^ (128 - d) + 2 ^ (128 - d)}) \<and>
    (\<Union>m \<in> set ns. block6 N m) = block6 N n"
proof -
  let ?k = "2 ^ (d - prefix6 N n) :: nat"
  have k: "shl_one (d - prefix6 N n) = ?k" using assms by (simp add: shl_one_def)
  have small: "\<not> ?k > MAX_POOL_SIZE" using shl_one_le [of "d - prefix6 N n"] assms k by simp
  have size: "?k * 2 ^ (128 - d) = (2 ^ (128 - prefix6 N n) :: nat)" using assms by (simp flip: power_add)
  have "(2 ^ (128 - d) :: nat) dvd 2 ^ (128 - prefix6 N n)" using assms by (intro le_imp_power_dvd) simp
  then have "2 ^ (128 - d) dvd unat (network6 N n)" using network6_aligned dvd_trans by blast
  moreover have "unat (network6 N n) + ?k * 2 ^ (128 - d) \<le> 2 ^ 128" unfolding size by (rule network6_end)
  ultimately obtain ns where ns: "build_networks N (unat (network6 N n)) (2 ^ (128 - d)) d [0 ..< ?k] = Inr ns" "length ns = ?k"
    "\<forall>i < ?k. prefix6 N (ns ! i) = d \<and> block6 N (ns ! i) =
       {unat (network6 N n) + i * 2 ^ (128 - d) ..< unat (network6 N n) + i * 2 ^ (128 - d) + 2 ^ (128 - d)}"
    "(\<Union>m \<in> set ns. block6 N m) = {unat (network6 N n) ..< unat (network6 N n) + ?k * 2 ^ (128 - d)}"
    using tiles [OF assms(3), of "unat (network6 N n)" ?k] by blast
  have "expand_ipv6_prefix_delegation N parent d = Inr ns"
    unfolding expand_ipv6_prefix_delegation_def using assms(1-3) k small ns(1) by (simp del: upt.simps)
  moreover have "(\<Union>m \<in> set ns. block6 N m) = block6 N n" unfolding ns(4) size by (simp only: block6_def)
  ultimately show ?thesis using ns(2,3) by (intro exI [of _ ns]) (simp only: simp_thms)
qed

end

lemma read_groups_none: "read_groups (Suc k) 0 [] [] = ([], False, [])" "read_groups (Suc k) 0 [] ''::'' = ([], False, ''::'')"
  by (simp_all add: separated_def read_ipv4_def parse_ipv4_def read_group_def parse_octet_def is_digit_def digit_in_def)

lemma foldl_zeros: "foldl (\<lambda>acc g. acc * 65536 + g) 0 (replicate k 0) = (0 :: nat)"
  by (induction k) simp_all

lemma parse_unspecified: "parse_ipv6 ''::'' = Inr 0"
proof -
  have "read_groups 8 0 [] ''::'' = ([], False, ''::'')" "read_groups 7 0 [] [] = ([], False, [])"
    using read_groups_none [of 6] read_groups_none [of 7] by simp_all
  then show ?thesis using foldl_zeros [of 8] by (simp add: parse_ipv6_def of_segments_def)
qed

lemma ref_unspecified: "parse_network ref_network ''::/126'' = Inr (Inr (0, 126))"
proof -
  have "parse_ipv4 ''::'' = Inl ''invalid IPv4 address syntax''" by (simp add: parse_ipv4_def)
  moreover have "ref_len 128 (Some ''126'') = Inr 126" by (simp add: ref_len_def from_str_radix_def digit_in_def)
  ultimately show ?thesis
    by (simp add: ref_network_def ref_parse4_def ref_parse6_def split_network_def parse_unspecified)
qed

text \<open>
  C26: a delegation pool partitions its parent. Splitting a parent network into delegated prefixes
  of \<open>d\<close> bits succeeds exactly when the pool is small enough (at most \<open>2 ^ 17\<close> networks, the last power
  of two below the limit of a pool). The result has one network for each value of the delegated
  bits; all have length \<open>d\<close>, no two share an address, and together they cover the parent exactly.
\<close>

theorem delegation_partitions_parent:
  assumes "ipnetwork_laws N" "parse_network N parent = Inr (Inr n)" "prefix6 N n < d" "d \<le> 128"
  shows "if d - prefix6 N n \<le> 17
    then \<exists>ns. expand_ipv6_prefix_delegation N parent d = Inr ns \<and> length ns = 2 ^ (d - prefix6 N n) \<and>
      (\<forall>i < length ns. prefix6 N (ns ! i) = d) \<and>
      (\<forall>i < length ns. \<forall>j < i. block6 N (ns ! i) \<inter> block6 N (ns ! j) = {}) \<and>
      (\<Union>m \<in> set ns. block6 N m) = block6 N n
    else \<exists>count. expand_ipv6_prefix_delegation N parent d = Inl (TooBig count MAX_POOL_SIZE)"
proof (cases "d - prefix6 N n \<le> 17")
  case True
  obtain ns where ns: "expand_ipv6_prefix_delegation N parent d = Inr ns" "length ns = 2 ^ (d - prefix6 N n)"
    "\<forall>i < length ns. prefix6 N (ns ! i) = d \<and> block6 N (ns ! i) =
       {unat (network6 N n) + i * 2 ^ (128 - d) ..< unat (network6 N n) + i * 2 ^ (128 - d) + 2 ^ (128 - d)}"
    "(\<Union>m \<in> set ns. block6 N m) = block6 N n"
    using ipnetwork_laws.delegation [OF assms True] by blast
  have "block6 N (ns ! i) \<inter> block6 N (ns ! j) = {}" if "i < length ns" "j < i" for i j
  proof -
    have "Suc j * 2 ^ (128 - d) \<le> i * (2 ^ (128 - d) :: nat)" using that(2) by (intro mult_le_mono1) simp
    then show ?thesis using ns(3) that by auto
  qed
  then show ?thesis using True ns by auto
next
  case False
  then have "shl_one (d - prefix6 N n) > MAX_POOL_SIZE" using assms(4) by (subst shl_one_le) simp_all
  then show ?thesis using False assms by (simp add: expand_ipv6_prefix_delegation_def)
qed

theorem delegation_partitions_parent_witness:
  "\<exists>ns. expand_ipv6_prefix_delegation ref_network ''::/126'' 128 = Inr ns \<and> length ns = 4 \<and>
     (\<Union>m \<in> set ns. block6 ref_network m) = {0 ..< 4}"
  using delegation_partitions_parent [OF refnet.ipnetwork_laws_axioms ref_unspecified, of 128]
  by (auto simp: ref_network_def block6_def ref_first_def)

text \<open>
  C25: reconciliation of the declared pools only adds, and running it again changes nothing. The rows of
  the table, whoever holds them, stay as they are; new rows are free and belong to pools that had no
  stored definition; a stored definition is never replaced. A second run on the result
  succeeds and leaves both tables alone.
\<close>

theorem reconcile_additive_idempotent:
  assumes "reconcile_pool_defs N declared tbl defs = Inr (tbl', defs', log)"
  shows "grows {name \<in> fst ` set declared. map_of defs name = None} tbl tbl' \<and>
    defs' = defs @ filter (\<lambda>d. map_of defs (fst d) = None) declared \<and>
    (\<exists>log'. reconcile_pool_defs N declared tbl' defs' = Inr (tbl', defs', log'))"
proof -
  obtain log1 where each: "reconcile_each N defs declared (tbl, defs, []) = Inr (tbl', defs', log1)"
    using assms by (cases "reconcile_each N defs declared (tbl, defs, [])") (auto simp: reconcile_pool_defs_def)
  have g: "grows (fst ` {d \<in> set declared. map_of defs (fst d) = None}) tbl tbl'"
    "defs' = defs @ filter (\<lambda>d. map_of defs (fst d) = None) declared"
    using reconcile_each_grows [OF each] by simp_all
  have "map_of defs' (fst d) \<noteq> None" if "d \<in> set declared" for d
    using that by (cases "map_of defs (fst d)") (auto simp: g(2) map_of_eq_None_iff)
  from reconcile_each_stored [of declared defs' N tbl' defs' "[]"] this
  obtain log2 where "reconcile_each N defs' declared (tbl', defs', []) = Inr (tbl', defs', log2)" by blast
  then have "\<exists>log'. reconcile_pool_defs N declared tbl' defs' = Inr (tbl', defs', log')" by (simp add: reconcile_pool_defs_def)
  moreover have "fst ` {d \<in> set declared. map_of defs (fst d) = None} = {name \<in> fst ` set declared. map_of defs name = None}" by auto
  ultimately show ?thesis using g by simp
qed

definition vlan_def :: pool_def where
  "vlan_def = \<lparr>pd_ranges = [\<lparr>range_start = ''10'', range_end = ''12'', range_auto_assign = True\<rparr>], pd_prefix = None,
     pd_pool_type = TInteger, pd_delegate_prefix_len = None\<rparr>"

lemma vlan_range: "expand_int_range ''10'' ''12'' = Inr [10, 11]"
proof -
  have "to_lowercase ''10'' = ''10''" "to_lowercase ''12'' = ''12''" by (simp_all add: to_lowercase_def)
  then have "parse_int_range ''10'' = Inr 10" "parse_int_range ''12'' = Inr 12"
    using from_str_radix_show [of "- (2 ^ 63)" 10 "2 ^ 63 - 1"] from_str_radix_show [of "- (2 ^ 63)" 12 "2 ^ 63 - 1"]
    by (simp_all add: parse_int_range_def trim_start_matches.simps show_vlans)
  then show ?thesis by (simp add: expand_int_range_def upto.simps)
qed

theorem reconcile_additive_idempotent_witness:
  "\<exists>tbl log. reconcile_pool_defs ref_network [(''vlan-id'', vlan_def)] [] [] = Inr (tbl, [(''vlan-id'', vlan_def)], []) \<and>
     length tbl = 2 \<and> reconcile_pool_defs ref_network [(''vlan-id'', vlan_def)] tbl [(''vlan-id'', vlan_def)] =
       Inr (tbl, [(''vlan-id'', vlan_def)], log)"
proof -
  obtain tbl where t: "reconcile_pool_defs ref_network [(''vlan-id'', vlan_def)] [] [] = Inr (tbl, [(''vlan-id'', vlan_def)], [])"
    "length tbl = 2"
    by (simp add: reconcile_pool_defs_def reconcile_one_def stored_def_def pool_has_rows_def insert_pool_def_def
        define_pool_def vlan_def_def define_by_range_def vlan_range check_size_def arg_def fill_def MAX_POOL_SIZE_def
        populate_pool_def pool_insert_def show_vlans)
  from reconcile_additive_idempotent [OF t(1)] t show ?thesis by auto
qed

end
