(* ===== verification/Ip_Allocator.thy ===== *)
theory Ip_Allocator
  imports Ip_Prefix Ip_Text
begin

text \<open>
  The allocator of addresses in network segments (\<open>crates/api-db/src/ip_allocator.rs\<close>).

  \<open>IpNetwork\<close> of the \<open>ipnetwork\<close> package is a type variable with the record \<open>network_ops\<close> of what the
  allocator uses of it; its \<open>Ord\<close> is the order of the type. The variant of a network is that of
  its addresses. Ids are their text, errors of other packages their displayed text. \<open>None\<close> of an outer
  option is a panic; the workspace enables overflow checks in every profile.
\<close>

section \<open>Networks\<close>

record 'n network_ops =
  nw_new :: "ip_addr \<Rightarrow> nat \<Rightarrow> string + 'n"
  nw_ip :: "'n \<Rightarrow> ip_addr"
  nw_prefix :: "'n \<Rightarrow> nat"
  nw_network :: "'n \<Rightarrow> ip_addr"
  nw_broadcast :: "'n \<Rightarrow> ip_addr"
  nw_contains :: "'n \<Rightarrow> ip_addr \<Rightarrow> bool"
  nw_size :: "'n \<Rightarrow> nat"
  nw_iter_take :: "nat \<Rightarrow> 'n \<Rightarrow> ip_addr list"
  nw_show :: "'n \<Rightarrow> string"

fun addr_family :: "ip_addr \<Rightarrow> ip_address_family" where
  "addr_family (AddrV4 _) = Ipv4"
| "addr_family (AddrV6 _) = Ipv6"

fun interface_prefix_len :: "ip_address_family \<Rightarrow> nat" where
  "interface_prefix_len Ipv4 = 32"
| "interface_prefix_len Ipv6 = 128"

fun show_addr :: "ip_addr \<Rightarrow> string" where
  "show_addr (AddrV4 a) = show_ipv4 a"
| "show_addr (AddrV6 a) = show_ipv6 a"

text \<open>The value of an address as an integer, and the address of a family with a value.\<close>

fun addr_val :: "ip_addr \<Rightarrow> nat" where
  "addr_val (AddrV4 a) = unat a"
| "addr_val (AddrV6 a) = unat a"

fun addr_of :: "ip_address_family \<Rightarrow> nat \<Rightarrow> ip_addr" where
  "addr_of Ipv4 n = AddrV4 (word_of_nat n)"
| "addr_of Ipv6 n = AddrV6 (word_of_nat n)"

definition nw_family :: "'n network_ops \<Rightarrow> 'n \<Rightarrow> ip_address_family" where
  "nw_family N n = addr_family (nw_network N n)"

section \<open>The allocator\<close>

datatype address_selection_strategy =
    NextAvailableIp
  | Automatic
  | NextAvailablePrefix nat
  | StaticAddress ip_addr

record 'n alloc_prefix =
  ap_id :: string
  ap_prefix :: 'n
  ap_gateway :: "ip_addr option"
  ap_num_reserved :: int

record 'n ip_allocator =
  al_prefixes :: "'n alloc_prefix list"
  al_used_ips :: "'n list"
  al_address_strategy :: address_selection_strategy

datatype alloc_error =
    Internal string
  | NetworkParseError string
  | PrefixExhausted ip_addr
  | ResourceExhausted string

fun show_alloc_error :: "alloc_error \<Rightarrow> string" where
  "show_alloc_error (Internal message) = ''internal error: '' @ message"
| "show_alloc_error (NetworkParseError e) = ''unable to parse string into IP network: '' @ e"
| "show_alloc_error (PrefixExhausted ip) =
     ''error in DHCP allocation/handling: prefix: '' @ show_addr ip @ '' has exhausted all address space''"
| "show_alloc_error (ResourceExhausted s) = ''resource '' @ s @ '' is empty''"

text \<open>\<open>IpNetwork::new\<close> of one address, for every address of a list, stopping at the first error.\<close>

fun host_networks :: "'n network_ops \<Rightarrow> ip_addr list \<Rightarrow> alloc_error + 'n list" where
  "host_networks N [] = Inr []"
| "host_networks N (a # as) =
     (case nw_new N a (interface_prefix_len (addr_family a)) of
        Inl e \<Rightarrow> Inl (NetworkParseError e)
      | Inr n \<Rightarrow> map_sum id ((#) n) (host_networks N as))"

definition should_reserve_network_broadcast :: "'n network_ops \<Rightarrow> 'n \<Rightarrow> bool" where
  "should_reserve_network_broadcast N n =
     (case nw_family N n of Ipv4 \<Rightarrow> nw_prefix N n < 31 | Ipv6 \<Rightarrow> nw_prefix N n < 127)"

text \<open>The addresses that are never handed out: the gateway, the first ones, and the two ends.\<close>

definition reserved_addrs :: "'n network_ops \<Rightarrow> 'n alloc_prefix \<Rightarrow> ip_addr list" where
  "reserved_addrs N p =
     (case ap_gateway p of Some g \<Rightarrow> if nw_contains N (ap_prefix p) g then [g] else [] | None \<Rightarrow> []) @
     nw_iter_take N (nat (ap_num_reserved p)) (ap_prefix p) @
     (if should_reserve_network_broadcast N (ap_prefix p)
      then [nw_network N (ap_prefix p), nw_broadcast N (ap_prefix p)] else [])"

definition build_allocated_networks :: "'n network_ops \<Rightarrow> 'n alloc_prefix \<Rightarrow> 'n list \<Rightarrow> alloc_error + 'n list" where
  "build_allocated_networks N p used_ips =
     (if ap_num_reserved p < 0 then
        Inl (Internal (''network prefix '' @ ap_id p @ '' has negative reservation count '' @ show_int (ap_num_reserved p)))
      else
        map_sum id (\<lambda>hosts. hosts @ filter (\<lambda>u. nw_contains N (ap_prefix p) (nw_network N u)) used_ips)
          (host_networks N (reserved_addrs N p)))"

text \<open>The set is the list of its elements in increasing order.\<close>

definition collapse_allocated_networks :: "'n::linorder network_ops \<Rightarrow> 'n list \<Rightarrow> 'n list" where
  "collapse_allocated_networks N input_networks =
     fold (\<lambda>n set_so_far. if \<exists>e \<in> set set_so_far. nw_contains N e (nw_network N n) then set_so_far
                          else insort_insert n set_so_far)
       (sort_key (\<lambda>n. - int (nw_prefix N n)) input_networks) []"

definition get_allocated :: "'n::linorder network_ops \<Rightarrow> 'n ip_allocator \<Rightarrow> 'n alloc_prefix \<Rightarrow> alloc_error + 'n list" where
  "get_allocated N al p = map_sum id (collapse_allocated_networks N) (build_allocated_networks N p (al_used_ips al))"

section \<open>Counting\<close>

datatype address_count = Count nat | FullIpv6Space

fun count_add :: "address_count \<Rightarrow> address_count \<Rightarrow> address_count" where
  "count_add (Count left) (Count right) = (if left + right < 2 ^ 128 then Count (left + right) else FullIpv6Space)"
| "count_add _ _ = FullIpv6Space"

fun free_after :: "address_count \<Rightarrow> address_count \<Rightarrow> alloc_error + nat" where
  "free_after (Count tot) (Count allocated) = Inr (tot - allocated)"
| "free_after (Count _) FullIpv6Space = Inr 0"
| "free_after FullIpv6Space FullIpv6Space = Inr 0"
| "free_after FullIpv6Space (Count allocated) =
     (if allocated = 0 then Inl (Internal ''an unallocated IPv6 /0 free-address count does not fit in u128'')
      else Inr (2 ^ 128 - 1 - (allocated - 1)))"

definition get_network_size :: "'n network_ops \<Rightarrow> 'n \<Rightarrow> address_count" where
  "get_network_size N n =
     (case nw_family N n of
        Ipv4 \<Rightarrow> Count (if nw_prefix N n = 0 then 2 ^ 32 else nw_size N n)
      | Ipv6 \<Rightarrow> if nw_prefix N n = 0 then FullIpv6Space else Count (nw_size N n))"

definition num_free :: "'n::linorder network_ops \<Rightarrow> 'n ip_allocator \<Rightarrow> string \<Rightarrow> alloc_error + nat" where
  "num_free N al prefix_id =
     (case find (\<lambda>p. ap_id p = prefix_id) (al_prefixes al) of
        None \<Rightarrow> Inl (Internal (''network prefix '' @ prefix_id @ '' is not part of this IP allocator''))
      | Some p \<Rightarrow>
          (case get_allocated N al p of
             Inl e \<Rightarrow> Inl (Internal (''failed to get_allocated: '' @ show_alloc_error e))
           | Inr allocated \<Rightarrow>
               free_after (get_network_size N (ap_prefix p))
                 (fold (\<lambda>n acc. count_add acc (get_network_size N n)) allocated (Count 0))))"

section \<open>Searching\<close>

record network_details =
  nd_base_ip :: nat
  nd_broadcast_ip :: nat
  nd_network_size :: nat

text \<open>
  In the IPv4 arm the size is computed as an \<open>i32\<close> and widened with its sign; both arms shift by
  a length that has to fit.
\<close>

definition get_network_details :: "'n network_ops \<Rightarrow> 'n \<Rightarrow> nat \<Rightarrow> network_details option" where
  "get_network_details N n plen =
     (let details = (\<lambda>size. \<lparr>nd_base_ip = addr_val (nw_network N n), nd_broadcast_ip = addr_val (nw_broadcast N n),
                             nd_network_size = size\<rparr>)
      in case nw_family N n of
           Ipv4 \<Rightarrow>
             if plen > 32 \<or> 32 - plen \<ge> 32 then None
             else Some (details (if 32 - plen = 31 then 2 ^ 128 - 2 ^ 31 else 2 ^ (32 - plen)))
         | Ipv6 \<Rightarrow>
             if plen > 128 \<or> 128 - plen \<ge> 128 then None
             else Some (details (2 ^ (128 - plen))))"

definition build_candidate_subnet :: "'n network_ops \<Rightarrow> 'n \<Rightarrow> nat \<Rightarrow> nat \<Rightarrow> alloc_error + 'n" where
  "build_candidate_subnet N n current_ip plen =
     (case nw_new N (addr_of (nw_family N n) current_ip) plen of
        Inl e \<Rightarrow> Inl (NetworkParseError e)
      | Inr c \<Rightarrow> Inr c)"

definition is_allocated :: "'n network_ops \<Rightarrow> 'n list \<Rightarrow> 'n \<Rightarrow> bool" where
  "is_allocated N allocated_networks c =
     (\<exists>a \<in> set allocated_networks. nw_contains N a (nw_network N c) \<or> nw_contains N c (nw_network N a))"

text \<open>The loop. The size of a network is never 0.\<close>

function scan :: "'n network_ops \<Rightarrow> 'n \<Rightarrow> nat \<Rightarrow> 'n list \<Rightarrow> nat \<Rightarrow> nat \<Rightarrow> nat \<Rightarrow> (alloc_error + 'n option) option" where
  "scan N n len allocated sz broadcast current =
     (if sz = 0 then None
      else if current \<le> broadcast then
        (case build_candidate_subnet N n current len of
           Inl e \<Rightarrow> Some (Inl e)
         | Inr c \<Rightarrow>
             if \<not> is_allocated N allocated c then Some (Inr (Some c))
             else if current + sz \<ge> 2 ^ 128 then None
             else scan N n len allocated sz broadcast (current + sz))
      else Some (Inr None))"
  by pat_completeness auto
termination
  by (relation "measure (\<lambda>(_, _, _, _, _, broadcast, current). Suc broadcast - current)") auto

declare scan.simps [simp del]

definition next_available_prefix :: "'n network_ops \<Rightarrow> 'n \<Rightarrow> nat \<Rightarrow> 'n list \<Rightarrow> (alloc_error + 'n option) option" where
  "next_available_prefix N n plen allocated_networks =
     (if nw_prefix N n = 128 \<and> plen = 128 then
        Some (Inr (if \<exists>a \<in> set allocated_networks. nw_contains N a (nw_network N n) then None else Some n))
      else if plen \<le> nw_prefix N n then
        Some (Inl (Internal (''requested prefix length ('' @ show_nat plen @
          '') must be greater than the network segment prefix length ('' @ show_nat (nw_prefix N n) @ '')'')))
      else
        (case get_network_details N n plen of
           None \<Rightarrow> None
         | Some d \<Rightarrow>
             scan N n plen allocated_networks (nd_network_size d) (nd_broadcast_ip d) (nd_base_ip d)))"

definition resolve_prefix_length :: "'n network_ops \<Rightarrow> address_selection_strategy \<Rightarrow> 'n \<Rightarrow> alloc_error + nat" where
  "resolve_prefix_length N strategy n =
     (case strategy of
        NextAvailablePrefix len \<Rightarrow> Inr len
      | StaticAddress _ \<Rightarrow> Inl (Internal ''StaticAddress cannot be allocated by the DHCP allocator'')
      | _ \<Rightarrow> Inr (if nw_family N n = Ipv4 then 32 else 128))"

text \<open>\<open>Iterator::next\<close>: the item, and the allocator without the prefix it was taken from.\<close>

definition allocate_in :: "'n::linorder network_ops \<Rightarrow> 'n ip_allocator \<Rightarrow> 'n alloc_prefix \<Rightarrow> (alloc_error + 'n) option" where
  "allocate_in N al p =
     (case get_allocated N al p of
        Inl e \<Rightarrow> Some (Inl (Internal (''failed to get allocated IPs for prefix: '' @ nw_show N (ap_prefix p) @
          '' (err: '' @ show_alloc_error e @ '')'')))
      | Inr allocated \<Rightarrow>
          (case resolve_prefix_length N (al_address_strategy al) (ap_prefix p) of
             Inl e \<Rightarrow> Some (Inl e)
           | Inr len \<Rightarrow>
               (case next_available_prefix N (ap_prefix p) len allocated of
                  None \<Rightarrow> None
                | Some (Inl e) \<Rightarrow> Some (Inl (Internal (''failed to get next available for prefix: '' @
                    nw_show N (ap_prefix p) @ '' (err: '' @ show_alloc_error e @ '')'')))
                | Some (Inr None) \<Rightarrow> Some (Inl (PrefixExhausted (nw_ip N (ap_prefix p))))
                | Some (Inr (Some c)) \<Rightarrow> Some (Inr c))))"

definition allocator_next ::
    "'n::linorder network_ops \<Rightarrow> 'n ip_allocator \<Rightarrow> ((string \<times> (alloc_error + 'n)) option \<times> 'n ip_allocator) option" where
  "allocator_next N al =
     (case al_prefixes al of
        [] \<Rightarrow> Some (None, al)
      | p # ps \<Rightarrow> map_option (\<lambda>r. (Some (ap_id p, r), al\<lparr>al_prefixes := ps\<rparr>)) (allocate_in N al p))"

end
