(* ===== verification/Allocator_Theorems.thy ===== *)
theory Allocator_Theorems
  imports Ip_Allocator Ip_Reference
begin

text \<open>
  What the allocator of addresses guarantees, in the contract of the \<open>ipnetwork\<close> package: it returns the first
  address that is neither reserved nor in use, and counts exactly the free ones, as long as no
  allocated network lies inside another. Where one does, both fail, which is shown on examples.
\<close>

section \<open>The contract\<close>

definition nw_width :: "'n network_ops \<Rightarrow> 'n \<Rightarrow> nat" where
  "nw_width N n = interface_prefix_len (nw_family N n)"

definition nw_host_bits :: "'n network_ops \<Rightarrow> 'n \<Rightarrow> nat" where
  "nw_host_bits N n = nw_width N n - nw_prefix N n"

definition nw_base :: "'n network_ops \<Rightarrow> 'n \<Rightarrow> nat" where
  "nw_base N n = addr_val (nw_network N n)"

definition nw_addrs :: "'n network_ops \<Rightarrow> 'n \<Rightarrow> ip_addr set" where
  "nw_addrs N n = {a. nw_contains N n a}"

locale network_laws =
  fixes N :: "'n::linorder network_ops"
  assumes prefix_le: "nw_prefix N n \<le> nw_width N n"
    and ip_family: "addr_family (nw_ip N n) = nw_family N n"
    and network_mask: "nw_base N n = addr_val (nw_ip N n) - addr_val (nw_ip N n) mod 2 ^ nw_host_bits N n"
    and broadcast_family: "addr_family (nw_broadcast N n) = nw_family N n"
    and broadcast_val: "addr_val (nw_broadcast N n) = nw_base N n + 2 ^ nw_host_bits N n - 1"
    and contains: "nw_contains N n a \<longleftrightarrow>
      addr_family a = nw_family N n \<and> nw_base N n \<le> addr_val a \<and> addr_val a \<le> addr_val (nw_broadcast N n)"
    and new_ok: "l \<le> interface_prefix_len (addr_family a) \<Longrightarrow> \<exists>n. nw_new N a l = Inr n \<and> nw_ip N n = a \<and> nw_prefix N n = l"
    and size_val: "0 < nw_prefix N n \<Longrightarrow> nw_size N n = 2 ^ nw_host_bits N n"
    and iter_take: "nw_iter_take N k n =
      map (addr_of (nw_family N n)) [nw_base N n ..< nw_base N n + min k (2 ^ nw_host_bits N n)]"

section \<open>Addresses\<close>

lemma addr_val_bound: "addr_val a < 2 ^ interface_prefix_len (addr_family a)"
proof (cases a)
  case (AddrV4 w)
  then show ?thesis using unsigned_less [of w, where ?'a = nat] by simp
next
  case (AddrV6 w)
  then show ?thesis using unsigned_less [of w, where ?'a = nat] by simp
qed

lemma addr_of_val [simp]: "addr_of (addr_family a) (addr_val a) = a"
  by (cases a) simp_all

lemma addr_family_of [simp]: "addr_family (addr_of f v) = f"
  by (cases f) simp_all

lemma addr_val_of: "v < 2 ^ interface_prefix_len f \<Longrightarrow> addr_val (addr_of f v) = v"
  by (cases f) (simp_all add: unsigned_of_nat take_bit_nat_eq_self)

lemma addr_eqI: "addr_family a = addr_family b \<Longrightarrow> addr_val a = addr_val b \<Longrightarrow> a = b"
  by (metis addr_of_val)

lemma addr_inj: "inj_on (addr_of f) {..< 2 ^ interface_prefix_len f}"
  by (rule inj_onI) (metis addr_val_of lessThan_iff)

section \<open>Networks as blocks\<close>

lemma width_cases: "nw_family N n = Ipv4 \<and> nw_width N n = 32 \<or> nw_family N n = Ipv6 \<and> nw_width N n = 128"
  by (cases "nw_family N n") (simp_all add: nw_width_def)

context network_laws
begin

lemma base_dvd: "2 ^ nw_host_bits N n dvd nw_base N n"
  unfolding network_mask by (simp add: dvd_minus_mod)

lemma base_block: "nw_base N n = nw_base N n div 2 ^ nw_host_bits N n * 2 ^ nw_host_bits N n"
  using base_dvd by simp

lemma addrs_iff: "a \<in> nw_addrs N n \<longleftrightarrow>
    addr_family a = nw_family N n \<and> nw_base N n \<le> addr_val a \<and> addr_val a < nw_base N n + 2 ^ nw_host_bits N n"
proof -
  have "0 < (2 :: nat) ^ nw_host_bits N n" by simp
  then have "v \<le> nw_base N n + 2 ^ nw_host_bits N n - 1 \<longleftrightarrow> v < nw_base N n + 2 ^ nw_host_bits N n" for v by linarith
  then show ?thesis unfolding nw_addrs_def contains broadcast_val by simp
qed

lemma addrs_dyad: "a \<in> nw_addrs N n \<longleftrightarrow>
    addr_family a = nw_family N n \<and> addr_val a \<in> dyad (nw_host_bits N n) (nw_base N n div 2 ^ nw_host_bits N n)"
  unfolding addrs_iff dyad_iff mult_Suc base_block [symmetric] by auto

lemma contains_addrs: "nw_contains N n a \<longleftrightarrow> a \<in> nw_addrs N n"
  by (simp add: nw_addrs_def)

lemma network_in: "nw_network N n \<in> nw_addrs N n"
  by (simp add: addrs_iff nw_base_def nw_family_def)

lemma overlap_iff: "nw_addrs N a \<inter> nw_addrs N b \<noteq> {} \<longleftrightarrow>
    nw_contains N a (nw_network N b) \<or> nw_contains N b (nw_network N a)"
proof
  assume "nw_addrs N a \<inter> nw_addrs N b \<noteq> {}"
  then obtain x where x: "x \<in> nw_addrs N a" "x \<in> nw_addrs N b" by blast
  then have f: "nw_family N a = nw_family N b" by (simp add: addrs_iff)
  from x have "nw_base N a \<in> dyad (nw_host_bits N b) (nw_base N b div 2 ^ nw_host_bits N b) \<or>
      nw_base N b \<in> dyad (nw_host_bits N a) (nw_base N a div 2 ^ nw_host_bits N a)"
    using dyad_laminar [of "nw_host_bits N a" "nw_base N a div 2 ^ nw_host_bits N a" "nw_host_bits N b" "nw_base N b div 2 ^ nw_host_bits N b"]
      dyad_base base_block by (auto simp: addrs_dyad)
  then show "nw_contains N a (nw_network N b) \<or> nw_contains N b (nw_network N a)"
    using f unfolding contains_addrs addrs_dyad by (auto simp: nw_base_def nw_family_def)
next
  assume "nw_contains N a (nw_network N b) \<or> nw_contains N b (nw_network N a)"
  then show "nw_addrs N a \<inter> nw_addrs N b \<noteq> {}" using network_in contains_addrs by blast
qed

lemma is_allocated_iff: "is_allocated N nets c \<longleftrightarrow> (\<exists>a \<in> set nets. nw_addrs N a \<inter> nw_addrs N c \<noteq> {})"
  unfolding is_allocated_def overlap_iff ..

lemma block_end: "nw_base N n + 2 ^ nw_host_bits N n \<le> 2 ^ nw_width N n"
proof -
  let ?s = "2 ^ nw_host_bits N n :: nat"
  obtain k where k: "nw_base N n = ?s * k" using base_dvd [of n] by (metis dvdE)
  have s: "(2 ^ nw_width N n :: nat) = ?s * 2 ^ nw_prefix N n"
    using prefix_le [of n] by (simp add: nw_host_bits_def flip: power_add)
  have "nw_base N n < 2 ^ nw_width N n"
    using addr_val_bound [of "nw_network N n"] by (simp add: nw_base_def nw_width_def nw_family_def)
  then have "k < 2 ^ nw_prefix N n" unfolding k s by simp
  then have "?s * Suc k \<le> ?s * 2 ^ nw_prefix N n" by (intro mult_le_mono2) simp
  then show ?thesis unfolding k s by simp
qed

lemma addrs_image: "nw_addrs N n = addr_of (nw_family N n) ` {nw_base N n ..< nw_base N n + 2 ^ nw_host_bits N n}"
proof (rule set_eqI, rule iffI)
  fix a assume "a \<in> nw_addrs N n"
  then show "a \<in> addr_of (nw_family N n) ` {nw_base N n ..< nw_base N n + 2 ^ nw_host_bits N n}"
    by (intro image_eqI [of _ _ "addr_val a"]) (auto simp: addrs_iff dest: sym)
next
  fix a assume "a \<in> addr_of (nw_family N n) ` {nw_base N n ..< nw_base N n + 2 ^ nw_host_bits N n}"
  then obtain v where v: "a = addr_of (nw_family N n) v" "nw_base N n \<le> v" "v < nw_base N n + 2 ^ nw_host_bits N n" by auto
  then have "addr_val a = v" using block_end [of n] by (simp add: addr_val_of nw_width_def)
  then show "a \<in> nw_addrs N n" using v by (simp add: addrs_iff)
qed

lemma card_addrs: "card (nw_addrs N n) = 2 ^ nw_host_bits N n" and finite_addrs [simp]: "finite (nw_addrs N n)"
proof -
  have "inj_on (addr_of (nw_family N n)) {nw_base N n ..< nw_base N n + 2 ^ nw_host_bits N n}"
    using block_end [of n] by (intro inj_on_subset [OF addr_inj]) (auto simp: nw_width_def)
  then show "card (nw_addrs N n) = 2 ^ nw_host_bits N n" unfolding addrs_image by (simp add: card_image)
  show "finite (nw_addrs N n)" unfolding addrs_image by simp
qed

lemma host_new:
  obtains n where "nw_new N a (interface_prefix_len (addr_family a)) = Inr n" "nw_addrs N n = {a}" "nw_ip N n = a"
    "nw_prefix N n = interface_prefix_len (addr_family a)" "nw_network N n = a"
proof -
  obtain n where n: "nw_new N a (interface_prefix_len (addr_family a)) = Inr n" "nw_ip N n = a"
    "nw_prefix N n = interface_prefix_len (addr_family a)"
    using new_ok by blast
  have f: "nw_family N n = addr_family a" using ip_family [of n] n(2) by simp
  then have h: "nw_host_bits N n = 0" using n(3) by (simp add: nw_host_bits_def nw_width_def)
  then have b: "nw_base N n = addr_val a" using network_mask [of n] n(2) by simp
  then have "nw_network N n = a" using f by (intro addr_eqI) (simp_all add: nw_base_def nw_family_def)
  moreover have "nw_addrs N n = {a}" using f h b by (auto simp: addrs_iff intro: addr_eqI)
  ultimately show ?thesis using that n by blast
qed

end

section \<open>Collapsing\<close>

text \<open>Networks of which any two are disjoint or cover the same addresses.\<close>

definition flat_networks :: "'n network_ops \<Rightarrow> 'n set \<Rightarrow> bool" where
  "flat_networks N S \<longleftrightarrow> (\<forall>a \<in> S. \<forall>b \<in> S. nw_addrs N a = nw_addrs N b \<or> nw_addrs N a \<inter> nw_addrs N b = {})"

definition collapse_step :: "'n::linorder network_ops \<Rightarrow> 'n \<Rightarrow> 'n list \<Rightarrow> 'n list" where
  "collapse_step N n s = (if \<exists>e \<in> set s. nw_contains N e (nw_network N n) then s else insort_insert n s)"

lemma collapse_fold:
  "collapse_allocated_networks N nets = fold (collapse_step N) (sort_key (\<lambda>n. - int (nw_prefix N n)) nets) []"
  by (simp add: collapse_allocated_networks_def collapse_step_def [abs_def])

lemma set_insort_insert: "set (insort_insert n s) = insert n (set s)"
  by (simp add: insort_insert_key_def insert_absorb set_insort_key)

lemma distinct_insort_insert': "distinct s \<Longrightarrow> distinct (insort_insert n s)"
  by (simp add: insort_insert_key_def distinct_insort)

lemma collapse_subset: "set (collapse_allocated_networks N nets) \<subseteq> set nets"
proof -
  have "set (fold (collapse_step N) xs s) \<subseteq> set xs \<union> set s" for xs s
    by (induction xs arbitrary: s) (force simp: collapse_step_def set_insort_insert split: if_splits)+
  from this [of "sort_key (\<lambda>n. - int (nw_prefix N n)) nets" "[]"] show ?thesis unfolding collapse_fold by simp
qed

text \<open>What the set holds after some of the networks: one for every block, and no two that overlap.\<close>

definition covers_blocks :: "'n network_ops \<Rightarrow> 'n set \<Rightarrow> 'n list \<Rightarrow> bool" where
  "covers_blocks N S s \<longleftrightarrow> set s \<subseteq> S \<and> (\<forall>n \<in> S. \<exists>e \<in> set s. nw_addrs N e = nw_addrs N n) \<and> distinct s \<and>
     (\<forall>a \<in> set s. \<forall>b \<in> set s. a \<noteq> b \<longrightarrow> nw_addrs N a \<inter> nw_addrs N b = {})"

context network_laws
begin

lemma collapse_step_covers:
  assumes "covers_blocks N S s" "flat_networks N (insert n S)"
  shows "covers_blocks N (insert n S) (collapse_step N n s)"
proof (cases "\<exists>e \<in> set s. nw_contains N e (nw_network N n)")
  case True
  then obtain e where e: "e \<in> set s" "nw_network N n \<in> nw_addrs N e" by (auto simp: contains_addrs)
  then have "e \<in> S" using assms(1) by (auto simp: covers_blocks_def)
  then have "nw_addrs N e = nw_addrs N n" using assms(2) e(2) network_in [of n] by (auto simp: flat_networks_def)
  then have "\<forall>m \<in> insert n S. \<exists>e \<in> set s. nw_addrs N e = nw_addrs N m" using assms(1) e(1) by (auto simp: covers_blocks_def)
  then show ?thesis using True assms(1) by (auto simp: collapse_step_def covers_blocks_def)
next
  case False
  have "nw_addrs N e \<inter> nw_addrs N n = {}" if "e \<in> set s" for e
  proof -
    have "e \<in> S" using assms(1) that by (auto simp: covers_blocks_def)
    moreover have "nw_addrs N e \<noteq> nw_addrs N n" using False that network_in [of n] by (auto simp: contains_addrs)
    ultimately show ?thesis using assms(2) by (auto simp: flat_networks_def)
  qed
  moreover have "collapse_step N n s = insort_insert n s" using False by (simp add: collapse_step_def)
  ultimately show ?thesis using assms(1)
    by (auto simp: covers_blocks_def set_insort_insert distinct_insort_insert')
qed

lemma collapse_covers:
  assumes "flat_networks N (set nets)"
  shows "covers_blocks N (set nets) (collapse_allocated_networks N nets)"
proof -
  have "covers_blocks N (S \<union> set xs) (fold (collapse_step N) xs s)"
    if "covers_blocks N S s" "flat_networks N (S \<union> set xs)" for S s xs
    using that
  proof (induction xs arbitrary: S s)
    case (Cons x xs)
    have "flat_networks N (insert x S)" using Cons.prems(2) by (auto simp: flat_networks_def)
    from collapse_step_covers [OF Cons.prems(1) this] Cons.IH [of "insert x S"] Cons.prems(2) show ?case by simp
  qed simp
  from this [of "{}" "[]" "sort_key (\<lambda>n. - int (nw_prefix N n)) nets"] assms
  show ?thesis unfolding collapse_fold by (simp add: covers_blocks_def)
qed

lemma collapse_union:
  assumes "flat_networks N (set nets)"
  shows "(\<Union>n \<in> set (collapse_allocated_networks N nets). nw_addrs N n) = (\<Union>n \<in> set nets. nw_addrs N n)"
  using collapse_covers [OF assms] by (auto simp: covers_blocks_def) (metis)

end

section \<open>What is taken\<close>

text \<open>The addresses of a prefix that cannot be handed out: reserved, or inside a network in use.\<close>

definition used_in :: "'n network_ops \<Rightarrow> 'n alloc_prefix \<Rightarrow> 'n list \<Rightarrow> 'n list" where
  "used_in N p used = filter (\<lambda>u. nw_contains N (ap_prefix p) (nw_network N u)) used"

definition never_handed_out :: "'n network_ops \<Rightarrow> 'n alloc_prefix \<Rightarrow> ip_addr set" where
  "never_handed_out N p = {a \<in> nw_addrs N (ap_prefix p).
     ap_gateway p = Some a \<or> addr_val a < nw_base N (ap_prefix p) + nat (ap_num_reserved p) \<or>
     2 \<le> nw_host_bits N (ap_prefix p) \<and>
       (addr_val a = nw_base N (ap_prefix p) \<or> addr_val a = nw_base N (ap_prefix p) + 2 ^ nw_host_bits N (ap_prefix p) - 1)}"

definition taken :: "'n network_ops \<Rightarrow> 'n alloc_prefix \<Rightarrow> 'n list \<Rightarrow> ip_addr set" where
  "taken N p used = never_handed_out N p \<union> (\<Union>u \<in> set (used_in N p used). nw_addrs N u)"

text \<open>No network in use lies strictly inside another, and a reserved address is in none but its own.\<close>

definition no_nesting :: "'n network_ops \<Rightarrow> 'n alloc_prefix \<Rightarrow> 'n list \<Rightarrow> bool" where
  "no_nesting N p used \<longleftrightarrow> flat_networks N (set (used_in N p used)) \<and>
     (\<forall>u \<in> set (used_in N p used). \<forall>a \<in> never_handed_out N p. a \<in> nw_addrs N u \<longrightarrow> nw_addrs N u = {a})"

context network_laws
begin

lemma first_addrs:
  "set (nw_iter_take N k n) = {a \<in> nw_addrs N n. addr_val a < nw_base N n + k}"
proof -
  have "addr_val (addr_of (nw_family N n) v) = v" if "v < nw_base N n + 2 ^ nw_host_bits N n" for v
    using that block_end [of n] by (simp add: addr_val_of nw_width_def)
  then show ?thesis unfolding iter_take addrs_image by auto
qed

lemma ends_in: "nw_broadcast N n \<in> nw_addrs N n"
proof -
  have "0 < (2 :: nat) ^ nw_host_bits N n" by simp
  then show ?thesis unfolding addrs_iff broadcast_family broadcast_val by (intro conjI refl) linarith+
qed

lemma reserved_set: "set (reserved_addrs N p) = never_handed_out N p"
proof -
  let ?n = "ap_prefix p"
  have "should_reserve_network_broadcast N ?n \<longleftrightarrow> 2 \<le> nw_host_bits N ?n"
    using width_cases [of N ?n] by (auto simp: should_reserve_network_broadcast_def nw_host_bits_def)
  moreover have "a = nw_network N ?n \<longleftrightarrow> addr_val a = nw_base N ?n" if "a \<in> nw_addrs N ?n" for a
    using that by (auto simp: addrs_iff nw_base_def nw_family_def intro: addr_eqI)
  moreover have "a = nw_broadcast N ?n \<longleftrightarrow> addr_val a = nw_base N ?n + 2 ^ nw_host_bits N ?n - 1" if "a \<in> nw_addrs N ?n" for a
    using that by (metis addr_eqI addrs_iff broadcast_family broadcast_val)
  moreover have "set (case ap_gateway p of Some g \<Rightarrow> if nw_contains N ?n g then [g] else [] | None \<Rightarrow> []) =
      {a \<in> nw_addrs N ?n. ap_gateway p = Some a}"
    by (auto simp: contains_addrs split: option.splits)
  ultimately show ?thesis
    using network_in [of ?n] ends_in [of ?n] unfolding reserved_addrs_def never_handed_out_def set_append first_addrs by auto
qed

lemma host_networks_ok:
  "\<exists>ns. host_networks N as = Inr ns \<and> nw_addrs N ` set ns = (\<lambda>a. {a}) ` set as"
proof (induction "as")
  case (Cons a "as")
  obtain n where "nw_new N a (interface_prefix_len (addr_family a)) = Inr n" "nw_addrs N n = {a}" by (rule host_new)
  then show ?case using Cons.IH by auto
qed simp

lemma build_ok:
  assumes "0 \<le> ap_num_reserved p"
  obtains nets where "build_allocated_networks N p used = Inr nets"
    "(\<Union>n \<in> set nets. nw_addrs N n) = taken N p used"
    "no_nesting N p used \<Longrightarrow> flat_networks N (set nets)"
    "nw_addrs N ` set nets = (\<lambda>a. {a}) ` never_handed_out N p \<union> nw_addrs N ` set (used_in N p used)"
proof -
  obtain hosts where h: "host_networks N (reserved_addrs N p) = Inr hosts" "nw_addrs N ` set hosts = (\<lambda>a. {a}) ` never_handed_out N p"
    using host_networks_ok [of "reserved_addrs N p"] unfolding reserved_set by blast
  let ?nets = "hosts @ used_in N p used"
  have 1: "build_allocated_networks N p used = Inr ?nets"
    using assms h(1) by (simp add: build_allocated_networks_def used_in_def)
  have 2: "nw_addrs N ` set ?nets = (\<lambda>a. {a}) ` never_handed_out N p \<union> nw_addrs N ` set (used_in N p used)"
    using h(2) by (simp add: image_Un)
  have 3: "(\<Union>n \<in> set ?nets. nw_addrs N n) = taken N p used" unfolding taken_def using 2 by auto
  have 4: "flat_networks N (set ?nets)" if "no_nesting N p used"
  proof -
    have single: "\<exists>a \<in> never_handed_out N p. nw_addrs N n = {a}" if "n \<in> set hosts" for n
      using imageI [OF that, of "nw_addrs N"] unfolding h(2) by auto
    show ?thesis unfolding flat_networks_def
    proof (intro ballI)
      fix a b assume ab: "a \<in> set ?nets" "b \<in> set ?nets"
      consider "a \<in> set hosts" "b \<in> set hosts" | "a \<in> set hosts" "b \<in> set (used_in N p used)"
        | "a \<in> set (used_in N p used)" "b \<in> set hosts" | "a \<in> set (used_in N p used)" "b \<in> set (used_in N p used)"
        using ab by auto
      then show "nw_addrs N a = nw_addrs N b \<or> nw_addrs N a \<inter> nw_addrs N b = {}"
      proof cases
        case 1
        then show ?thesis using single [of a] single [of b] by auto
      next
        case 2
        then show ?thesis using single [of a] that by (auto simp: no_nesting_def)
      next
        case 3
        then show ?thesis using single [of b] that by (auto simp: no_nesting_def)
      next
        case 4
        then show ?thesis using that by (auto simp: no_nesting_def flat_networks_def)
      qed
    qed
  qed
  show ?thesis by (rule that [OF 1 3 4 2])
qed

lemma get_allocated_ok:
  assumes "0 \<le> ap_num_reserved p" "no_nesting N p (al_used_ips al)"
  obtains nets where "get_allocated N al p = Inr nets" "(\<Union>n \<in> set nets. nw_addrs N n) = taken N p (al_used_ips al)"
    "distinct nets" "\<And>a b. a \<in> set nets \<Longrightarrow> b \<in> set nets \<Longrightarrow> a \<noteq> b \<Longrightarrow> nw_addrs N a \<inter> nw_addrs N b = {}"
    "nw_addrs N ` set nets \<subseteq> (\<lambda>a. {a}) ` never_handed_out N p \<union> nw_addrs N ` set (used_in N p (al_used_ips al))"
proof -
  obtain nets where n: "build_allocated_networks N p (al_used_ips al) = Inr nets"
    "(\<Union>n \<in> set nets. nw_addrs N n) = taken N p (al_used_ips al)" "flat_networks N (set nets)"
    "nw_addrs N ` set nets = (\<lambda>a. {a}) ` never_handed_out N p \<union> nw_addrs N ` set (used_in N p (al_used_ips al))"
    using build_ok [OF assms(1)] assms(2) by metis
  note c = collapse_covers [OF n(3)]
  show ?thesis
  proof (rule that)
    show "get_allocated N al p = Inr (collapse_allocated_networks N nets)" using n(1) by (simp add: get_allocated_def)
    show "(\<Union>n \<in> set (collapse_allocated_networks N nets). nw_addrs N n) = taken N p (al_used_ips al)"
      using collapse_union [OF n(3)] n(2) by simp
    show "distinct (collapse_allocated_networks N nets)" using c by (simp add: covers_blocks_def)
    show "nw_addrs N a \<inter> nw_addrs N b = {}"
      if "a \<in> set (collapse_allocated_networks N nets)" "b \<in> set (collapse_allocated_networks N nets)" "a \<noteq> b" for a b
      using c that by (simp add: covers_blocks_def)
    show "nw_addrs N ` set (collapse_allocated_networks N nets) \<subseteq>
        (\<lambda>a. {a}) ` never_handed_out N p \<union> nw_addrs N ` set (used_in N p (al_used_ips al))"
      unfolding n(4) [symmetric] using collapse_subset [of N nets] by (rule image_mono)
  qed
qed

end

section \<open>The search\<close>

lemma scan_iteration:
  assumes "0 < sz" "cur \<le> bc" "build_candidate_subnet N n cur len = Inr c"
  shows "scan N n len nets sz bc cur =
    (if \<not> is_allocated N nets c then Some (Inr (Some c)) else if 2 ^ 128 \<le> cur + sz then None else scan N n len nets sz bc (cur + sz))"
  unfolding scan.simps [of N n len nets sz bc cur] using assms by simp

lemma scan_done: "0 < sz \<Longrightarrow> bc < cur \<Longrightarrow> scan N n len nets sz bc cur = Some (Inr None)"
  unfolding scan.simps [of N n len nets sz bc cur] by simp

text \<open>The \<open>i\<close>-th candidate, the loop when it reaches it, and that the candidates from \<open>i\<close> to below \<open>j\<close> overlap something.\<close>

definition cand_at :: "'n network_ops \<Rightarrow> 'n \<Rightarrow> nat \<Rightarrow> nat \<Rightarrow> alloc_error + 'n" where
  "cand_at N n len i = build_candidate_subnet N n (nw_base N n + i * 2 ^ (nw_width N n - len)) len"

definition scan_from :: "'n network_ops \<Rightarrow> 'n \<Rightarrow> nat \<Rightarrow> 'n list \<Rightarrow> nat \<Rightarrow> (alloc_error + 'n option) option" where
  "scan_from N n len nets i = scan N n len nets (2 ^ (nw_width N n - len)) (addr_val (nw_broadcast N n))
     (nw_base N n + i * 2 ^ (nw_width N n - len))"

definition all_allocated :: "'n network_ops \<Rightarrow> 'n \<Rightarrow> nat \<Rightarrow> 'n list \<Rightarrow> nat \<Rightarrow> nat \<Rightarrow> bool" where
  "all_allocated N n len nets i j \<longleftrightarrow> (\<forall>k c. i \<le> k \<longrightarrow> k < j \<longrightarrow> cand_at N n len k = Inr c \<longrightarrow> is_allocated N nets c)"

context network_laws
begin

lemma candidate_ok:
  assumes "len \<le> nw_width N n" "v < 2 ^ nw_width N n" "2 ^ (nw_width N n - len) dvd v"
  obtains c where "build_candidate_subnet N n v len = Inr c" "nw_prefix N c = len" "nw_family N c = nw_family N n"
    "nw_base N c = v" "addr_val (nw_ip N c) = v"
proof -
  let ?a = "addr_of (nw_family N n) v"
  obtain c where c: "nw_new N ?a len = Inr c" "nw_ip N c = ?a" "nw_prefix N c = len"
    using new_ok [of len ?a] assms(1) by (auto simp: nw_width_def)
  have f: "nw_family N c = nw_family N n" using ip_family [of c] c(2) by simp
  have v: "addr_val ?a = v" using assms(2) by (simp add: addr_val_of nw_width_def)
  have "nw_base N c = v" using assms(3) v unfolding network_mask c(2) nw_host_bits_def c(3) by (simp add: nw_width_def f)
  then show ?thesis using that c f v by (simp add: build_candidate_subnet_def)
qed

text \<open>One iteration, and the end of the loop.\<close>

lemma scan_step:
  assumes "nw_prefix N n < len" "len \<le> nw_width N n" "i < 2 ^ (len - nw_prefix N n)"
  obtains c where "cand_at N n len i = Inr c"
    "scan_from N n len nets i =
       (if \<not> is_allocated N nets c then Some (Inr (Some c))
        else if Suc i = 2 ^ (len - nw_prefix N n) \<and> nw_base N n + 2 ^ nw_host_bits N n = 2 ^ 128 then None
        else scan_from N n len nets (Suc i))"
proof -
  let ?K = "2 ^ (len - nw_prefix N n) :: nat" and ?s = "2 ^ (nw_width N n - len) :: nat"
  have K: "?K * ?s = 2 ^ nw_host_bits N n" using assms(1,2) by (simp add: nw_host_bits_def flip: power_add)
  have pos: "0 < ?s" by simp
  have "Suc i * ?s \<le> ?K * ?s" using assms(3) by (intro mult_le_mono1) simp
  then have step: "i * ?s + ?s \<le> 2 ^ nw_host_bits N n" unfolding K by simp
  have le: "nw_base N n + i * ?s \<le> addr_val (nw_broadcast N n)" using step pos unfolding broadcast_val by linarith
  have small: "nw_base N n + i * ?s < 2 ^ nw_width N n" using step pos block_end [of n] by linarith
  have "?s dvd nw_base N n" using base_dvd [of n] assms(1,2) by (auto simp: nw_host_bits_def intro: power_le_dvd)
  then have "?s dvd nw_base N n + i * ?s" by simp
  then obtain c where c: "build_candidate_subnet N n (nw_base N n + i * ?s) len = Inr c" using candidate_ok [OF assms(2) small] by metis
  have "nw_base N n + 2 ^ nw_host_bits N n \<le> 2 ^ 128"
    using block_end [of n] width_cases [of N n] by auto
  then have top: "2 ^ 128 \<le> nw_base N n + i * ?s + ?s \<longleftrightarrow> Suc i * ?s = ?K * ?s \<and> nw_base N n + 2 ^ nw_host_bits N n = 2 ^ 128"
    using step unfolding K mult_Suc by linarith
  have last: "Suc i * ?s = ?K * ?s \<longleftrightarrow> Suc i = ?K" unfolding mult_cancel2 by simp
  have next_pos: "nw_base N n + Suc i * ?s = nw_base N n + i * ?s + ?s" by simp
  have "scan_from N n len nets i =
       (if \<not> is_allocated N nets c then Some (Inr (Some c)) else if 2 ^ 128 \<le> nw_base N n + i * ?s + ?s then None
        else scan_from N n len nets (Suc i))"
    unfolding scan_from_def next_pos by (rule scan_iteration [OF pos le c])
  then show ?thesis unfolding top last by (intro that [of c]) (simp_all only: cand_at_def c)
qed

lemma scan_end:
  assumes "nw_prefix N n < len" "len \<le> nw_width N n"
  shows "scan_from N n len nets (2 ^ (len - nw_prefix N n)) = Some (Inr None)"
proof -
  have "2 ^ (len - nw_prefix N n) * (2 :: nat) ^ (nw_width N n - len) = 2 ^ nw_host_bits N n"
    using assms by (simp add: nw_host_bits_def flip: power_add)
  moreover have "0 < (2 :: nat) ^ nw_host_bits N n" by simp
  then have "addr_val (nw_broadcast N n) < nw_base N n + 2 ^ nw_host_bits N n" unfolding broadcast_val by linarith
  ultimately show ?thesis unfolding scan_from_def by (intro scan_done) simp_all
qed

lemma scan_ok:
  assumes "nw_prefix N n < len" "len \<le> nw_width N n" "i \<le> 2 ^ (len - nw_prefix N n)"
  shows "(\<exists>j c. i \<le> j \<and> j < 2 ^ (len - nw_prefix N n) \<and> cand_at N n len j = Inr c \<and> \<not> is_allocated N nets c \<and>
      scan_from N n len nets i = Some (Inr (Some c)) \<and> all_allocated N n len nets i j) \<or>
    scan_from N n len nets i =
      (if i < 2 ^ (len - nw_prefix N n) \<and> nw_base N n + 2 ^ nw_host_bits N n = 2 ^ 128 then None else Some (Inr None)) \<and>
      all_allocated N n len nets i (2 ^ (len - nw_prefix N n))"
  using assms(3)
proof (induction "2 ^ (len - nw_prefix N n) - i" arbitrary: i)
  case 0
  then have "i = 2 ^ (len - nw_prefix N n)" by simp
  then show ?case using scan_end [OF assms(1,2)] by (simp add: all_allocated_def)
next
  case (Suc d)
  let ?K = "2 ^ (len - nw_prefix N n) :: nat"
  have i: "i < ?K" using Suc.hyps(2) by simp
  obtain c where c: "cand_at N n len i = Inr c" "scan_from N n len nets i =
       (if \<not> is_allocated N nets c then Some (Inr (Some c))
        else if Suc i = ?K \<and> nw_base N n + 2 ^ nw_host_bits N n = 2 ^ 128 then None
        else scan_from N n len nets (Suc i))"
    using scan_step [OF assms(1,2) i] .
  show ?case
  proof (cases "is_allocated N nets c")
    case False
    then have "scan_from N n len nets i = Some (Inr (Some c))" "all_allocated N n len nets i i" using c(2) by (simp_all add: all_allocated_def)
    then show ?thesis using i c(1) False by blast
  next
    case True
    have more: "all_allocated N n len nets i j" if "all_allocated N n len nets (Suc i) j" for j
      unfolding all_allocated_def
    proof (intro allI impI)
      fix k c' assume k: "i \<le> k" "k < j" "cand_at N n len k = Inr c'"
      show "is_allocated N nets c'"
      proof (cases "k = i")
        case False
        then have "Suc i \<le> k" using k(1) by simp
        then show ?thesis using that k by (simp add: all_allocated_def)
      qed (use True c(1) k in simp)
    qed
    have "d = ?K - Suc i" "Suc i \<le> ?K" using Suc.hyps(2) i by simp_all
    from Suc.hyps(1) [OF this] consider
      j c' where "Suc i \<le> j" "j < ?K" "cand_at N n len j = Inr c'" "\<not> is_allocated N nets c'"
        "scan_from N n len nets (Suc i) = Some (Inr (Some c'))" "all_allocated N n len nets (Suc i) j"
      | "scan_from N n len nets (Suc i) = (if Suc i < ?K \<and> nw_base N n + 2 ^ nw_host_bits N n = 2 ^ 128 then None else Some (Inr None))"
        "all_allocated N n len nets (Suc i) ?K"
      by blast
    then show ?thesis
    proof cases
      case (1 j c')
      then have "scan_from N n len nets i = Some (Inr (Some c'))" using c(2) True by simp
      then show ?thesis using 1 more [OF 1(6)] by (meson Suc_leD)
    next
      case 2
      then have "scan_from N n len nets i = (if i < ?K \<and> nw_base N n + 2 ^ nw_host_bits N n = 2 ^ 128 then None else Some (Inr None))"
        using c(2) True i by auto
      then show ?thesis using more [OF 2(2)] by blast
    qed
  qed
qed

end

section \<open>Single addresses\<close>

context network_laws
begin

lemma host_candidate:
  assumes "j < 2 ^ nw_host_bits N n"
  obtains c where "build_candidate_subnet N n (nw_base N n + j) (nw_width N n) = Inr c"
    "nw_ip N c = addr_of (nw_family N n) (nw_base N n + j)" "nw_addrs N c = {addr_of (nw_family N n) (nw_base N n + j)}"
proof -
  let ?a = "addr_of (nw_family N n) (nw_base N n + j)"
  obtain c where "nw_new N ?a (interface_prefix_len (addr_family ?a)) = Inr c" "nw_addrs N c = {?a}" "nw_ip N c = ?a"
    by (rule host_new)
  then show ?thesis using that by (simp add: build_candidate_subnet_def nw_width_def)
qed

lemma next_ip:
  assumes "nw_prefix N n < nw_width N n" "nw_base N n + 2 ^ nw_host_bits N n < 2 ^ 128"
    "(\<Union>u \<in> set nets. nw_addrs N u) = U"
  shows "if nw_addrs N n \<subseteq> U then next_available_prefix N n (nw_width N n) nets = Some (Inr None)
    else \<exists>c. next_available_prefix N n (nw_width N n) nets = Some (Inr (Some c)) \<and> nw_addrs N c = {nw_ip N c} \<and>
      nw_ip N c \<in> nw_addrs N n - U \<and> (\<forall>b \<in> nw_addrs N n - U. addr_val (nw_ip N c) \<le> addr_val b)"
proof -
  let ?at = "\<lambda>j. addr_of (nw_family N n) (nw_base N n + j)"
  let ?K = "2 ^ nw_host_bits N n :: nat"
  have cand: "cand_at N n (nw_width N n) j = build_candidate_subnet N n (nw_base N n + j) (nw_width N n)" for j
    by (simp add: cand_at_def)
  have start: "next_available_prefix N n (nw_width N n) nets = scan_from N n (nw_width N n) nets 0"
    using width_cases [of N n] assms(1)
    by (auto simp: next_available_prefix_def get_network_details_def nw_base_def scan_from_def)
  have alloc: "is_allocated N nets c \<longleftrightarrow> ?at j \<in> U" if "j < ?K" "cand_at N n (nw_width N n) j = Inr c" for j c
  proof -
    have "nw_addrs N c = {?at j}" using host_candidate [OF that(1)] that(2) unfolding cand by (metis Inr_inject)
    then show ?thesis unfolding is_allocated_iff using assms(3) by auto
  qed
  have val: "addr_val (?at j) = nw_base N n + j" if "j < ?K" for j
    using block_end [of n] that by (intro addr_val_of) (simp add: nw_width_def)
  have members: "nw_addrs N n = ?at ` {..< ?K}"
  proof -
    have "{nw_base N n ..< nw_base N n + ?K} = (+) (nw_base N n) ` {..< ?K}"
      using image_add_atLeastLessThan [of "nw_base N n" 0 ?K] by (simp add: lessThan_atLeast0 add.commute)
    then show ?thesis unfolding addrs_image by (simp add: image_image)
  qed
  have bits: "nw_width N n - nw_prefix N n = nw_host_bits N n" by (simp add: nw_host_bits_def)
  from scan_ok [OF assms(1) order_refl, of 0 nets] assms(2)
  consider j c where "j < ?K" "cand_at N n (nw_width N n) j = Inr c" "\<not> is_allocated N nets c"
      "scan_from N n (nw_width N n) nets 0 = Some (Inr (Some c))" "all_allocated N n (nw_width N n) nets 0 j"
    | "scan_from N n (nw_width N n) nets 0 = Some (Inr None)" "all_allocated N n (nw_width N n) nets 0 ?K"
    by (auto simp: bits)
  then show ?thesis
  proof cases
    case (1 j c)
    obtain c' where "cand_at N n (nw_width N n) j = Inr c'" "nw_ip N c' = ?at j" "nw_addrs N c' = {?at j}"
      using host_candidate [OF 1(1)] unfolding cand .
    then have c: "nw_ip N c = ?at j" "nw_addrs N c = {?at j}" using 1(2) by simp_all
    have free: "?at j \<notin> U" using alloc [OF 1(1,2)] 1(3) by simp
    have "?at j \<in> nw_addrs N n" using 1(1) members by blast
    moreover have "addr_val (?at j) \<le> addr_val b" if "b \<in> nw_addrs N n - U" for b
    proof -
      from that members obtain k where k: "k < ?K" "b = ?at k" "?at k \<notin> U" by auto
      obtain d where "cand_at N n (nw_width N n) k = Inr d" using host_candidate [OF k(1)] unfolding cand by blast
      then have "\<not> k < j" using 1(5) alloc [OF k(1)] k(3) by (auto simp: all_allocated_def)
      then show ?thesis using val [OF 1(1)] val [OF k(1)] k(2) by simp
    qed
    ultimately show ?thesis using 1(4) start c free by auto
  next
    case 2
    have "?at k \<in> U" if k: "k < ?K" for k
    proof -
      obtain d where "cand_at N n (nw_width N n) k = Inr d" using host_candidate [OF k] unfolding cand by blast
      then show ?thesis using 2(2) alloc k by (auto simp: all_allocated_def)
    qed
    then have "nw_addrs N n \<subseteq> U" using members by auto
    then show ?thesis using 2(1) start by simp
  qed
qed

lemma allocate_in_ip:
  assumes "0 \<le> ap_num_reserved p" "no_nesting N p (al_used_ips al)"
    "al_address_strategy al = NextAvailableIp \<or> al_address_strategy al = Automatic"
    "nw_prefix N (ap_prefix p) < nw_width N (ap_prefix p)" "addr_val (nw_broadcast N (ap_prefix p)) < 2 ^ 128 - 1"
  shows "if nw_addrs N (ap_prefix p) \<subseteq> taken N p (al_used_ips al)
    then allocate_in N al p = Some (Inl (PrefixExhausted (nw_ip N (ap_prefix p))))
    else \<exists>c. allocate_in N al p = Some (Inr c) \<and> nw_addrs N c = {nw_ip N c} \<and>
      nw_ip N c \<in> nw_addrs N (ap_prefix p) - taken N p (al_used_ips al) \<and>
      (\<forall>b \<in> nw_addrs N (ap_prefix p) - taken N p (al_used_ips al). addr_val (nw_ip N c) \<le> addr_val b)"
proof -
  obtain nets where n: "get_allocated N al p = Inr nets" "(\<Union>n \<in> set nets. nw_addrs N n) = taken N p (al_used_ips al)"
    using get_allocated_ok [OF assms(1,2)] by metis
  have len: "resolve_prefix_length N (al_address_strategy al) (ap_prefix p) = Inr (nw_width N (ap_prefix p))"
    using assms(3) width_cases [of N "ap_prefix p"] by (auto simp: resolve_prefix_length_def)
  have "nw_base N (ap_prefix p) + 2 ^ nw_host_bits N (ap_prefix p) < 2 ^ 128"
    using assms(5) unfolding broadcast_val by linarith
  from next_ip [OF assms(4) this n(2)] show ?thesis
    using n(1) len by (auto simp: allocate_in_def split: if_splits)
qed

end

section \<open>Counting\<close>

definition as_count :: "nat \<Rightarrow> address_count" where
  "as_count k = (if k < 2 ^ 128 then Count k else FullIpv6Space)"

lemma count_add_as_count: "count_add (as_count a) (as_count b) = as_count (a + b)"
  by (auto simp: as_count_def)

lemma free_after_as_count: "tot \<le> 2 ^ 128 \<Longrightarrow> k \<le> 2 ^ 128 \<Longrightarrow> tot < 2 ^ 128 \<or> 0 < k \<Longrightarrow> free_after (as_count tot) (as_count k) = Inr (tot - k)"
  by (auto simp: as_count_def)

lemma fold_counts:
  "(\<And>n. n \<in> set nets \<Longrightarrow> f n = as_count (g n)) \<Longrightarrow>
   fold (\<lambda>n acc. count_add acc (f n)) nets (as_count k) = as_count (k + sum_list (map g nets))"
  by (induction nets arbitrary: k) (simp_all add: count_add_as_count add.assoc)

context network_laws
begin

lemma network_size_count: "get_network_size N n = as_count (card (nw_addrs N n))"
proof -
  have "(2 :: nat) ^ nw_host_bits N n < 2 ^ 128" if "0 < nw_prefix N n \<or> nw_family N n = Ipv4"
    using that width_cases [of N n] by (intro power_strict_increasing) (auto simp: nw_host_bits_def)
  then show ?thesis
    using size_val [of n] width_cases [of N n]
    by (auto simp: get_network_size_def as_count_def card_addrs nw_host_bits_def)
qed

lemma reserved_in: "never_handed_out N p \<subseteq> nw_addrs N (ap_prefix p)"
  by (auto simp: never_handed_out_def)

lemma num_free_exact:
  assumes "find (\<lambda>p. ap_id p = i) (al_prefixes al) = Some p" "0 \<le> ap_num_reserved p" "no_nesting N p (al_used_ips al)"
    "\<And>u. u \<in> set (used_in N p (al_used_ips al)) \<Longrightarrow> nw_addrs N u \<subseteq> nw_addrs N (ap_prefix p)"
  shows "num_free N al i = Inr (card (nw_addrs N (ap_prefix p) - taken N p (al_used_ips al)))"
proof -
  let ?n = "ap_prefix p" and ?T = "taken N p (al_used_ips al)"
  obtain nets where nets: "get_allocated N al p = Inr nets" "(\<Union>n \<in> set nets. nw_addrs N n) = ?T" "distinct nets"
    "\<And>a b. a \<in> set nets \<Longrightarrow> b \<in> set nets \<Longrightarrow> a \<noteq> b \<Longrightarrow> nw_addrs N a \<inter> nw_addrs N b = {}"
    using get_allocated_ok [OF assms(2,3)] by metis
  have T: "?T \<subseteq> nw_addrs N ?n" using reserved_in [of p] assms(4) by (auto simp: taken_def)
  have "sum_list (map (\<lambda>n. card (nw_addrs N n)) nets) = (\<Sum>n \<in> set nets. card (nw_addrs N n))"
    using nets(3) by (rule sum_list_distinct_conv_sum_set)
  also have "\<dots> = card (\<Union>n \<in> set nets. nw_addrs N n)"
    using nets(4) by (intro card_UN_disjoint [symmetric]) auto
  finally have "fold (\<lambda>n acc. count_add acc (get_network_size N n)) nets (as_count 0) = as_count (card ?T)"
    using fold_counts [of nets "get_network_size N" "\<lambda>n. card (nw_addrs N n)" 0] network_size_count nets(2) by simp
  moreover have "Count 0 = as_count 0" by (simp add: as_count_def)
  moreover have big: "card (nw_addrs N ?n) \<le> 2 ^ 128" unfolding card_addrs
    using width_cases [of N ?n] by (intro power_increasing) (auto simp: nw_host_bits_def)
  moreover have "card ?T \<le> card (nw_addrs N ?n)" using T by (intro card_mono) simp_all
  moreover have "card (nw_addrs N ?n) < 2 ^ 128 \<or> 0 < card ?T"
  proof (cases "nw_host_bits N ?n = 128")
    case True
    then have "nw_family N ?n = Ipv6" "nw_prefix N ?n = 0" using width_cases [of N ?n] by (auto simp: nw_host_bits_def)
    then have "nw_network N ?n \<in> ?T" using True network_in [of ?n] by (simp add: taken_def never_handed_out_def nw_base_def)
    then show ?thesis using finite_subset [OF T] by (auto simp: card_gt_0_iff)
  next
    case False
    then have "nw_host_bits N ?n < 128" using width_cases [of N ?n] by (auto simp: nw_host_bits_def)
    then show ?thesis unfolding card_addrs by (intro disjI1 power_strict_increasing) simp_all
  qed
  ultimately have "num_free N al i = Inr (card (nw_addrs N ?n) - card ?T)"
    using assms(1) nets(1) free_after_as_count by (simp add: num_free_def network_size_count)
  then show ?thesis using T by (simp add: card_Diff_subset finite_subset)
qed

end

section \<open>A reference implementation\<close>

type_synonym ref_net = "(net4, net6) ip_prefix"

definition ref_nw_new :: "ip_addr \<Rightarrow> nat \<Rightarrow> string + ref_net" where
  "ref_nw_new a l =
     (let checked = (\<lambda>r. case r of Some n \<Rightarrow> Inr n | None \<Rightarrow> Inl ''invalid prefix'')
      in case a of AddrV4 w \<Rightarrow> checked (map_option V4 (net_new ref4 w l)) | AddrV6 w \<Rightarrow> checked (map_option V6 (net_new ref6 w l)))"

fun ref_nw_ip :: "ref_net \<Rightarrow> ip_addr" where
  "ref_nw_ip (V4 n) = AddrV4 (net_addr ref4 n)"
| "ref_nw_ip (V6 n) = AddrV6 (net_addr ref6 n)"

fun ref_nw_prefix :: "ref_net \<Rightarrow> nat" where
  "ref_nw_prefix (V4 n) = net_prefix_len ref4 n"
| "ref_nw_prefix (V6 n) = net_prefix_len ref6 n"

fun ref_nw_network :: "ref_net \<Rightarrow> ip_addr" where
  "ref_nw_network (V4 n) = AddrV4 (net_network ref4 n)"
| "ref_nw_network (V6 n) = AddrV6 (net_network ref6 n)"

fun ref_nw_broadcast :: "ref_net \<Rightarrow> ip_addr" where
  "ref_nw_broadcast (V4 n) = AddrV4 (net_broadcast ref4 n)"
| "ref_nw_broadcast (V6 n) = AddrV6 (net_broadcast ref6 n)"

definition ref_nw_size :: "ref_net \<Rightarrow> nat" where
  "ref_nw_size n = 2 ^ (interface_prefix_len (addr_family (ref_nw_network n)) - ref_nw_prefix n)"

definition ref_nw :: "ref_net network_ops" where
  "ref_nw = \<lparr>nw_new = ref_nw_new, nw_ip = ref_nw_ip, nw_prefix = ref_nw_prefix, nw_network = ref_nw_network,
     nw_broadcast = ref_nw_broadcast,
     nw_contains = (\<lambda>n a. addr_family a = addr_family (ref_nw_network n) \<and> addr_val (ref_nw_network n) \<le> addr_val a \<and>
       addr_val a \<le> addr_val (ref_nw_broadcast n)),
     nw_size = ref_nw_size,
     nw_iter_take = (\<lambda>k n. map (addr_of (addr_family (ref_nw_network n)))
       [addr_val (ref_nw_network n) ..< addr_val (ref_nw_network n) + min k (ref_nw_size n)]),
     nw_show = (\<lambda>n. show_addr (ref_nw_ip n) @ CHR ''/'' # show_nat (ref_nw_prefix n))\<rparr>"

lemma ref_nw_simps [simp]: "nw_new ref_nw = ref_nw_new" "nw_ip ref_nw = ref_nw_ip" "nw_prefix ref_nw = ref_nw_prefix"
  "nw_network ref_nw = ref_nw_network" "nw_broadcast ref_nw = ref_nw_broadcast" "nw_size ref_nw = ref_nw_size"
  by (simp_all add: ref_nw_def)

lemma ref_nw_views: "nw_family ref_nw (V4 n) = Ipv4" "nw_family ref_nw (V6 m) = Ipv6"
  "nw_host_bits ref_nw (V4 n) = host_bits ref4 n" "nw_host_bits ref_nw (V6 m) = host_bits ref6 m"
  "nw_base ref_nw (V4 n) = blk ref4 n * 2 ^ host_bits ref4 n" "nw_base ref_nw (V6 m) = blk ref6 m * 2 ^ host_bits ref6 m"
  by (simp_all add: nw_family_def nw_host_bits_def nw_width_def host_bits_def nw_base_def r4.unat_network [unfolded host_bits_def, simplified]
      r6.unat_network [unfolded host_bits_def, simplified])

interpretation refnw: network_laws ref_nw
proof
  fix n :: ref_net and a :: ip_addr and l k :: nat
  show "nw_prefix ref_nw n \<le> nw_width ref_nw n"
    using r4.len_le r6.len_le by (cases n) (auto simp: nw_width_def ref_nw_views)
  show "addr_family (nw_ip ref_nw n) = nw_family ref_nw n" by (cases n) (simp_all add: ref_nw_views)
  show "nw_base ref_nw n = addr_val (nw_ip ref_nw n) - addr_val (nw_ip ref_nw n) mod 2 ^ nw_host_bits ref_nw n"
    by (cases n) (simp_all add: ref_nw_views blk_def minus_mod_eq_div_mult)
  show "addr_family (nw_broadcast ref_nw n) = nw_family ref_nw n" by (cases n) (simp_all add: ref_nw_views)
  show "addr_val (nw_broadcast ref_nw n) = nw_base ref_nw n + 2 ^ nw_host_bits ref_nw n - 1"
    by (cases n) (simp_all add: ref_nw_views r4.unat_broadcast r6.unat_broadcast)
  show "nw_contains ref_nw n a \<longleftrightarrow> addr_family a = nw_family ref_nw n \<and> nw_base ref_nw n \<le> addr_val a \<and>
      addr_val a \<le> addr_val (nw_broadcast ref_nw n)"
    by (simp add: ref_nw_def nw_family_def nw_base_def)
  show "\<exists>n. nw_new ref_nw a l = Inr n \<and> nw_ip ref_nw n = a \<and> nw_prefix ref_nw n = l"
    if l: "l \<le> interface_prefix_len (addr_family a)"
  proof (cases a)
    case (AddrV4 w)
    then obtain q where "net_new ref4 w l = Some q" "net_addr ref4 q = w" "net_prefix_len ref4 q = l"
      using r4.new_ok [of l w] l by auto
    then show ?thesis using AddrV4 by (intro exI [of _ "V4 q"]) (simp add: ref_nw_new_def)
  next
    case (AddrV6 w)
    then obtain q where "net_new ref6 w l = Some q" "net_addr ref6 q = w" "net_prefix_len ref6 q = l"
      using r6.new_ok [of l w] l by auto
    then show ?thesis using AddrV6 by (intro exI [of _ "V6 q"]) (simp add: ref_nw_new_def)
  qed
  show "nw_size ref_nw n = 2 ^ nw_host_bits ref_nw n"
    by (simp add: ref_nw_size_def nw_host_bits_def nw_width_def nw_family_def)
  show "nw_iter_take ref_nw k n = map (addr_of (nw_family ref_nw n)) [nw_base ref_nw n ..< nw_base ref_nw n + min k (2 ^ nw_host_bits ref_nw n)]"
    by (simp add: ref_nw_def ref_nw_size_def nw_host_bits_def nw_width_def nw_family_def nw_base_def)
qed

text \<open>IPv4 networks for the examples.\<close>

definition net_v4 :: "32 word \<Rightarrow> nat \<Rightarrow> ref_net" where
  "net_v4 a l = V4 (Abs_net4 (a, l))"

lemma net_v4_simps:
  assumes "l \<le> 32"
  shows "nw_ip ref_nw (net_v4 a l) = AddrV4 a" "nw_prefix ref_nw (net_v4 a l) = l" "nw_family ref_nw (net_v4 a l) = Ipv4"
    "nw_host_bits ref_nw (net_v4 a l) = 32 - l" "nw_base ref_nw (net_v4 a l) = unat a div 2 ^ (32 - l) * 2 ^ (32 - l)"
proof -
  have "Rep_net4 (Abs_net4 (a, l)) = (a, l)" using assms by (simp add: Abs_net4_inverse)
  then have r: "net_addr ref4 (Abs_net4 (a, l)) = a" "net_prefix_len ref4 (Abs_net4 (a, l)) = l"
    by (simp_all add: ref4_def ref_ops_def)
  then show "nw_ip ref_nw (net_v4 a l) = AddrV4 a" "nw_prefix ref_nw (net_v4 a l) = l" by (simp_all add: net_v4_def)
  show "nw_family ref_nw (net_v4 a l) = Ipv4" by (simp add: net_v4_def ref_nw_views)
  show "nw_host_bits ref_nw (net_v4 a l) = 32 - l" using r by (simp add: net_v4_def ref_nw_views host_bits_def)
  then show "nw_base ref_nw (net_v4 a l) = unat a div 2 ^ (32 - l) * 2 ^ (32 - l)"
    using r by (simp add: net_v4_def ref_nw_views blk_def host_bits_def)
qed

lemma net_v4_addrs: "l \<le> 32 \<Longrightarrow> nw_addrs ref_nw (net_v4 a l) =
    {AddrV4 b | b. unat a div 2 ^ (32 - l) * 2 ^ (32 - l) \<le> unat b \<and> unat b < unat a div 2 ^ (32 - l) * 2 ^ (32 - l) + 2 ^ (32 - l)}"
proof (rule set_eqI)
  fix x
  assume "l \<le> 32"
  then show "x \<in> nw_addrs ref_nw (net_v4 a l) \<longleftrightarrow> x \<in> {AddrV4 b | b. unat a div 2 ^ (32 - l) * 2 ^ (32 - l) \<le> unat b \<and>
      unat b < unat a div 2 ^ (32 - l) * 2 ^ (32 - l) + 2 ^ (32 - l)}"
    by (cases x) (simp_all add: refnw.addrs_iff net_v4_simps)
qed

section \<open>Properties\<close>

text \<open>
  C6: the allocator hands out the first free address. For a prefix shorter than an address that does not end
  at the very last IPv6 address, the iterator returns the lowest address of the prefix that is not the
  gateway, not among the first reserved ones, not the network or broadcast address, and in no network in
  use; it reports that the prefix is exhausted exactly when there is none. This needs
  that no allocated network lies inside another one.
\<close>

theorem allocator_returns_first_free:
  assumes "network_laws N" "al_prefixes al = p # ps" "0 \<le> ap_num_reserved p" "no_nesting N p (al_used_ips al)"
    "al_address_strategy al = NextAvailableIp"
    "nw_prefix N (ap_prefix p) < nw_width N (ap_prefix p)" "addr_val (nw_broadcast N (ap_prefix p)) < 2 ^ 128 - 1"
  shows "if nw_addrs N (ap_prefix p) \<subseteq> taken N p (al_used_ips al)
    then allocator_next N al = Some (Some (ap_id p, Inl (PrefixExhausted (nw_ip N (ap_prefix p)))), al\<lparr>al_prefixes := ps\<rparr>)
    else \<exists>c. allocator_next N al = Some (Some (ap_id p, Inr c), al\<lparr>al_prefixes := ps\<rparr>) \<and> nw_addrs N c = {nw_ip N c} \<and>
      nw_ip N c \<in> nw_addrs N (ap_prefix p) - taken N p (al_used_ips al) \<and>
      (\<forall>b \<in> nw_addrs N (ap_prefix p) - taken N p (al_used_ips al). addr_val (nw_ip N c) \<le> addr_val b)"
  using network_laws.allocate_in_ip [OF assms(1,3,4) _ assms(6,7)] assms(2,5)
  by (auto simp: allocator_next_def split: if_splits)

definition example_prefix :: "ref_net alloc_prefix" where
  "example_prefix = \<lparr>ap_id = ''p'', ap_prefix = net_v4 8 29, ap_gateway = Some (AddrV4 9), ap_num_reserved = 0\<rparr>"

definition example_allocator :: "ref_net list \<Rightarrow> ref_net ip_allocator" where
  "example_allocator used = \<lparr>al_prefixes = [example_prefix], al_used_ips = used, al_address_strategy = NextAvailableIp\<rparr>"

lemma example_facts:
  "nw_prefix ref_nw (ap_prefix example_prefix) < nw_width ref_nw (ap_prefix example_prefix)"
  "addr_val (nw_broadcast ref_nw (ap_prefix example_prefix)) = 15"
  "AddrV4 b \<in> nw_addrs ref_nw (ap_prefix example_prefix) \<longleftrightarrow> 8 \<le> unat b \<and> unat b < 16"
  unfolding refnw.broadcast_val by (simp_all add: example_prefix_def nw_width_def net_v4_simps net_v4_addrs del: ref_nw_simps)

lemma example_ends:
  "nw_network ref_nw (ap_prefix example_prefix) = AddrV4 8" "nw_broadcast ref_nw (ap_prefix example_prefix) = AddrV4 15"
proof -
  have "addr_val (nw_network ref_nw (ap_prefix example_prefix)) = 8"
    using net_v4_simps(5) [of 29 8] by (simp add: nw_base_def example_prefix_def)
  moreover have f: "addr_family (nw_network ref_nw (ap_prefix example_prefix)) = Ipv4"
    using net_v4_simps(3) [of 29 8] by (simp add: nw_family_def example_prefix_def)
  ultimately show "nw_network ref_nw (ap_prefix example_prefix) = AddrV4 8" by (intro addr_eqI) simp_all
  show "nw_broadcast ref_nw (ap_prefix example_prefix) = AddrV4 15"
    using example_facts(2) refnw.broadcast_family [of "ap_prefix example_prefix"] f by (intro addr_eqI) (simp_all add: nw_family_def)
qed

lemma example_reserved: "never_handed_out ref_nw example_prefix = {AddrV4 8, AddrV4 9, AddrV4 15}"
proof -
  have "nw_contains ref_nw (ap_prefix example_prefix) (AddrV4 9)"
    using example_facts(3) [of 9] by (simp add: refnw.contains_addrs)
  moreover have "should_reserve_network_broadcast ref_nw (ap_prefix example_prefix)"
    by (simp add: should_reserve_network_broadcast_def example_prefix_def net_v4_simps del: ref_nw_simps)
  moreover have "ap_gateway example_prefix = Some (AddrV4 9)" "ap_num_reserved example_prefix = 0" by (simp_all add: example_prefix_def)
  ultimately show ?thesis
    by (auto simp: reserved_addrs_def example_ends refnw.iter_take refnw.reserved_set [symmetric] simp del: ref_nw_simps)
qed

theorem allocator_returns_first_free_witness:
  "\<exists>c. allocator_next ref_nw (example_allocator []) = Some (Some (''p'', Inr c), (example_allocator [])\<lparr>al_prefixes := []\<rparr>) \<and>
     nw_ip ref_nw c = AddrV4 10"
proof -
  let ?al = "example_allocator []"
  have T: "taken ref_nw example_prefix (al_used_ips ?al) = {AddrV4 8, AddrV4 9, AddrV4 15}"
    by (simp add: taken_def used_in_def example_allocator_def example_reserved)
  have in10: "AddrV4 10 \<in> nw_addrs ref_nw (ap_prefix example_prefix) - {AddrV4 8, AddrV4 9, AddrV4 15}"
    by (simp add: example_facts(3))
  have p: "al_prefixes ?al = [example_prefix]" "0 \<le> ap_num_reserved example_prefix" "no_nesting ref_nw example_prefix (al_used_ips ?al)"
    "al_address_strategy ?al = NextAvailableIp" "addr_val (nw_broadcast ref_nw (ap_prefix example_prefix)) < 2 ^ 128 - 1"
    using example_facts(2)
    by (simp_all add: example_allocator_def example_prefix_def no_nesting_def flat_networks_def used_in_def del: ref_nw_simps)
  have "\<not> nw_addrs ref_nw (ap_prefix example_prefix) \<subseteq> {AddrV4 8, AddrV4 9, AddrV4 15}" using in10 by blast
  from allocator_returns_first_free [OF refnw.network_laws_axioms p(1-4) example_facts(1) p(5), unfolded T if_not_P [OF this]]
  obtain c where c: "allocator_next ref_nw ?al = Some (Some (ap_id example_prefix, Inr c), ?al\<lparr>al_prefixes := []\<rparr>)"
    "nw_ip ref_nw c \<in> nw_addrs ref_nw (ap_prefix example_prefix) - {AddrV4 8, AddrV4 9, AddrV4 15}"
    "\<forall>b \<in> nw_addrs ref_nw (ap_prefix example_prefix) - {AddrV4 8, AddrV4 9, AddrV4 15}. addr_val (nw_ip ref_nw c) \<le> addr_val b"
    by blast
  have f: "addr_family (nw_ip ref_nw c) = Ipv4" and v: "8 \<le> addr_val (nw_ip ref_nw c)"
    using c(2) by (auto simp: refnw.addrs_iff example_prefix_def net_v4_simps simp del: ref_nw_simps)
  have "addr_val (nw_ip ref_nw c) \<noteq> 8" "addr_val (nw_ip ref_nw c) \<noteq> 9"
    using c(2) f addr_eqI [of "nw_ip ref_nw c" "AddrV4 8"] addr_eqI [of "nw_ip ref_nw c" "AddrV4 9"] by auto
  moreover have "addr_val (nw_ip ref_nw c) \<le> 10" using bspec [OF c(3) in10] by simp
  ultimately have "nw_ip ref_nw c = AddrV4 10" using f v by (intro addr_eqI) auto
  then show ?thesis using c(1) by (auto simp: example_prefix_def)
qed

text \<open>
  C19: the number of free addresses is exact. For a prefix of the allocator, \<open>num_free\<close> returns the number of its
  addresses that are neither reserved nor in use, up to and including the whole IPv6 space, whose size
  does not fit the integer type. This needs that no allocated network lies inside another one, and that
  the networks in use lie in the prefix.
\<close>

theorem num_free_counts_free:
  assumes "network_laws N" "find (\<lambda>p. ap_id p = i) (al_prefixes al) = Some p" "0 \<le> ap_num_reserved p"
    "no_nesting N p (al_used_ips al)"
    "\<forall>u \<in> set (used_in N p (al_used_ips al)). nw_addrs N u \<subseteq> nw_addrs N (ap_prefix p)"
  shows "num_free N al i = Inr (card (nw_addrs N (ap_prefix p) - taken N p (al_used_ips al)))"
  using network_laws.num_free_exact [OF assms(1-4)] assms(5) by blast

theorem num_free_counts_free_witness: "num_free ref_nw (example_allocator []) ''p'' = Inr 5"
proof -
  have T: "taken ref_nw example_prefix (al_used_ips (example_allocator [])) = {AddrV4 8, AddrV4 9, AddrV4 15}"
    by (simp add: taken_def used_in_def example_allocator_def example_reserved)
  have p: "find (\<lambda>p. ap_id p = ''p'') (al_prefixes (example_allocator [])) = Some example_prefix"
    "0 \<le> ap_num_reserved example_prefix" "no_nesting ref_nw example_prefix (al_used_ips (example_allocator []))"
    by (simp_all add: example_allocator_def example_prefix_def no_nesting_def flat_networks_def used_in_def)
  have "card (nw_addrs ref_nw (ap_prefix example_prefix)) = 8"
    by (simp add: refnw.card_addrs example_prefix_def net_v4_simps del: ref_nw_simps)
  moreover have "{AddrV4 8, AddrV4 9, AddrV4 15} \<subseteq> nw_addrs ref_nw (ap_prefix example_prefix)" by (simp add: example_facts(3))
  ultimately have "card (nw_addrs ref_nw (ap_prefix example_prefix) - {AddrV4 8, AddrV4 9, AddrV4 15}) = 5"
    by (subst card_Diff_subset) (simp_all add: card_insert_if)
  moreover have "num_free ref_nw (example_allocator []) ''p'' =
      Inr (card (nw_addrs ref_nw (ap_prefix example_prefix) - taken ref_nw example_prefix (al_used_ips (example_allocator []))))"
    by (rule num_free_counts_free [OF refnw.network_laws_axioms p]) (simp add: used_in_def example_allocator_def)
  ultimately show ?thesis unfolding T by simp
qed

lemma fold_keeps:
  assumes "\<And>x s. P s \<Longrightarrow> P (f x s)" "P s"
  shows "P (fold f xs s)"
  using assms(2) by (induction xs arbitrary: s) (simp_all add: assms(1))

context network_laws
begin

lemma collapse_drops:
  assumes "h \<in> set nets" "nw_addrs N h = {nw_network N n}" "nw_prefix N n < nw_prefix N h"
  shows "n \<notin> set (collapse_allocated_networks N nets)"
proof -
  define xs where "xs = sort_key (\<lambda>n. - int (nw_prefix N n)) nets"
  obtain ys zs where xs: "xs = ys @ h # zs" using assms(1) unfolding xs_def by (metis set_sort split_list)
  have "sorted (map (\<lambda>n. - int (nw_prefix N n)) xs)" by (simp add: xs_def)
  then have "n \<notin> set ys" using assms(3) by (auto simp: xs sorted_append)
  moreover have "set (fold (collapse_step N) ys []) \<subseteq> set ys"
  proof -
    have "set (fold (collapse_step N) ys s) \<subseteq> set ys \<union> set s" for s
      by (induction ys arbitrary: s) (force simp: collapse_step_def set_insort_insert split: if_splits)+
    then show ?thesis by fastforce
  qed
  moreover have "nw_network N h = nw_network N n" using network_in [of h] assms(2) by simp
  ultimately have "n \<notin> set (collapse_step N h (fold (collapse_step N) ys [])) \<and>
      (\<exists>e \<in> set (collapse_step N h (fold (collapse_step N) ys [])). nw_contains N e (nw_network N n))"
    using assms(2,3) by (auto simp: collapse_step_def set_insort_insert contains_addrs)
  then have "n \<notin> set (fold (collapse_step N) zs (collapse_step N h (fold (collapse_step N) ys []))) \<and>
      (\<exists>e \<in> set (fold (collapse_step N) zs (collapse_step N h (fold (collapse_step N) ys []))). nw_contains N e (nw_network N n))"
    by (rule fold_keeps [rotated]) (auto simp: collapse_step_def set_insort_insert)
  then show ?thesis unfolding collapse_fold xs_def [symmetric] xs by simp
qed

lemma exhausted_top:
  assumes "nw_prefix N n < 128" "nw_family N n = Ipv6" "addr_val (nw_broadcast N n) = 2 ^ 128 - 1"
    "nw_addrs N n \<subseteq> (\<Union>u \<in> set nets. nw_addrs N u)"
  shows "next_available_prefix N n 128 nets = None"
proof -
  have w: "nw_width N n = 128" using assms(2) by (simp add: nw_width_def)
  have full: "nw_base N n + 2 ^ nw_host_bits N n = 2 ^ 128"
  proof -
    have "nw_base N n + 2 ^ nw_host_bits N n = nw_base N n + 2 ^ nw_host_bits N n - 1 + 1" by simp
    also have "\<dots> = 2 ^ 128 - 1 + 1" using assms(3) unfolding broadcast_val by (rule arg_cong)
    finally show ?thesis by simp
  qed
  have start: "next_available_prefix N n 128 nets = scan_from N n 128 nets 0"
    using assms(1,2) w by (simp add: next_available_prefix_def get_network_details_def scan_from_def nw_base_def)
  have "is_allocated N nets c" if j: "j < 2 ^ nw_host_bits N n" "cand_at N n 128 j = Inr c" for j c
  proof -
    obtain c' where c': "build_candidate_subnet N n (nw_base N n + j) (nw_width N n) = Inr c'"
      "nw_addrs N c' = {addr_of (nw_family N n) (nw_base N n + j)}" using host_candidate [OF j(1)] by metis
    then have "c' = c" using j(2) w by (simp add: cand_at_def)
    moreover have "addr_of (nw_family N n) (nw_base N n + j) \<in> nw_addrs N n" using j(1) unfolding addrs_image by auto
    ultimately show ?thesis using assms(4) c'(2) unfolding is_allocated_iff by auto
  qed
  then show ?thesis using scan_ok [of n 128 0 nets] assms(1) w full start
    by (auto simp: nw_host_bits_def)
qed

end

text \<open>
  C37: a network whose first address is also allocated alone is lost. The list of allocated networks is documented to drop
  networks that are covered by larger ones; it drops the larger one instead, whenever an address on its own
  (the gateway, a reserved address, the network address) is the first address of it.
\<close>

theorem collapse_drops_larger_network:
  assumes "network_laws N" "h \<in> set nets" "nw_addrs N h = {nw_network N n}" "nw_prefix N n < nw_prefix N h"
  shows "n \<notin> set (collapse_allocated_networks N nets)"
  using network_laws.collapse_drops [OF assms] .

theorem collapse_drops_larger_network_witness:
  "net_v4 12 30 \<notin> set (collapse_allocated_networks ref_nw [net_v4 12 32, net_v4 12 30])"
proof (rule collapse_drops_larger_network [OF refnw.network_laws_axioms, of "net_v4 12 32"])
  have "nw_network ref_nw (net_v4 12 30) = AddrV4 12"
    using net_v4_simps(3,5) [of 30 12] by (intro addr_eqI) (simp_all add: nw_base_def nw_family_def)
  moreover have "b = 12" if "12 \<le> unat b" "unat b < 13" for b :: u32
    using injD [OF inj_unat, of b 12] that by simp
  then have "nw_addrs ref_nw (net_v4 12 32) = {AddrV4 12}" by (auto simp: net_v4_addrs)
  ultimately show "nw_addrs ref_nw (net_v4 12 32) = {nw_network ref_nw (net_v4 12 30)}" by simp
qed (simp_all add: net_v4_simps del: ref_nw_simps)

end
