(* ===== verification/Subnet_Search.thy ===== *)
theory Subnet_Search
  imports Allocator_Theorems
begin

text \<open>
  The search for a free subnet of any length (\<open>next_available_prefix\<close> of
  \<open>crates/api-db/src/ip_allocator.rs\<close>), for the prefix allocations of instances.
\<close>

text \<open>The \<open>j\<close>-th block of \<open>len\<close> bits in a network, and whether networks leave it free.\<close>

definition sub_block :: "'n network_ops \<Rightarrow> 'n \<Rightarrow> nat \<Rightarrow> nat \<Rightarrow> ip_addr set" where
  "sub_block N n len j = addr_of (nw_family N n) `
     {nw_base N n + j * 2 ^ (nw_width N n - len) ..< nw_base N n + Suc j * 2 ^ (nw_width N n - len)}"

definition block_free :: "'n network_ops \<Rightarrow> 'n \<Rightarrow> nat \<Rightarrow> 'n list \<Rightarrow> nat \<Rightarrow> bool" where
  "block_free N n len nets j \<longleftrightarrow> (\<forall>u \<in> set nets. nw_addrs N u \<inter> sub_block N n len j = {})"

context network_laws
begin

lemma cand_block:
  assumes "nw_prefix N n < len" "len \<le> nw_width N n" "j < 2 ^ (len - nw_prefix N n)"
  obtains c where "cand_at N n len j = Inr c" "nw_prefix N c = len" "nw_addrs N c = sub_block N n len j"
    "is_allocated N nets c \<longleftrightarrow> \<not> block_free N n len nets j"
proof -
  let ?s = "2 ^ (nw_width N n - len) :: nat" and ?K = "2 ^ (len - nw_prefix N n) :: nat"
  have K: "?K * ?s = 2 ^ nw_host_bits N n" using assms(1,2) by (simp add: nw_host_bits_def flip: power_add)
  have "Suc j * ?s \<le> ?K * ?s" using assms(3) by (intro mult_le_mono1) simp
  then have "j * ?s + ?s \<le> 2 ^ nw_host_bits N n" unfolding K by simp
  moreover have "0 < ?s" by simp
  ultimately have small: "nw_base N n + j * ?s < 2 ^ nw_width N n" using block_end [of n] by linarith
  have "?s dvd nw_base N n" using base_dvd [of n] assms(1,2) by (auto simp: nw_host_bits_def intro: power_le_dvd)
  then have "?s dvd nw_base N n + j * ?s" by simp
  then obtain c where c: "cand_at N n len j = Inr c" "nw_prefix N c = len" "nw_family N c = nw_family N n"
    "nw_base N c = nw_base N n + j * ?s"
    using candidate_ok [OF assms(2) small] unfolding cand_at_def by metis
  have "nw_host_bits N c = nw_width N n - len" using c by (simp add: nw_host_bits_def nw_width_def)
  then have a: "nw_addrs N c = sub_block N n len j"
    unfolding addrs_image sub_block_def c(3,4) by (simp add: ac_simps)
  then have "is_allocated N nets c \<longleftrightarrow> \<not> block_free N n len nets j" unfolding is_allocated_iff block_free_def by auto
  with c a show ?thesis using that by blast
qed

lemma search_start:
  assumes "nw_prefix N n < len" "len \<le> nw_width N n" "1 < len"
  shows "next_available_prefix N n len nets = scan_from N n len nets 0"
  using assms width_cases [of N n]
  by (auto simp: next_available_prefix_def get_network_details_def scan_from_def nw_base_def Let_def)

end



end
