(* ===== verification/Object_Metrics.thy ===== *)
theory Object_Metrics
  imports Host_Health "HOL-Library.AList"
begin

text \<open>
  The per-object series that the controllers publish (\<open>crates/health-metrics/src/per_object.rs\<close>), the
  recorder through which a state processor writes them
  (\<open>crates/state-controller/src/per_object.rs\<close>) and the counts of one iteration
  (\<open>crates/state-controller/src/metrics.rs\<close>, \<open>crates/health-metrics/src/lib.rs\<close>).

  A \<open>HashMap\<close> is an association list with distinct keys, in the order in which the map happens
  to iterate. Every operation of the store takes its lock or one entry's lock, so it is one step;
  \<open>now\<close> is the instant it reads. Gauges are shared by reference: the registry owns them and a
  handle is a position in its list. Gauge values are floating point numbers that are only stored
  and exported; their type is a variable and the conversions into it are the record \<open>f64_conv\<close>.
\<close>

section \<open>The store\<close>

type_synonym object_key = "string \<times> string"

record 's store_entry =
  se_payload :: 's
  se_refreshed :: int

definition entry_new :: "int \<Rightarrow> 's \<Rightarrow> 's store_entry" where
  "entry_new now payload = \<lparr>se_payload = payload, se_refreshed = now\<rparr>"

definition entry_record :: "int \<Rightarrow> 's \<Rightarrow> 's store_entry \<Rightarrow> 's store_entry" where
  "entry_record now payload e =
     (let e = (if se_payload e \<noteq> payload then e\<lparr>se_payload := payload\<rparr> else e)
      in e\<lparr>se_refreshed := now\<rparr>)"

definition entry_touch :: "int \<Rightarrow> 's store_entry \<Rightarrow> 's store_entry" where
  "entry_touch now e = e\<lparr>se_refreshed := now\<rparr>"

definition payload_if_fresh :: "int \<Rightarrow> int \<Rightarrow> 's store_entry \<Rightarrow> 's option" where
  "payload_if_fresh now hold_period e =
     (if max 0 (now - se_refreshed e) \<le> hold_period then Some (se_payload e) else None)"

record 's per_object_store =
  st_hold_period :: int
  st_entries :: "(object_key \<times> 's store_entry) list"

definition store_new :: "int \<Rightarrow> 's per_object_store" where
  "store_new hold_period = \<lparr>st_hold_period = hold_period, st_entries = []\<rparr>"

definition store_record :: "int \<Rightarrow> object_key \<Rightarrow> 's \<Rightarrow> 's per_object_store \<Rightarrow> 's per_object_store" where
  "store_record now key payload s =
     (case map_of (st_entries s) key of
        Some e \<Rightarrow> s\<lparr>st_entries := AList.update key (entry_record now payload e) (st_entries s)\<rparr>
      | None \<Rightarrow> s\<lparr>st_entries := AList.update key (entry_new now payload) (st_entries s)\<rparr>)"

definition store_remove :: "object_key \<Rightarrow> 's per_object_store \<Rightarrow> 's per_object_store" where
  "store_remove key s =
     (if map_of (st_entries s) key = None then s
      else s\<lparr>st_entries := AList.delete key (st_entries s)\<rparr>)"

definition store_touch :: "int \<Rightarrow> object_key \<Rightarrow> 's per_object_store \<Rightarrow> 's per_object_store" where
  "store_touch now key s =
     (case map_of (st_entries s) key of
        Some e \<Rightarrow> s\<lparr>st_entries := AList.update key (entry_touch now e) (st_entries s)\<rparr>
      | None \<Rightarrow> s)"

definition store_touch_if ::
    "int \<Rightarrow> object_key \<Rightarrow> ('s \<Rightarrow> bool) \<Rightarrow> 's per_object_store \<Rightarrow> 's per_object_store" where
  "store_touch_if now key still_current s =
     (case map_of (st_entries s) key of
        None \<Rightarrow> s
      | Some e \<Rightarrow>
          if still_current (se_payload e)
          then s\<lparr>st_entries := AList.update key (entry_touch now e) (st_entries s)\<rparr>
          else s\<lparr>st_entries := AList.delete key (st_entries s)\<rparr>)"

text \<open>
  \<open>snapshot_live\<close>: the pass under the read lock, then the removal of the keys it found stale,
  each checked again under the write lock. Other writers may run between the two.
\<close>

definition scan_live :: "int \<Rightarrow> 's per_object_store \<Rightarrow> 's list \<times> object_key list" where
  "scan_live now s =
     (List.map_filter (\<lambda>(key, e). payload_if_fresh now (st_hold_period s) e) (st_entries s),
      map fst (filter (\<lambda>(key, e). payload_if_fresh now (st_hold_period s) e = None) (st_entries s)))"

definition evict_key :: "int \<Rightarrow> object_key \<Rightarrow> 's per_object_store \<Rightarrow> 's per_object_store" where
  "evict_key now key s =
     (case map_of (st_entries s) key of
        Some e \<Rightarrow> if payload_if_fresh now (st_hold_period s) e = None
                  then s\<lparr>st_entries := AList.delete key (st_entries s)\<rparr> else s
      | None \<Rightarrow> s)"

definition evict_stale :: "int \<Rightarrow> object_key list \<Rightarrow> 's per_object_store \<Rightarrow> 's per_object_store" where
  "evict_stale now stale s = (if stale = [] then s else fold (evict_key now) stale s)"

definition snapshot_live :: "int \<Rightarrow> 's per_object_store \<Rightarrow> 's list \<times> 's per_object_store" where
  "snapshot_live now s =
     (let (snapshot, stale) = scan_live now s in (snapshot, evict_stale now stale s))"

section \<open>Gauges\<close>

record 'v gauge =
  g_label_names :: "string list"
  g_store :: "('v \<times> string list) list per_object_store"

definition gauge_new :: "string list \<Rightarrow> int \<Rightarrow> 'v gauge" where
  "gauge_new label_names hold_period = \<lparr>g_label_names = label_names, g_store = store_new hold_period\<rparr>"

text \<open>\<open>None\<close> is the failed assertion on the number of label values.\<close>

definition gauge_set_all ::
    "int \<Rightarrow> string \<Rightarrow> string \<Rightarrow> ('v \<times> string list) list \<Rightarrow> 'v gauge \<Rightarrow> 'v gauge option" where
  "gauge_set_all now object_type object_id series g =
     (if \<exists>(v, label_values) \<in> set series. length label_values \<noteq> length (g_label_names g) then None
      else Some (if series = [] then g\<lparr>g_store := store_remove (object_type, object_id) (g_store g)\<rparr>
                 else g\<lparr>g_store := store_record now (object_type, object_id) series (g_store g)\<rparr>))"

definition gauge_set ::
    "int \<Rightarrow> string \<Rightarrow> string \<Rightarrow> 'v \<Rightarrow> string list \<Rightarrow> 'v gauge \<Rightarrow> 'v gauge option" where
  "gauge_set now object_type object_id v label_values g =
     gauge_set_all now object_type object_id [(v, label_values)] g"

definition gauge_clear :: "string \<Rightarrow> string \<Rightarrow> 'v gauge \<Rightarrow> 'v gauge" where
  "gauge_clear object_type object_id g = g\<lparr>g_store := store_remove (object_type, object_id) (g_store g)\<rparr>"

definition gauge_touch_if_values ::
    "int \<Rightarrow> string \<Rightarrow> string \<Rightarrow> string list \<Rightarrow> 'v gauge \<Rightarrow> 'v gauge" where
  "gauge_touch_if_values now object_type object_id lead g =
     g\<lparr>g_store := store_touch_if now (object_type, object_id)
        (\<lambda>series. \<forall>(v, label_values) \<in> set series. prefix lead label_values) (g_store g)\<rparr>"

definition prometheus_metric :: "'v \<Rightarrow> string list \<Rightarrow> string list \<Rightarrow> 'v \<times> (string \<times> string) list" where
  "prometheus_metric v label_names label_values = (v, sort_key fst (zip label_names label_values))"

definition collect :: "int \<Rightarrow> 'v gauge \<Rightarrow> ('v \<times> (string \<times> string) list) list \<times> 'v gauge" where
  "collect now g =
     (let (snapshot, store) = snapshot_live now (g_store g)
      in (map (\<lambda>(v, label_values). prometheus_metric v (g_label_names g) label_values) (concat snapshot),
          g\<lparr>g_store := store\<rparr>))"

section \<open>The registry\<close>

record 'v registry =
  r_emit_for_classifications :: "health_alert_classification list"
  r_classification :: "('v \<times> (string \<times> string) list) list per_object_store"
  r_gauges :: "'v gauge list"

record 'v f64_conv =
  f64_of_i64 :: "int \<Rightarrow> 'v"
  f64_of_duration :: "nat \<Rightarrow> 'v"
  f64_one :: 'v

definition registry_new :: "health_alert_classification list \<Rightarrow> int \<Rightarrow> 'v registry" where
  "registry_new emit_for_classifications hold_period =
     \<lparr>r_emit_for_classifications = emit_for_classifications,
      r_classification = store_new hold_period, r_gauges = []\<rparr>"

text \<open>\<open>registers\<close> says whether the Prometheus registry accepts a collector under this name.\<close>

definition registry_gauge ::
    "(string \<Rightarrow> bool) \<Rightarrow> string \<Rightarrow> string list \<Rightarrow> int \<Rightarrow> 'v registry \<Rightarrow> (unit + nat) \<times> 'v registry" where
  "registry_gauge registers name label_names hold_period r =
     (if registers name
      then (Inr (length (r_gauges r)), r\<lparr>r_gauges := r_gauges r @ [gauge_new label_names hold_period]\<rparr>)
      else (Inl (), r))"

definition clear_object :: "string \<Rightarrow> string \<Rightarrow> 'v registry \<Rightarrow> 'v registry" where
  "clear_object object_type object_id r =
     r\<lparr>r_classification := store_remove (object_type, object_id) (r_classification r),
       r_gauges := map (\<lambda>g. g\<lparr>g_store := store_remove (object_type, object_id) (g_store g)\<rparr>) (r_gauges r)\<rparr>"

definition touch_object :: "int \<Rightarrow> string \<Rightarrow> string \<Rightarrow> 'v registry \<Rightarrow> 'v registry" where
  "touch_object now object_type object_id r =
     r\<lparr>r_gauges := map (\<lambda>g. g\<lparr>g_store := store_touch now (object_type, object_id) (g_store g)\<rparr>) (r_gauges r)\<rparr>"

definition registry_record ::
    "'v f64_conv \<Rightarrow> int \<Rightarrow> string \<Rightarrow> string \<Rightarrow> health_alert_classification list \<Rightarrow> (string \<times> string) list
     \<Rightarrow> 'v registry \<Rightarrow> 'v registry" where
  "registry_record F now object_type object_id cs extra_labels r =
     (if r_emit_for_classifications r = [] then r
      else
        (let cs = sort (filter (\<lambda>c. c \<in> set (r_emit_for_classifications r)) cs);
             key = (object_type, object_id)
         in if cs = [] then r\<lparr>r_classification := store_remove key (r_classification r)\<rparr>
            else
              (let series = map (\<lambda>c. (f64_one F, [(''object_type'', object_type), (''object_id'', object_id),
                       (''classification'', c)] @ extra_labels)) cs
               in r\<lparr>r_classification := store_record now key series (r_classification r)\<rparr>)))"

section \<open>The recorder of a state processor\<close>

datatype manual_intervention = Required string | NotRequired | Unknown

record state_gauges =
  sg_entered :: nat
  sg_sla :: nat
  sg_manual_intervention :: nat

definition STATE_LABELS :: "string list" where
  "STATE_LABELS = [''object_type'', ''object_id'', ''state'', ''substate'']"

definition state_gauges_new ::
    "(string \<Rightarrow> bool) \<Rightarrow> int \<Rightarrow> 'v registry \<Rightarrow> (unit + state_gauges) \<times> 'v registry" where
  "state_gauges_new registers hold_period r =
     (case registry_gauge registers ''carbide_object_state_entered_timestamp_seconds'' STATE_LABELS hold_period r of
        (Inl e, r) \<Rightarrow> (Inl e, r)
      | (Inr entered, r) \<Rightarrow>
     (case registry_gauge registers ''carbide_object_state_sla_seconds'' STATE_LABELS hold_period r of
        (Inl e, r) \<Rightarrow> (Inl e, r)
      | (Inr sla, r) \<Rightarrow>
     (case registry_gauge registers ''carbide_object_manual_intervention_required''
             (STATE_LABELS @ [''reason'']) hold_period r of
        (Inl e, r) \<Rightarrow> (Inl e, r)
      | (Inr mi, r) \<Rightarrow> (Inr \<lparr>sg_entered = entered, sg_sla = sla, sg_manual_intervention = mi\<rparr>, r))))"

text \<open>An operation on the shared gauge behind a handle.\<close>

definition on_gauge :: "nat \<Rightarrow> ('v gauge \<Rightarrow> 'v gauge option) \<Rightarrow> 'v registry \<Rightarrow> 'v registry option" where
  "on_gauge i f r = map_option (\<lambda>g. r\<lparr>r_gauges := (r_gauges r)[i := g]\<rparr>) (f (r_gauges r ! i))"

record state_recorder =
  sr_object_type :: string
  sr_gauges :: state_gauges

definition record_entered ::
    "'v f64_conv \<Rightarrow> state_recorder \<Rightarrow> int \<Rightarrow> string \<Rightarrow> string list \<Rightarrow> int \<Rightarrow> 'v registry \<Rightarrow> 'v registry option" where
  "record_entered F s now object_id label_values entered =
     on_gauge (sg_entered (sr_gauges s))
       (gauge_set now (sr_object_type s) object_id (f64_of_i64 F entered) label_values)"

definition record_sla ::
    "'v f64_conv \<Rightarrow> state_recorder \<Rightarrow> int \<Rightarrow> string \<Rightarrow> string list \<Rightarrow> nat option \<Rightarrow> 'v registry \<Rightarrow> 'v registry option" where
  "record_sla F s now object_id label_values sla =
     on_gauge (sg_sla (sr_gauges s)) (case sla of
        Some d \<Rightarrow> gauge_set now (sr_object_type s) object_id (f64_of_duration F d) label_values
      | None \<Rightarrow> (\<lambda>g. Some (gauge_clear (sr_object_type s) object_id g)))"

definition record_manual_intervention ::
    "'v f64_conv \<Rightarrow> state_recorder \<Rightarrow> int \<Rightarrow> string \<Rightarrow> string list \<Rightarrow> manual_intervention
     \<Rightarrow> 'v registry \<Rightarrow> 'v registry option" where
  "record_manual_intervention F s now object_id label_values mi =
     on_gauge (sg_manual_intervention (sr_gauges s)) (case mi of
        Required reason \<Rightarrow> gauge_set now (sr_object_type s) object_id (f64_one F) (label_values @ [reason])
      | NotRequired \<Rightarrow> (\<lambda>g. Some (gauge_clear (sr_object_type s) object_id g))
      | Unknown \<Rightarrow> (\<lambda>g. Some (gauge_touch_if_values now (sr_object_type s) object_id label_values g)))"

definition recorder_record ::
    "'v f64_conv \<Rightarrow> state_recorder \<Rightarrow> int \<Rightarrow> string \<Rightarrow> string \<Rightarrow> string \<Rightarrow> int \<Rightarrow> nat option \<Rightarrow> manual_intervention
     \<Rightarrow> 'v registry \<Rightarrow> 'v registry option" where
  "recorder_record F s now object_id state substate entered sla mi r =
     (let label_values = [sr_object_type s, object_id, state, substate]
      in Option.bind (record_entered F s now object_id label_values entered r) (\<lambda>r.
         Option.bind (record_sla F s now object_id label_values sla r) (\<lambda>r.
         record_manual_intervention F s now object_id label_values mi r)))"

definition recorder_touch :: "state_recorder \<Rightarrow> int \<Rightarrow> string \<Rightarrow> 'v registry \<Rightarrow> 'v registry" where
  "recorder_touch s now object_id = touch_object now (sr_object_type s) object_id"

definition recorder_clear :: "state_recorder \<Rightarrow> string \<Rightarrow> 'v registry \<Rightarrow> 'v registry" where
  "recorder_clear s object_id = clear_object (sr_object_type s) object_id"

section \<open>Health counts of one iteration\<close>

text \<open>
  A \<open>HashSet\<close> is a list without repetitions; a counter is a natural number. The dimension by which
  a controller groups its counts is a type variable.
\<close>

record health_object_metrics =
  om_object_id :: string
  om_health_probe_alerts :: "(health_probe_id \<times> string option) list"
  om_health_alert_classifications :: "health_alert_classification list"
  om_alerts_suppressed :: bool
  om_num_merge_overrides :: nat
  om_replace_override_enabled :: bool

definition populate_alert :: "'t health_probe_alert \<Rightarrow> health_object_metrics \<Rightarrow> health_object_metrics" where
  "populate_alert alert m =
     m\<lparr>om_health_probe_alerts := List.insert (al_id alert, al_target alert) (om_health_probe_alerts m),
       om_health_alert_classifications :=
         fold List.insert (al_classifications alert) (om_health_alert_classifications m),
       om_alerts_suppressed := om_alerts_suppressed m \<or>
         (\<exists>c \<in> set (al_classifications alert). c = suppress_external_alerting)\<rparr>"

definition populate ::
    "string \<Rightarrow> 't health_report \<Rightarrow> health_report_sources \<Rightarrow> health_object_metrics \<Rightarrow> health_object_metrics" where
  "populate object_id aggregate_health sources m =
     (let m = fold populate_alert (hr_alerts aggregate_health) (m\<lparr>om_object_id := object_id\<rparr>)
      in m\<lparr>om_num_merge_overrides := length (hs_merges sources),
           om_replace_override_enabled := hs_replace sources \<noteq> None\<rparr>)"

record 'd health_iteration_metrics =
  hi_healthy :: "((bool \<times> 'd) \<times> nat) list"
  hi_unhealthy_by_probe_id :: "((string \<times> string option \<times> 'd) \<times> nat) list"
  hi_unhealthy_by_classification_id :: "((string \<times> 'd) \<times> nat) list"
  hi_alerts_suppressed_by_object_id :: "string list"
  hi_num_overrides :: "((string \<times> 'd) \<times> nat) list"

text \<open>\<open>*entry(k).or_default() += n\<close>.\<close>

definition bump :: "'k \<Rightarrow> nat \<Rightarrow> ('k \<times> nat) list \<Rightarrow> ('k \<times> nat) list" where
  "bump k n m = AList.map_default k n (\<lambda>c. c + n) m"

definition health_merge ::
    "'d \<Rightarrow> health_object_metrics \<Rightarrow> 'd health_iteration_metrics \<Rightarrow> 'd health_iteration_metrics" where
  "health_merge dimension object m =
     (let is_healthy = (om_health_probe_alerts object = []);
          overrides = bump (''merge'', dimension) (om_num_merge_overrides object) (hi_num_overrides m)
      in m\<lparr>hi_healthy := bump (is_healthy, dimension) 1 (hi_healthy m),
           hi_unhealthy_by_probe_id :=
             fold (\<lambda>(probe_id, target). bump (probe_id, target, dimension) 1)
               (om_health_probe_alerts object) (hi_unhealthy_by_probe_id m),
           hi_unhealthy_by_classification_id :=
             fold (\<lambda>c. bump (c, dimension) 1) (om_health_alert_classifications object)
               (hi_unhealthy_by_classification_id m),
           hi_alerts_suppressed_by_object_id :=
             (if om_alerts_suppressed object
              then List.insert (om_object_id object) (hi_alerts_suppressed_by_object_id m)
              else hi_alerts_suppressed_by_object_id m),
           hi_num_overrides :=
             (if om_replace_override_enabled object then bump (''replace'', dimension) 1 overrides
              else overrides)\<rparr>)"

section \<open>Facts about the store\<close>

abbreviation lookup :: "'s per_object_store \<Rightarrow> object_key \<Rightarrow> 's store_entry option" where
  "lookup s \<equiv> map_of (st_entries s)"

definition store_wf :: "'s per_object_store \<Rightarrow> bool" where
  "store_wf s \<longleftrightarrow> distinct (map fst (st_entries s))"

lemma entry_record_simp [simp]: "entry_record now p e = \<lparr>se_payload = p, se_refreshed = now\<rparr>"
  by (cases e) (simp add: entry_record_def Let_def)

lemma lookup_new [simp]: "lookup (store_new h) k = None"
  by (simp add: store_new_def)

lemma lookup_record [simp]:
  "lookup (store_record now k p s) = (lookup s)(k \<mapsto> \<lparr>se_payload = p, se_refreshed = now\<rparr>)"
  by (simp add: store_record_def entry_new_def update_conv' split: option.split)

lemma lookup_remove [simp]: "lookup (store_remove k s) = (lookup s)(k := None)"
  by (auto simp: store_remove_def delete_conv' fun_eq_iff)

lemma lookup_touch [simp]:
  "lookup (store_touch now k s) = (lookup s)(k := map_option (entry_touch now) (lookup s k))"
  by (auto simp: store_touch_def update_conv' fun_eq_iff split: option.split)

lemma lookup_touch_if [simp]:
  "lookup (store_touch_if now k P s) = (lookup s)(k := (case lookup s k of None \<Rightarrow> None
     | Some e \<Rightarrow> if P (se_payload e) then Some (entry_touch now e) else None))"
  by (auto simp: store_touch_if_def update_conv' delete_conv' fun_eq_iff split: option.split)

lemma hold_period_simps [simp]:
  "st_hold_period (store_new h) = h"
  "st_hold_period (store_record now k p s) = st_hold_period s"
  "st_hold_period (store_remove k s) = st_hold_period s"
  "st_hold_period (store_touch now k s) = st_hold_period s"
  "st_hold_period (store_touch_if now k P s) = st_hold_period s"
  "st_hold_period (evict_key now k s) = st_hold_period s"
  by (simp_all add: store_new_def store_record_def store_remove_def store_touch_def store_touch_if_def
      evict_key_def split: option.split)

lemma store_wf_simps [simp]:
  "store_wf (store_new h)"
  "store_wf s \<Longrightarrow> store_wf (store_record now k p s)"
  "store_wf s \<Longrightarrow> store_wf (store_remove k s)"
  "store_wf s \<Longrightarrow> store_wf (store_touch now k s)"
  "store_wf s \<Longrightarrow> store_wf (store_touch_if now k P s)"
  "store_wf s \<Longrightarrow> store_wf (evict_key now k s)"
  by (simp_all add: store_wf_def store_new_def store_record_def store_remove_def store_touch_def
      store_touch_if_def evict_key_def distinct_update distinct_delete split: option.split)

definition stale_at :: "int \<Rightarrow> 's per_object_store \<Rightarrow> 's store_entry \<Rightarrow> bool" where
  "stale_at now s e \<longleftrightarrow> payload_if_fresh now (st_hold_period s) e = None"

lemma stale_at_iff: "stale_at now s e \<longleftrightarrow> \<not> (now - se_refreshed e \<le> st_hold_period s \<and> 0 \<le> st_hold_period s)"
  by (auto simp: stale_at_def payload_if_fresh_def)

lemma entries_lookup: "store_wf s \<Longrightarrow> (k, e) \<in> set (st_entries s) \<longleftrightarrow> lookup s k = Some e"
  by (simp add: store_wf_def)

lemma set_map_filter: "set (List.map_filter f xs) = {y. \<exists>x \<in> set xs. f x = Some y}"
  by (induction xs) (auto simp: map_filter_simps split: option.split)

lemma lookup_evict_key:
  "lookup (evict_key now k s) = (lookup s)(k := (case lookup s k of None \<Rightarrow> None
     | Some e \<Rightarrow> if stale_at now s e then None else Some e))"
  by (auto simp: evict_key_def delete_conv' fun_eq_iff stale_at_def split: option.split)

lemma lookup_evict_fold:
  "lookup (fold (evict_key now) ks s) k = (case lookup s k of None \<Rightarrow> None
     | Some e \<Rightarrow> if k \<in> set ks \<and> stale_at now s e then None else Some e)
   \<and> st_hold_period (fold (evict_key now) ks s) = st_hold_period s
   \<and> (store_wf s \<longrightarrow> store_wf (fold (evict_key now) ks s))"
proof (induction ks arbitrary: s)
  case (Cons x ks)
  show ?case
    using Cons.IH [of "evict_key now x s"]
    by (auto simp: lookup_evict_key stale_at_def split: option.splits)
qed (simp split: option.split)

lemma lookup_evict_stale:
  "lookup (evict_stale now ks s) k = (case lookup s k of None \<Rightarrow> None
     | Some e \<Rightarrow> if k \<in> set ks \<and> stale_at now s e then None else Some e)"
  using lookup_evict_fold [of now ks s k] by (auto simp: evict_stale_def split: option.split)

lemma evict_stale_simps [simp]:
  "st_hold_period (evict_stale now ks s) = st_hold_period s"
  "store_wf s \<Longrightarrow> store_wf (evict_stale now ks s)"
  using lookup_evict_fold [of now ks s] by (simp_all add: evict_stale_def)

lemma scan_stale:
  assumes "store_wf s" "lookup s k = Some e"
  shows "k \<in> set (snd (scan_live now s)) \<longleftrightarrow> stale_at now s e"
proof -
  have m: "(k, e') \<in> set (st_entries s) \<longleftrightarrow> e' = e" for e'
    using entries_lookup [OF assms(1), of k e'] assms(2) by auto
  have "k \<in> fst ` {x \<in> set (st_entries s). stale_at now s (snd x)} \<longleftrightarrow> stale_at now s e"
  proof
    assume "k \<in> fst ` {x \<in> set (st_entries s). stale_at now s (snd x)}"
    then obtain x where "x \<in> set (st_entries s)" "stale_at now s (snd x)" "k = fst x" by blast
    then show "stale_at now s e" using m [of "snd x"] by simp
  next
    assume "stale_at now s e"
    then show "k \<in> fst ` {x \<in> set (st_entries s). stale_at now s (snd x)}"
      using m [of e] by (intro image_eqI [of _ _ "(k, e)"]) simp_all
  qed
  then show ?thesis by (simp add: scan_live_def stale_at_def split_beta)
qed

lemma snapshot_store:
  assumes "store_wf s"
  shows "lookup (snd (snapshot_live now s)) k =
    (case lookup s k of None \<Rightarrow> None | Some e \<Rightarrow> if stale_at now s e then None else Some e)"
  using scan_stale [OF assms, of k]
  by (auto simp: snapshot_live_def lookup_evict_stale split_beta split: option.split)

section \<open>The series of an object agree\<close>

text \<open>
  \<open>Registry::gather\<close> of Prometheus asks every collector in turn. The steps that reach a registry:
  the recorder's three operations, a scrape, the classification metric, a writer of some other
  gauge, and time passing.
\<close>

definition gather :: "int \<Rightarrow> 'v registry \<Rightarrow> ('v \<times> (string \<times> string) list) list list \<times> 'v registry" where
  "gather now r = (map (\<lambda>g. fst (collect now g)) (r_gauges r),
     r\<lparr>r_gauges := map (\<lambda>g. snd (collect now g)) (r_gauges r)\<rparr>)"

inductive series_step :: "'v f64_conv \<Rightarrow> state_recorder \<Rightarrow> int \<times> 'v registry \<Rightarrow> int \<times> 'v registry \<Rightarrow> bool"
  for F s where
  step_tick: "now \<le> now' \<Longrightarrow> series_step F s (now, r) (now', r)"
| step_record: "recorder_record F s now object_id state substate entered sla mi r = Some r' \<Longrightarrow>
    series_step F s (now, r) (now, r')"
| step_touch: "series_step F s (now, r) (now, recorder_touch s now object_id r)"
| step_clear: "series_step F s (now, r) (now, recorder_clear s object_id r)"
| step_scrape: "series_step F s (now, r) (now, snd (gather now r))"
| step_classify: "series_step F s (now, r) (now, registry_record F now ty object_id cs labels r)"
| step_other: "i \<noteq> sg_entered (sr_gauges s) \<Longrightarrow> i \<noteq> sg_sla (sr_gauges s) \<Longrightarrow> i \<noteq> sg_manual_intervention (sr_gauges s) \<Longrightarrow>
    series_step F s (now, r) (now, r\<lparr>r_gauges := (r_gauges r)[i := g]\<rparr>)"

abbreviation gauge_at :: "'v registry \<Rightarrow> nat \<Rightarrow> 'v gauge" where
  "gauge_at r i \<equiv> r_gauges r ! i"

definition recorder_wf :: "int \<Rightarrow> state_recorder \<Rightarrow> 'v registry \<Rightarrow> bool" where
  "recorder_wf hold s r \<longleftrightarrow>
     (let e = sg_entered (sr_gauges s); q = sg_sla (sr_gauges s); m = sg_manual_intervention (sr_gauges s)
      in e < length (r_gauges r) \<and> q < length (r_gauges r) \<and> m < length (r_gauges r) \<and> e \<noteq> q \<and> e \<noteq> m \<and> q \<noteq> m \<and>
         length (g_label_names (gauge_at r e)) = 4 \<and> length (g_label_names (gauge_at r q)) = 4 \<and>
         length (g_label_names (gauge_at r m)) = 5 \<and>
         st_hold_period (g_store (gauge_at r e)) = hold \<and> st_hold_period (g_store (gauge_at r m)) = hold \<and>
         store_wf (g_store (gauge_at r e)) \<and> store_wf (g_store (gauge_at r m)))"

definition covers :: "('v \<times> string list) list store_entry option \<Rightarrow> ('v \<times> string list) list store_entry option \<Rightarrow> bool" where
  "covers ee em \<longleftrightarrow> (\<forall>y. em = Some y \<longrightarrow> (\<exists>x v ls. ee = Some x \<and> se_payload x = [(v, ls)] \<and> length ls = 4 \<and>
     se_refreshed y \<le> se_refreshed x \<and> (\<forall>(v', ls') \<in> set (se_payload y). prefix ls ls')))"

definition series_agree :: "state_recorder \<Rightarrow> 'v registry \<Rightarrow> bool" where
  "series_agree s r \<longleftrightarrow> (\<forall>object_id.
     covers (lookup (g_store (gauge_at r (sg_entered (sr_gauges s)))) (sr_object_type s, object_id))
            (lookup (g_store (gauge_at r (sg_manual_intervention (sr_gauges s)))) (sr_object_type s, object_id)))"

lemma gauge_set_iff: "gauge_set now ty i v ls g = Some g' \<longleftrightarrow>
    length ls = length (g_label_names g) \<and> g' = g\<lparr>g_store := store_record now (ty, i) [(v, ls)] (g_store g)\<rparr>"
  by (auto simp: gauge_set_def gauge_set_all_def)

lemma covers_None [simp]: "covers e None"
  by (simp add: covers_def)

lemma covers_set [simp]:
  "covers (Some \<lparr>se_payload = [(v, ls)], se_refreshed = now\<rparr>) (Some \<lparr>se_payload = [(v', ls')], se_refreshed = now\<rparr>)
   \<longleftrightarrow> length ls = 4 \<and> prefix ls ls'"
  by (auto simp: covers_def)

lemma covers_touch [simp]:
  "covers e m \<Longrightarrow> covers (map_option (entry_touch now) e) (map_option (entry_touch now) m)"
  by (force simp: covers_def entry_touch_def)

lemma covers_touch_at:
  "covers (e k) (m k) \<Longrightarrow> covers ((e(j := map_option (entry_touch now) (e j))) k) ((m(j := map_option (entry_touch now) (m j))) k)"
  by (cases "k = j") simp_all

lemma covers_touch_if:
  "length ls = 4 \<Longrightarrow> covers (Some \<lparr>se_payload = [(v, ls)], se_refreshed = now\<rparr>) (case em of None \<Rightarrow> None
     | Some e \<Rightarrow> if \<forall>(v, label_values) \<in> set (se_payload e). prefix ls label_values
         then Some (entry_touch now e) else None)"
  by (auto simp: covers_def entry_touch_def split: option.split)

lemma covers_evict:
  assumes "covers e m" "st_hold_period s = st_hold_period s'"
  shows "covers (case e of None \<Rightarrow> None | Some x \<Rightarrow> if stale_at now s x then None else Some x)
    (case m of None \<Rightarrow> None | Some y \<Rightarrow> if stale_at now s' y then None else Some y)"
proof (cases m)
  case (Some y)
  then obtain x where "e = Some x" "se_refreshed y \<le> se_refreshed x"
    using assms(1) by (auto simp: covers_def)
  with Some assms show ?thesis
    by (auto simp: covers_def stale_at_def payload_if_fresh_def split: if_splits)
qed simp

lemma on_gauge_iff: "on_gauge i f r = Some r' \<longleftrightarrow> (\<exists>g. f (gauge_at r i) = Some g \<and> r' = r\<lparr>r_gauges := (r_gauges r)[i := g]\<rparr>)"
  by (auto simp: on_gauge_def)

text \<open>What \<open>record\<close> leaves in the three gauges, and that it does not panic.\<close>

lemma recorder_record_eq:
  fixes F :: "'v f64_conv" and object_id state substate :: string
  assumes "recorder_wf hold s r"
  defines "e \<equiv> sg_entered (sr_gauges s)" and "q \<equiv> sg_sla (sr_gauges s)" and "m \<equiv> sg_manual_intervention (sr_gauges s)"
    and "k \<equiv> (sr_object_type s, object_id)" and "ls \<equiv> [sr_object_type s, object_id, state, substate]"
  obtains ge gq gm where
    "recorder_record F s now object_id state substate entered sla mi r =
       Some (r\<lparr>r_gauges := (r_gauges r)[e := ge, q := gq, m := gm]\<rparr>)"
    "ge = (gauge_at r e)\<lparr>g_store := store_record now k [(f64_of_i64 F entered, ls)] (g_store (gauge_at r e))\<rparr>"
    "gq = (case sla of None \<Rightarrow> (gauge_at r q)\<lparr>g_store := store_remove k (g_store (gauge_at r q))\<rparr>
       | Some d \<Rightarrow> (gauge_at r q)\<lparr>g_store := store_record now k [(f64_of_duration F d, ls)] (g_store (gauge_at r q))\<rparr>)"
    "gm = (gauge_at r m)\<lparr>g_store := (case mi of
         Required reason \<Rightarrow> store_record now k [(f64_one F, ls @ [reason])] (g_store (gauge_at r m))
       | NotRequired \<Rightarrow> store_remove k (g_store (gauge_at r m))
       | Unknown \<Rightarrow> store_touch_if now k (\<lambda>series. \<forall>(v, label_values) \<in> set series. prefix ls label_values)
           (g_store (gauge_at r m)))\<rparr>"
proof -
  define ge where "ge = (gauge_at r e)\<lparr>g_store := store_record now k [(f64_of_i64 F entered, ls)] (g_store (gauge_at r e))\<rparr>"
  define gq where "gq = (case sla of None \<Rightarrow> (gauge_at r q)\<lparr>g_store := store_remove k (g_store (gauge_at r q))\<rparr>
       | Some d \<Rightarrow> (gauge_at r q)\<lparr>g_store := store_record now k [(f64_of_duration F d, ls)] (g_store (gauge_at r q))\<rparr>)"
  define gm where "gm = (gauge_at r m)\<lparr>g_store := (case mi of
         Required reason \<Rightarrow> store_record now k [(f64_one F, ls @ [reason])] (g_store (gauge_at r m))
       | NotRequired \<Rightarrow> store_remove k (g_store (gauge_at r m))
       | Unknown \<Rightarrow> store_touch_if now k (\<lambda>series. \<forall>(v, label_values) \<in> set series. prefix ls label_values)
           (g_store (gauge_at r m)))\<rparr>"
  have wf: "e < length (r_gauges r)" "q < length (r_gauges r)" "m < length (r_gauges r)" "e \<noteq> q" "e \<noteq> m" "q \<noteq> m"
    "length (g_label_names (gauge_at r e)) = 4" "length (g_label_names (gauge_at r q)) = 4"
    "length (g_label_names (gauge_at r m)) = 5"
    using assms(1) by (simp_all add: recorder_wf_def Let_def e_def q_def m_def)
  have ls: "length ls = 4" by (simp add: ls_def)
  have 1: "record_entered F s now object_id ls entered r = Some (r\<lparr>r_gauges := (r_gauges r)[e := ge]\<rparr>)"
    using wf ls by (simp add: record_entered_def on_gauge_iff gauge_set_iff ge_def e_def k_def)
  have 2: "record_sla F s now object_id ls sla (r\<lparr>r_gauges := (r_gauges r)[e := ge]\<rparr>) =
      Some (r\<lparr>r_gauges := (r_gauges r)[e := ge, q := gq]\<rparr>)"
    using wf ls by (cases sla) (simp_all add: record_sla_def on_gauge_iff gauge_set_iff gauge_clear_def gq_def q_def k_def)
  have 3: "record_manual_intervention F s now object_id ls mi (r\<lparr>r_gauges := (r_gauges r)[e := ge, q := gq]\<rparr>) =
      Some (r\<lparr>r_gauges := (r_gauges r)[e := ge, q := gq, m := gm]\<rparr>)"
    using wf ls by (cases mi) (simp_all add: record_manual_intervention_def on_gauge_iff gauge_set_iff gauge_clear_def
        gauge_touch_if_values_def gm_def m_def k_def)
  have "recorder_record F s now object_id state substate entered sla mi r =
      Some (r\<lparr>r_gauges := (r_gauges r)[e := ge, q := gq, m := gm]\<rparr>)"
    unfolding recorder_record_def Let_def ls_def [symmetric] by (simp only: 1 2 3 bind.bind_lunit)
  then show thesis by (rule that [OF _ ge_def gq_def gm_def])
qed

lemma agree_record:
  assumes wf: "recorder_wf hold s r" and agree: "series_agree s r"
    and rec: "recorder_record F s now object_id state substate entered sla mi r = Some r'"
  shows "recorder_wf hold s r' \<and> series_agree s r'"
proof -
  let ?e = "sg_entered (sr_gauges s)" and ?q = "sg_sla (sr_gauges s)" and ?m = "sg_manual_intervention (sr_gauges s)"
  let ?k = "(sr_object_type s, object_id)" and ?ls = "[sr_object_type s, object_id, state, substate]"
  obtain ge gq gm where r': "r' = r\<lparr>r_gauges := (r_gauges r)[?e := ge, ?q := gq, ?m := gm]\<rparr>"
    and ge: "ge = (gauge_at r ?e)\<lparr>g_store := store_record now ?k [(f64_of_i64 F entered, ?ls)] (g_store (gauge_at r ?e))\<rparr>"
    and gq: "gq = (case sla of None \<Rightarrow> (gauge_at r ?q)\<lparr>g_store := store_remove ?k (g_store (gauge_at r ?q))\<rparr>
       | Some d \<Rightarrow> (gauge_at r ?q)\<lparr>g_store := store_record now ?k [(f64_of_duration F d, ?ls)] (g_store (gauge_at r ?q))\<rparr>)"
    and gm: "gm = (gauge_at r ?m)\<lparr>g_store := (case mi of
         Required reason \<Rightarrow> store_record now ?k [(f64_one F, ?ls @ [reason])] (g_store (gauge_at r ?m))
       | NotRequired \<Rightarrow> store_remove ?k (g_store (gauge_at r ?m))
       | Unknown \<Rightarrow> store_touch_if now ?k (\<lambda>series. \<forall>(v, label_values) \<in> set series. prefix ?ls label_values)
           (g_store (gauge_at r ?m)))\<rparr>"
    using recorder_record_eq [OF wf, of F now object_id state substate entered sla mi] rec by auto
  have b: "?e < length (r_gauges r)" "?q < length (r_gauges r)" "?m < length (r_gauges r)" "?e \<noteq> ?q" "?e \<noteq> ?m" "?q \<noteq> ?m"
    using wf by (simp_all add: recorder_wf_def Let_def)
  then have at: "gauge_at r' ?e = ge" "gauge_at r' ?q = gq" "gauge_at r' ?m = gm" by (simp_all add: r')
  have "recorder_wf hold s r'"
    using wf by (auto simp: recorder_wf_def Let_def at r' ge gq gm split: option.split manual_intervention.split)
  moreover have "series_agree s r'"
    unfolding series_agree_def at
  proof
    fix i
    have "covers (lookup (g_store (gauge_at r ?e)) (sr_object_type s, i)) (lookup (g_store (gauge_at r ?m)) (sr_object_type s, i))"
      using agree by (simp add: series_agree_def)
    then show "covers (lookup (g_store ge) (sr_object_type s, i)) (lookup (g_store gm) (sr_object_type s, i))"
      by (cases "i = object_id"; cases mi) (simp_all add: ge gm covers_touch_if)
  qed
  ultimately show ?thesis by simp
qed

lemma collect_store: "g_store (snd (collect now g)) = snd (snapshot_live now (g_store g))"
  "g_label_names (snd (collect now g)) = g_label_names g"
  by (simp_all add: collect_def split_beta Let_def)

lemma snapshot_simps [simp]:
  "st_hold_period (snd (snapshot_live now s)) = st_hold_period s"
  "store_wf s \<Longrightarrow> store_wf (snd (snapshot_live now s))"
  by (simp_all add: snapshot_live_def split_beta Let_def)

text \<open>A change of every gauge's store that keeps its settings and one entry's cover per object.\<close>

lemma agree_map:
  assumes "recorder_wf hold s r" "series_agree s r"
    and "\<And>g. g_label_names (f g) = g_label_names g"
    and "\<And>g. st_hold_period (g_store (f g)) = st_hold_period (g_store g)"
    and "\<And>g. store_wf (g_store g) \<Longrightarrow> store_wf (g_store (f g))"
    and "\<And>g h k. store_wf (g_store g) \<Longrightarrow> store_wf (g_store h) \<Longrightarrow>
      st_hold_period (g_store g) = st_hold_period (g_store h) \<Longrightarrow> covers (lookup (g_store g) k) (lookup (g_store h) k) \<Longrightarrow>
      covers (lookup (g_store (f g)) k) (lookup (g_store (f h)) k)"
  shows "recorder_wf hold s (r\<lparr>r_gauges := map f (r_gauges r)\<rparr>) \<and> series_agree s (r\<lparr>r_gauges := map f (r_gauges r)\<rparr>)"
proof
  show "recorder_wf hold s (r\<lparr>r_gauges := map f (r_gauges r)\<rparr>)"
    using assms(1) by (simp add: recorder_wf_def Let_def assms(3-5))
  have b: "sg_entered (sr_gauges s) < length (r_gauges r)" "sg_manual_intervention (sr_gauges s) < length (r_gauges r)"
    "store_wf (g_store (gauge_at r (sg_entered (sr_gauges s))))"
    "store_wf (g_store (gauge_at r (sg_manual_intervention (sr_gauges s))))"
    "st_hold_period (g_store (gauge_at r (sg_entered (sr_gauges s)))) =
     st_hold_period (g_store (gauge_at r (sg_manual_intervention (sr_gauges s))))"
    using assms(1) by (simp_all add: recorder_wf_def Let_def)
  show "series_agree s (r\<lparr>r_gauges := map f (r_gauges r)\<rparr>)"
    using assms(2) b by (simp add: series_agree_def) (intro allI assms(6), simp_all)
qed

lemma agree_cong:
  assumes "recorder_wf hold s r" "series_agree s r" "length (r_gauges r') = length (r_gauges r)"
    and "\<And>i. i \<in> {sg_entered (sr_gauges s), sg_sla (sr_gauges s), sg_manual_intervention (sr_gauges s)} \<Longrightarrow>
      gauge_at r' i = gauge_at r i"
  shows "recorder_wf hold s r' \<and> series_agree s r'"
  using assms(1,2) by (simp add: recorder_wf_def series_agree_def Let_def assms(3,4))

lemma series_step_agree:
  assumes "series_step F s a b" "recorder_wf hold s (snd a)" "series_agree s (snd a)"
  shows "recorder_wf hold s (snd b) \<and> series_agree s (snd b)"
  using assms
proof (cases rule: series_step.cases)
  case (step_record now object_id state substate entered sla mi r r')
  then show ?thesis using agree_record [of hold s r F now object_id state substate entered sla mi r'] assms(2,3) by simp
next
  case (step_touch now r object_id)
  have "recorder_wf hold s (recorder_touch s now object_id r) \<and> series_agree s (recorder_touch s now object_id r)"
    unfolding recorder_touch_def touch_object_def
    by (rule agree_map) (use assms(2,3) step_touch(1) in \<open>simp_all add: covers_touch_at del: fun_upd_apply\<close>)
  then show ?thesis using step_touch by simp
next
  case (step_clear now r object_id)
  have "recorder_wf hold s (r\<lparr>r_gauges := map (\<lambda>g. g\<lparr>g_store := store_remove (sr_object_type s, object_id) (g_store g)\<rparr>) (r_gauges r)\<rparr>) \<and>
      series_agree s (r\<lparr>r_gauges := map (\<lambda>g. g\<lparr>g_store := store_remove (sr_object_type s, object_id) (g_store g)\<rparr>) (r_gauges r)\<rparr>)"
    by (rule agree_map) (use assms(2,3) step_clear(1) in simp_all)
  then have "recorder_wf hold s (recorder_clear s object_id r) \<and> series_agree s (recorder_clear s object_id r)"
    by (elim conjE) (rule agree_cong, assumption, assumption, simp_all add: recorder_clear_def clear_object_def)
  then show ?thesis using step_clear by simp
next
  case (step_scrape now r)
  have "recorder_wf hold s (snd (gather now r)) \<and> series_agree s (snd (gather now r))"
    unfolding gather_def snd_conv
    by (rule agree_map) (use assms(2,3) step_scrape(1) in \<open>simp_all add: collect_store snapshot_store covers_evict\<close>)
  then show ?thesis using step_scrape by simp
next
  case (step_classify now r ty object_id cs labels)
  have "r_gauges (registry_record F now ty object_id cs labels r) = r_gauges r"
    by (simp add: registry_record_def Let_def)
  then show ?thesis using step_classify assms(2,3) by (auto simp: recorder_wf_def series_agree_def Let_def)
next
  case (step_other i now r g)
  have "recorder_wf hold s (r\<lparr>r_gauges := (r_gauges r)[i := g]\<rparr>) \<and> series_agree s (r\<lparr>r_gauges := (r_gauges r)[i := g]\<rparr>)"
    by (rule agree_cong [of hold s r]) (use assms(2,3) step_other in auto)
  then show ?thesis using step_other by simp
qed auto

lemma series_reach_agree:
  assumes "(series_step F s)\<^sup>*\<^sup>* a b" "recorder_wf hold s (snd a)" "series_agree s (snd a)"
  shows "recorder_wf hold s (snd b) \<and> series_agree s (snd b)"
  using assms(1)
proof (induction rule: rtranclp_induct)
  case (step y z)
  then show ?case using series_step_agree by blast
qed (use assms(2,3) in simp)

lemma state_gauges_new_wf:
  assumes "state_gauges_new registers hold r0 = (Inr G, r)"
  shows "recorder_wf hold \<lparr>sr_object_type = ty, sr_gauges = G\<rparr> r \<and> series_agree \<lparr>sr_object_type = ty, sr_gauges = G\<rparr> r"
  using assms
  by (auto simp: state_gauges_new_def registry_gauge_def recorder_wf_def series_agree_def Let_def nth_append
      gauge_new_def STATE_LABELS_def split: if_splits)


definition int_conv :: "int f64_conv" where
  "int_conv = \<lparr>f64_of_i64 = id, f64_of_duration = int, f64_one = 1\<rparr>"

definition three_gauges :: "int registry" where
  "three_gauges = \<lparr>r_emit_for_classifications = [], r_classification = store_new 10,
     r_gauges = [gauge_new STATE_LABELS 10, gauge_new STATE_LABELS 10, gauge_new (STATE_LABELS @ [''reason'']) 10]\<rparr>"

definition failed_machine :: "int registry" where
  "failed_machine = three_gauges\<lparr>r_gauges := [
     (gauge_new STATE_LABELS 10)\<lparr>g_store := store_record 5 (''machine'', ''m1'') [(3, [''machine'', ''m1'', ''Failed'', ''x''])] (store_new 10)\<rparr>,
     gauge_new STATE_LABELS 10,
     (gauge_new (STATE_LABELS @ [''reason'']) 10)\<lparr>g_store := store_record 5 (''machine'', ''m1'')
        [(1, [''machine'', ''m1'', ''Failed'', ''x'', ''boom''])] (store_new 10)\<rparr>]\<rparr>"

lemma failed_machine_reached:
  "series_step int_conv \<lparr>sr_object_type = ''machine'', sr_gauges = \<lparr>sg_entered = 0, sg_sla = 1, sg_manual_intervention = 2\<rparr>\<rparr>
     (5, three_gauges) (5, failed_machine)"
  by (rule step_record [of _ _ _ "''m1''" "''Failed''" "''x''" 3 None "Required ''boom''"])
    (simp add: recorder_record_def record_entered_def record_sla_def record_manual_intervention_def on_gauge_def
      gauge_set_def gauge_set_all_def gauge_clear_def three_gauges_def failed_machine_def int_conv_def gauge_new_def
      STATE_LABELS_def store_remove_def store_new_def)


text \<open>
  \<open>record\<close> does not panic and replaces the series of one object: when it entered the state, its
  SLA exactly when the state has one, and the intervention as far as the iteration could tell; a
  kept intervention describes the recorded state. No other object and no other gauge changes.
\<close>

lemma recorder_record_series:
  assumes "recorder_wf hold s r"
  shows "\<exists>r'. recorder_record F s now object_id state substate entered sla mi r = Some r' \<and>
    (let k = (sr_object_type s, object_id); ls = [sr_object_type s, object_id, state, substate];
         G = sr_gauges s; at = (\<lambda>i. lookup (g_store (gauge_at r' i))); old = (\<lambda>i. lookup (g_store (gauge_at r i)))
     in at (sg_entered G) k = Some \<lparr>se_payload = [(f64_of_i64 F entered, ls)], se_refreshed = now\<rparr> \<and>
        at (sg_sla G) k = map_option (\<lambda>d. \<lparr>se_payload = [(f64_of_duration F d, ls)], se_refreshed = now\<rparr>) sla \<and>
        at (sg_manual_intervention G) k = (case mi of
            Required reason \<Rightarrow> Some \<lparr>se_payload = [(f64_one F, ls @ [reason])], se_refreshed = now\<rparr>
          | NotRequired \<Rightarrow> None
          | Unknown \<Rightarrow> (case old (sg_manual_intervention G) k of
              Some e \<Rightarrow> if list_all (\<lambda>(v, label_values). prefix ls label_values) (se_payload e)
                        then Some (entry_touch now e) else None
            | None \<Rightarrow> None)) \<and>
        (\<forall>i k'. at i k' \<noteq> old i k' \<longrightarrow>
           k' = k \<and> i \<in> {sg_entered G, sg_sla G, sg_manual_intervention G}))"
proof -
  let ?e = "sg_entered (sr_gauges s)" and ?q = "sg_sla (sr_gauges s)" and ?m = "sg_manual_intervention (sr_gauges s)"
  let ?k = "(sr_object_type s, object_id)" and ?ls = "[sr_object_type s, object_id, state, substate]"
  obtain ge gq gm where r': "recorder_record F s now object_id state substate entered sla mi r =
       Some (r\<lparr>r_gauges := (r_gauges r)[?e := ge, ?q := gq, ?m := gm]\<rparr>)"
    and ge: "ge = (gauge_at r ?e)\<lparr>g_store := store_record now ?k [(f64_of_i64 F entered, ?ls)] (g_store (gauge_at r ?e))\<rparr>"
    and gq: "gq = (case sla of None \<Rightarrow> (gauge_at r ?q)\<lparr>g_store := store_remove ?k (g_store (gauge_at r ?q))\<rparr>
       | Some d \<Rightarrow> (gauge_at r ?q)\<lparr>g_store := store_record now ?k [(f64_of_duration F d, ?ls)] (g_store (gauge_at r ?q))\<rparr>)"
    and gm: "gm = (gauge_at r ?m)\<lparr>g_store := (case mi of
         Required reason \<Rightarrow> store_record now ?k [(f64_one F, ?ls @ [reason])] (g_store (gauge_at r ?m))
       | NotRequired \<Rightarrow> store_remove ?k (g_store (gauge_at r ?m))
       | Unknown \<Rightarrow> store_touch_if now ?k (\<lambda>series. \<forall>(v, label_values) \<in> set series. prefix ?ls label_values)
           (g_store (gauge_at r ?m)))\<rparr>"
    by (rule recorder_record_eq [OF assms, of F now object_id state substate entered sla mi])
  let ?r = "r\<lparr>r_gauges := (r_gauges r)[?e := ge, ?q := gq, ?m := gm]\<rparr>"
  have b: "?e < length (r_gauges r)" "?q < length (r_gauges r)" "?m < length (r_gauges r)" "?e \<noteq> ?q" "?e \<noteq> ?m" "?q \<noteq> ?m"
    using assms by (simp_all add: recorder_wf_def Let_def)
  then have at: "gauge_at ?r i = (if i = ?e then ge else if i = ?q then gq else if i = ?m then gm else gauge_at r i)" for i
    by (auto simp: nth_list_update)
  have 1: "lookup (g_store ge) k = (if k = ?k then Some \<lparr>se_payload = [(f64_of_i64 F entered, ?ls)], se_refreshed = now\<rparr>
      else lookup (g_store (gauge_at r ?e)) k)" for k by (simp add: ge)
  have 2: "lookup (g_store gq) k = (if k = ?k then map_option (\<lambda>d. \<lparr>se_payload = [(f64_of_duration F d, ?ls)], se_refreshed = now\<rparr>) sla
      else lookup (g_store (gauge_at r ?q)) k)" for k by (cases sla) (simp_all add: gq)
  have 3: "lookup (g_store gm) k = (if k = ?k then (case mi of
            Required reason \<Rightarrow> Some \<lparr>se_payload = [(f64_one F, ?ls @ [reason])], se_refreshed = now\<rparr>
          | NotRequired \<Rightarrow> None
          | Unknown \<Rightarrow> (case lookup (g_store (gauge_at r ?m)) ?k of
              Some e \<Rightarrow> if list_all (\<lambda>(v, label_values). prefix ?ls label_values) (se_payload e)
                        then Some (entry_touch now e) else None
            | None \<Rightarrow> None)) else lookup (g_store (gauge_at r ?m)) k)" for k
    by (cases mi) (simp_all add: gm list_all_iff split: option.split)
  show ?thesis
    by (rule exI [of _ ?r], unfold Let_def at, intro conjI r') (use b in \<open>simp_all add: 1 2 3\<close>)
qed

lemma recorder_record_series_witness:
  "\<exists>r'. recorder_record int_conv \<lparr>sr_object_type = ''machine'', sr_gauges = \<lparr>sg_entered = 0, sg_sla = 1, sg_manual_intervention = 2\<rparr>\<rparr>
     9 ''m1'' ''Ready'' ''y'' 8 None Unknown failed_machine = Some r' \<and>
     lookup (g_store (gauge_at r' 2)) (''machine'', ''m1'') = None"
proof -
  let ?s = "\<lparr>sr_object_type = ''machine'', sr_gauges = \<lparr>sg_entered = 0, sg_sla = 1, sg_manual_intervention = 2\<rparr>\<rparr>"
  have "recorder_wf 10 ?s failed_machine"
    by (simp add: recorder_wf_def failed_machine_def three_gauges_def gauge_new_def STATE_LABELS_def)
  from recorder_record_series [OF this, of int_conv 9 "''m1''" "''Ready''" "''y''" 8 None Unknown]
  obtain r' where r': "recorder_record int_conv ?s 9 ''m1'' ''Ready'' ''y'' 8 None Unknown failed_machine = Some r'"
    "lookup (g_store (gauge_at r' 2)) (''machine'', ''m1'') = (case lookup (g_store (gauge_at failed_machine 2)) (''machine'', ''m1'') of
       Some e \<Rightarrow> if list_all (\<lambda>(v, label_values). prefix [''machine'', ''m1'', ''Ready'', ''y''] label_values) (se_payload e)
                 then Some (entry_touch 9 e) else None | None \<Rightarrow> None)"
    by (auto simp: Let_def)
  then show ?thesis by (simp add: failed_machine_def)
qed

text \<open>
  A scrape returns the payload of exactly the objects refreshed within the hold period, and
  evicts exactly the others; also a key found stale by the first pass survives when it was
  refreshed before the second.
\<close>

lemma snapshot_live_exact:
  assumes "store_wf s"
  shows "set (fst (snapshot_live now s)) = {p. \<exists>k e. lookup s k = Some e \<and> now - se_refreshed e \<le> st_hold_period s
      \<and> 0 \<le> st_hold_period s \<and> p = se_payload e} \<and>
    lookup (snd (snapshot_live now s)) k = (case lookup s k of
      Some e \<Rightarrow> if now - se_refreshed e \<le> st_hold_period s \<and> 0 \<le> st_hold_period s then Some e else None
    | None \<Rightarrow> None) \<and>
    (lookup s' k = Some e' \<and> now \<le> se_refreshed e' \<and> 0 \<le> st_hold_period s' \<longrightarrow>
      lookup (evict_stale now (snd (scan_live now s)) s') k = Some e')"
proof -
  have "set (fst (snapshot_live now s)) = {p. \<exists>x \<in> set (st_entries s). payload_if_fresh now (st_hold_period s) (snd x) = Some p}"
    by (simp add: snapshot_live_def scan_live_def split_beta set_map_filter)
  also have "\<dots> = {p. \<exists>k e. lookup s k = Some e \<and> now - se_refreshed e \<le> st_hold_period s \<and> 0 \<le> st_hold_period s \<and> p = se_payload e}"
    by (intro Collect_cong) (simp add: entries_lookup [OF assms] Bex_def split_paired_Ex payload_if_fresh_def, metis)
  finally have 1: "set (fst (snapshot_live now s)) = {p. \<exists>k e. lookup s k = Some e \<and> now - se_refreshed e \<le> st_hold_period s
      \<and> 0 \<le> st_hold_period s \<and> p = se_payload e}" .
  have 2: "lookup (snd (snapshot_live now s)) k = (case lookup s k of
      Some e \<Rightarrow> if now - se_refreshed e \<le> st_hold_period s \<and> 0 \<le> st_hold_period s then Some e else None
    | None \<Rightarrow> None)"
    using snapshot_store [OF assms, of now k] by (simp add: stale_at_iff split: option.split)
  have 3: "lookup (evict_stale now (snd (scan_live now s)) s') k = Some e'"
    if "lookup s' k = Some e' \<and> now \<le> se_refreshed e' \<and> 0 \<le> st_hold_period s'"
    using that by (simp add: lookup_evict_stale stale_at_iff)
  from 1 2 3 show ?thesis by blast
qed

lemma snapshot_live_exact_witness:
  "lookup (snd (snapshot_live 20 (store_record 5 (''machine'', ''m1'') () (store_new 10)))) (''machine'', ''m1'') = None"
proof -
  define k x where "k = (''machine'', ''m1'')" and "x = ()"
  have "store_wf (store_record 5 k x (store_new 10))" by simp
  from snapshot_live_exact [OF this, of 20 k "store_new 10 :: unit per_object_store" undefined]
  have "lookup (snd (snapshot_live 20 (store_record 5 k x (store_new 10)))) k = (case lookup (store_record 5 k x (store_new 10)) k of
      Some e \<Rightarrow> if 20 - se_refreshed e \<le> 10 \<and> (0::int) \<le> 10 then Some e else None | None \<Rightarrow> None)"
    by (elim conjE) (simp only: hold_period_simps)
  then have "lookup (snd (snapshot_live 20 (store_record 5 k x (store_new 10)))) k = None" by simp
  then show ?thesis by (simp only: k_def x_def)
qed

section \<open>The counts of an iteration are exact\<close>

definition counted :: "('k \<times> nat) list \<Rightarrow> 'k \<Rightarrow> nat" where
  "counted m k = (case map_of m k of None \<Rightarrow> 0 | Some n \<Rightarrow> n)"

lemma counted_bump [simp]: "counted (bump k n m) j = counted m j + (if j = k then n else 0)"
  by (induction m) (auto simp: counted_def bump_def)

lemma counted_fold_bump:
  "counted (fold (\<lambda>x. bump (f x) 1) xs m) j = counted m j + length (filter (\<lambda>x. f x = j) xs)"
  by (induction xs arbitrary: m) auto

lemma distinct_filter_eq: "distinct xs \<Longrightarrow> length (filter (\<lambda>x. x = y) xs) = (if y \<in> set xs then 1 else 0)"
  by (induction xs) auto

lemma fold_insert_set: "set (fold List.insert xs ys) = set xs \<union> set ys \<and> (distinct ys \<longrightarrow> distinct (fold List.insert xs ys))"
  by (induction xs arbitrary: ys) auto

text \<open>The metrics of one object, from scratch.\<close>

definition no_object_metrics :: health_object_metrics where
  "no_object_metrics = \<lparr>om_object_id = [], om_health_probe_alerts = [], om_health_alert_classifications = [],
     om_alerts_suppressed = False, om_num_merge_overrides = 0, om_replace_override_enabled = False\<rparr>"

definition no_iteration_metrics :: "'d health_iteration_metrics" where
  "no_iteration_metrics = \<lparr>hi_healthy = [], hi_unhealthy_by_probe_id = [], hi_unhealthy_by_classification_id = [],
     hi_alerts_suppressed_by_object_id = [], hi_num_overrides = []\<rparr>"

lemma populate_alerts:
  fixes m :: health_object_metrics and alerts :: "'t health_probe_alert list"
  assumes "distinct (om_health_probe_alerts m)" "distinct (om_health_alert_classifications m)"
  defines "n \<equiv> fold populate_alert alerts m"
  shows "set (om_health_probe_alerts n) = (\<lambda>a. (al_id a, al_target a)) ` set alerts \<union> set (om_health_probe_alerts m)
    \<and> set (om_health_alert_classifications n) = (\<Union>a \<in> set alerts. set (al_classifications a)) \<union> set (om_health_alert_classifications m)
    \<and> distinct (om_health_probe_alerts n) \<and> distinct (om_health_alert_classifications n)
    \<and> om_alerts_suppressed n = (om_alerts_suppressed m \<or> (\<exists>a \<in> set alerts. suppress_external_alerting \<in> set (al_classifications a)))
    \<and> om_object_id n = om_object_id m"
  using assms(1,2) unfolding n_def
proof (induction alerts arbitrary: m)
  case (Cons a alerts)
  have d: "distinct (om_health_probe_alerts (populate_alert a m))" "distinct (om_health_alert_classifications (populate_alert a m))"
    using Cons.prems fold_insert_set [of "al_classifications a" "om_health_alert_classifications m"]
    by (simp_all add: populate_alert_def)
  show ?case
    using Cons.IH [OF d] fold_insert_set [of "al_classifications a" "om_health_alert_classifications m"]
    by (auto simp: populate_alert_def)
qed simp

lemma populate_facts:
  fixes report :: "'t health_report" and object_id :: string and sources :: health_report_sources
  defines "n \<equiv> populate object_id report sources no_object_metrics"
  shows "om_health_probe_alerts n = [] \<longleftrightarrow> hr_alerts report = []"
    "set (om_health_alert_classifications n) = (\<Union>a \<in> set (hr_alerts report). set (al_classifications a))"
    "set (om_health_probe_alerts n) = (\<lambda>a. (al_id a, al_target a)) ` set (hr_alerts report)"
    "distinct (om_health_probe_alerts n)" "distinct (om_health_alert_classifications n)"
    "om_alerts_suppressed n \<longleftrightarrow> (\<exists>a \<in> set (hr_alerts report). suppress_external_alerting \<in> set (al_classifications a))"
    "om_object_id n = object_id" "om_num_merge_overrides n = length (hs_merges sources)"
    "om_replace_override_enabled n \<longleftrightarrow> hs_replace sources \<noteq> None"
  using populate_alerts [of "no_object_metrics\<lparr>om_object_id := object_id\<rparr>" "hr_alerts report"]
  by (auto simp: n_def populate_def no_object_metrics_def Let_def simp flip: set_empty)

lemma health_merge_counts:
  fixes report :: "'t health_report" and M :: "'d health_iteration_metrics" and d' :: 'd and i :: string
    and sources :: health_report_sources
  defines "N \<equiv> health_merge d' (populate i report sources no_object_metrics) M"
  shows "counted (hi_healthy N) (healthy, d) = counted (hi_healthy M) (healthy, d) +
      (if d' = d \<and> (hr_alerts report = []) = healthy then 1 else 0)"
    "counted (hi_unhealthy_by_probe_id N) (probe, target, d) = counted (hi_unhealthy_by_probe_id M) (probe, target, d) +
      (if d' = d \<and> (\<exists>a \<in> set (hr_alerts report). al_id a = probe \<and> al_target a = target) then 1 else 0)"
    "counted (hi_unhealthy_by_classification_id N) (c, d) = counted (hi_unhealthy_by_classification_id M) (c, d) +
      (if d' = d \<and> (\<exists>a \<in> set (hr_alerts report). c \<in> set (al_classifications a)) then 1 else 0)"
    "counted (hi_num_overrides N) (''merge'', d) = counted (hi_num_overrides M) (''merge'', d) +
      (if d' = d then length (hs_merges sources) else 0)"
    "counted (hi_num_overrides N) (''replace'', d) = counted (hi_num_overrides M) (''replace'', d) +
      (if d' = d \<and> hs_replace sources \<noteq> None then 1 else 0)"
    "set (hi_alerts_suppressed_by_object_id N) = set (hi_alerts_suppressed_by_object_id M) \<union>
      {j. j = i \<and> (\<exists>a \<in> set (hr_alerts report). suppress_external_alerting \<in> set (al_classifications a))}"
proof -
  let ?n = "populate i report sources no_object_metrics"
  note f = populate_facts [where object_id = i and report = report and sources = sources]
  have fold_pairs: "fold (\<lambda>(probe_id, target). bump (probe_id, target, d') 1) = fold (\<lambda>x. bump (fst x, snd x, d') 1)"
    by (simp add: split_beta' case_prod_beta')
  have p: "length (filter (\<lambda>x. (fst x, snd x, d') = (probe, target, d)) (om_health_probe_alerts ?n)) =
      (if d' = d \<and> (\<exists>a \<in> set (hr_alerts report). al_id a = probe \<and> al_target a = target) then 1 else 0)"
  proof (cases "d' = d")
    case True
    then have "(\<lambda>x. (fst x, snd x, d') = (probe, target, d)) = (\<lambda>y. y = (probe, target))" by (auto simp: fun_eq_iff)
    then show ?thesis using True distinct_filter_eq [OF f(4), of "(probe, target)"] f(3) by auto
  qed simp
  have q: "length (filter (\<lambda>c'. (c', d') = (c, d)) (om_health_alert_classifications ?n)) =
      (if d' = d \<and> (\<exists>a \<in> set (hr_alerts report). c \<in> set (al_classifications a)) then 1 else 0)"
    using distinct_filter_eq [OF f(5), of c] f(2) by auto
  show "counted (hi_healthy N) (healthy, d) = counted (hi_healthy M) (healthy, d) +
      (if d' = d \<and> (hr_alerts report = []) = healthy then 1 else 0)"
    by (auto simp: N_def health_merge_def Let_def f(1))
  show "counted (hi_unhealthy_by_probe_id N) (probe, target, d) = counted (hi_unhealthy_by_probe_id M) (probe, target, d) +
      (if d' = d \<and> (\<exists>a \<in> set (hr_alerts report). al_id a = probe \<and> al_target a = target) then 1 else 0)"
    unfolding p [symmetric] by (simp add: N_def health_merge_def Let_def fold_pairs counted_fold_bump del: One_nat_def)
  show "counted (hi_unhealthy_by_classification_id N) (c, d) = counted (hi_unhealthy_by_classification_id M) (c, d) +
      (if d' = d \<and> (\<exists>a \<in> set (hr_alerts report). c \<in> set (al_classifications a)) then 1 else 0)"
    unfolding q [symmetric] by (simp add: N_def health_merge_def Let_def counted_fold_bump del: One_nat_def)
  show "counted (hi_num_overrides N) (''merge'', d) = counted (hi_num_overrides M) (''merge'', d) +
      (if d' = d then length (hs_merges sources) else 0)"
    "counted (hi_num_overrides N) (''replace'', d) = counted (hi_num_overrides M) (''replace'', d) +
      (if d' = d \<and> hs_replace sources \<noteq> None then 1 else 0)"
    by (auto simp: N_def health_merge_def Let_def f(8,9))
  show "set (hi_alerts_suppressed_by_object_id N) = set (hi_alerts_suppressed_by_object_id M) \<union>
      {j. j = i \<and> (\<exists>a \<in> set (hr_alerts report). suppress_external_alerting \<in> set (al_classifications a))}"
    by (auto simp: N_def health_merge_def Let_def f(6,7))
qed

text \<open>
  C35: merging the objects of an iteration counts exactly: per group the healthy and the unhealthy
  objects, the objects with an alert of each probe and target, those with each classification,
  the overrides, and the ids of those that suppress external alerts.
\<close>

theorem health_counts_exact:
  fixes objects :: "('d \<times> string \<times> 't health_report \<times> health_report_sources) list"
  defines "m \<equiv> fold (\<lambda>(d, i, report, sources). health_merge d (populate i report sources no_object_metrics)) objects
    no_iteration_metrics"
  shows "counted (hi_healthy m) (healthy, d) =
      length (filter (\<lambda>(d', i, report, sources). d' = d \<and> (hr_alerts report = []) = healthy) objects)
    \<and> counted (hi_unhealthy_by_probe_id m) (probe, target, d) =
      length (filter (\<lambda>(d', i, report, sources). d' = d \<and> (\<exists>a \<in> set (hr_alerts report). al_id a = probe \<and> al_target a = target)) objects)
    \<and> counted (hi_unhealthy_by_classification_id m) (c, d) =
      length (filter (\<lambda>(d', i, report, sources). d' = d \<and> (\<exists>a \<in> set (hr_alerts report). c \<in> set (al_classifications a))) objects)
    \<and> counted (hi_num_overrides m) (''merge'', d) =
      sum_list (map (\<lambda>(d', i, report, sources). if d' = d then length (hs_merges sources) else 0) objects)
    \<and> counted (hi_num_overrides m) (''replace'', d) =
      length (filter (\<lambda>(d', i, report, sources). d' = d \<and> hs_replace sources \<noteq> None) objects)
    \<and> set (hi_alerts_suppressed_by_object_id m) = {i. \<exists>(d', j, report, sources) \<in> set objects. i = j \<and>
      (\<exists>a \<in> set (hr_alerts report). suppress_external_alerting \<in> set (al_classifications a))}"
  unfolding m_def
proof (induction objects rule: rev_induct)
  case Nil
  then show ?case by (simp add: no_iteration_metrics_def counted_def)
next
  case (snoc x objects)
  obtain d' i report sources where x: "x = (d', i, report, sources)" by (metis prod_cases4)
  show ?case
    by (intro conjI; insert snoc; elim conjE; simp only: fold_append fold_simps o_apply x split_conv health_merge_counts)
      auto
qed

end
