(* ===== verification/State_Handler.thy ===== *)
theory State_Handler
  imports Handler_Outcome Object_Metrics State_Queue
begin

text \<open>
  One iteration of a state controller on one object: the interface of a controller
  (\<open>crates/state-controller/src/io.rs\<close>), the counts per state (\<open>metrics.rs\<close>) and \<open>process_object\<close> of
  \<open>controller/processor.rs\<close>, which loads the object, runs its handler and commits or discards
  what it did.

  A transaction is the working copy it would commit: \<open>begin\<close> takes the committed database,
  \<open>commit\<close> replaces it, and dropping the transaction or \<open>rollback\<close> forgets the copy. So
  transactions are serializable and none commits while another is open. The handler and the
  implementation of \<open>StateControllerIO\<close> are arguments.
\<close>

section \<open>The interface of a controller\<close>

record state_sla =
  sla_sla :: "nat option"
  sla_time_in_state_above_sla :: bool

definition no_sla :: state_sla where
  "no_sla = \<lparr>sla_sla = None, sla_time_in_state_above_sla = False\<rparr>"

definition with_sla :: "nat \<Rightarrow> nat \<Rightarrow> state_sla" where
  "with_sla sla time_in_state = \<lparr>sla_sla = Some sla, sla_time_in_state_above_sla = (time_in_state > sla)\<rparr>"

text \<open>
  \<open>StateControllerIO\<close>. Methods that write return the working copy they leave. \<open>io_show_id\<close> and
  \<open>io_debug_state\<close> are \<open>Display\<close> of the object id and \<open>Debug\<close> of the state.
\<close>

record ('id, 'st, 'cs, 'dt, 'db) state_controller_io =
  io_show_id :: "'id \<Rightarrow> string"
  io_debug_state :: "'cs \<Rightarrow> string"
  io_list_objects :: "'db \<Rightarrow> string + 'id list"
  io_load_object_state :: "'id \<Rightarrow> 'db \<Rightarrow> string + 'st option"
  io_load_controller_state :: "'id \<Rightarrow> 'st \<Rightarrow> 'db \<Rightarrow> string + ('cs, 'dt) versioned"
  io_persist_controller_state :: "'id \<Rightarrow> 'dt config_version \<Rightarrow> 'dt config_version \<Rightarrow> 'cs \<Rightarrow> 'db
     \<Rightarrow> string + (unit, controller_state_not_current) conditional_write \<times> 'db"
  io_persist_state_history :: "'id \<Rightarrow> 'dt config_version \<Rightarrow> 'cs \<Rightarrow> 'db \<Rightarrow> string + 'db"
  io_persist_outcome :: "'id \<Rightarrow> persistent_state_handler_outcome \<Rightarrow> 'db \<Rightarrow> string + 'db"
  io_metric_state_names :: "'cs \<Rightarrow> string \<times> string"
  io_manual_intervention_reason :: "'cs \<Rightarrow> string option"
  io_state_sla :: "('cs, 'dt) versioned \<Rightarrow> 'st \<Rightarrow> state_sla"

text \<open>
  What a run of the handler leaves: the snapshot, which it may change, its result, the writes it queued, and the committed database
  when it returns or is cut off, with what it and everybody else committed meanwhile.
\<close>

record ('st, 'cs, 'db) handler_run =
  hr_snapshot :: 'st
  hr_result :: "state_handler_error + ('cs, 'db) state_handler_outcome"
  hr_writes :: "'db write_op list"
  hr_db :: 'db

section \<open>Metrics of one iteration\<close>

record ('cs, 'dt) common_object_handler_metrics =
  cm_initial_state :: "'cs option"
  cm_next_state :: "'cs option"
  cm_iteration_invalidated :: bool
  cm_time_in_state :: nat
  cm_time_in_state_above_sla :: bool
  cm_sla :: "nat option"
  cm_state_entered_at :: "'dt option"
  cm_handler_latency :: nat
  cm_error :: "state_handler_error option"

definition no_metrics :: "('cs, 'dt) common_object_handler_metrics" where
  "no_metrics = \<lparr>cm_initial_state = None, cm_next_state = None, cm_iteration_invalidated = False,
     cm_time_in_state = 0, cm_time_in_state_above_sla = False, cm_sla = None, cm_state_entered_at = None,
     cm_handler_latency = 0, cm_error = None\<rparr>"

type_synonym full_state = "string \<times> string"

record state_metrics =
  sm_num_objects :: nat
  sm_num_objects_above_sla :: nat
  sm_handling_errors_per_type :: "(string \<times> nat) list"

definition no_state_metrics :: state_metrics where
  "no_state_metrics = \<lparr>sm_num_objects = 0, sm_num_objects_above_sla = 0, sm_handling_errors_per_type = []\<rparr>"

text \<open>\<open>entry(k).or_default()\<close>, followed by a change of the value.\<close>

definition on_entry :: "full_state \<Rightarrow> (state_metrics \<Rightarrow> state_metrics)
    \<Rightarrow> (full_state \<times> state_metrics) list \<Rightarrow> (full_state \<times> state_metrics) list" where
  "on_entry k f m = AList.map_default k (f no_state_metrics) f m"

definition merge_object_handling_metrics ::
    "('cs \<Rightarrow> string \<times> string) \<Rightarrow> ('cs, 'dt) common_object_handler_metrics
     \<Rightarrow> (full_state \<times> state_metrics) list \<Rightarrow> (full_state \<times> state_metrics) list" where
  "merge_object_handling_metrics names om m =
     (let initial = (case cm_initial_state om of Some s \<Rightarrow> names s | None \<Rightarrow> (''unknown'', []));
          m = on_entry initial (\<lambda>sm.
            let sm = (case cm_error om of
                  Some e \<Rightarrow> sm\<lparr>sm_handling_errors_per_type := bump (metric_label e) 1 (sm_handling_errors_per_type sm)\<rparr>
                | None \<Rightarrow> sm)
            in if cm_next_state om = None
               then sm\<lparr>sm_num_objects := sm_num_objects sm + 1,
                       sm_num_objects_above_sla := sm_num_objects_above_sla sm +
                         (if cm_time_in_state_above_sla om then 1 else 0)\<rparr>
               else sm) m
      in case cm_next_state om of
           Some next_state \<Rightarrow> on_entry (names next_state) (\<lambda>sm. sm\<lparr>sm_num_objects := sm_num_objects sm + 1\<rparr>) m
         | None \<Rightarrow> m)"

text \<open>The gauge \<open>{object_type}_total\<close>.\<close>

definition total_objects :: "(full_state \<times> state_metrics) list \<Rightarrow> nat" where
  "total_objects m = sum_list (map (\<lambda>e. sm_num_objects (snd e)) m)"

section \<open>Processing one object\<close>

text \<open>
  Every \<open>await\<close> of the body can be cut off by the deadline, and the database calls among them can
  fail. \<open>ElapsesAfter\<close> is a commit that the server performed although its answer came too late; at
  the other points it is the same as \<open>Elapses\<close>.
\<close>

datatype await_point =
    BeginLoad | LoadObject | LoadController | CommitLoad | HandleObject | BeginOutcome | ApplyWrites | RollbackWrites
  | PersistState | RollbackState | PersistHistory | PersistOutcome | CommitOutcome
  | RollbackError | BeginError | PersistError | CommitError

datatype fate = Proceeds | Fails string | Elapses | ElapsesAfter

datatype stop = Errored state_handler_error | Elapsed | Panicked

text \<open>A call that fails with an error of \<open>sqlx\<close>, one that fails with a \<open>DatabaseError\<close>, and one without own error.\<close>

definition sql :: "fate \<Rightarrow> stop + unit" where
  "sql f = (case f of Proceeds \<Rightarrow> Inr () | Fails e \<Rightarrow> Inl (Errored (TransactionError e)) | _ \<Rightarrow> Inl Elapsed)"

definition dbc :: "fate \<Rightarrow> string + 'a \<Rightarrow> stop + 'a" where
  "dbc f r = (case f of
      Proceeds \<Rightarrow> (case r of Inl e \<Rightarrow> Inl (Errored (DBError e)) | Inr x \<Rightarrow> Inr x)
    | Fails e \<Rightarrow> Inl (Errored (DBError e))
    | _ \<Rightarrow> Inl Elapsed)"

definition cut_off :: "fate \<Rightarrow> 'a \<Rightarrow> stop + 'a" where
  "cut_off f x = (case f of Elapses \<Rightarrow> Inl Elapsed | ElapsesAfter \<Rightarrow> Inl Elapsed | _ \<Rightarrow> Inr x)"

text \<open>The \<open>?\<close> operator.\<close>

definition attempt :: "'e + 'a \<Rightarrow> ('a \<Rightarrow> 'e + 'b) \<Rightarrow> 'e + 'b" where
  "attempt r k = (case r of Inl e \<Rightarrow> Inl e | Inr x \<Rightarrow> k x)"

text \<open>\<open>txn.commit()\<close>: the committed database afterwards, and whether the call returned.\<close>

definition commit :: "fate \<Rightarrow> 'db \<Rightarrow> 'db \<Rightarrow> (stop + unit) \<times> 'db" where
  "commit f txn db = (case f of
      Proceeds \<Rightarrow> (Inr (), txn)
    | Fails e \<Rightarrow> (Inl (Errored (TransactionError e)), db)
    | Elapses \<Rightarrow> (Inl Elapsed, db)
    | ElapsesAfter \<Rightarrow> (Inl Elapsed, txn))"

text \<open>
  The surroundings of one iteration: the fate of each call, the clocks, and the source location of
  the conditional write. \<open>ev_now\<close> is the instant the task first runs, \<open>ev_nanos\<close> the clock of the
  new version, \<open>ev_since\<close> the nanoseconds since a time stamp and
  \<open>ev_secs\<close> its seconds since the epoch.
\<close>

record 'dt env =
  ev_await :: "await_point \<Rightarrow> fate"
  ev_deadline :: int
  ev_now :: int
  ev_nanos :: nat
  ev_since :: "'dt \<Rightarrow> int"
  ev_secs :: "'dt \<Rightarrow> int"
  ev_latency :: nat
  ev_site :: location

definition MISSING_OBJECT_STATE :: string where
  "MISSING_OBJECT_STATE = ''object_state''"

text \<open>The first transaction: the object, its controller state, and the metrics of the state it is in.\<close>

definition load_object ::
    "'dt env \<Rightarrow> ('id, 'st, 'cs, 'dt, 'db) state_controller_io \<Rightarrow> 'id \<Rightarrow> 'db
     \<Rightarrow> (stop + 'st \<times> ('cs, 'dt) versioned) \<times> ('cs, 'dt) common_object_handler_metrics" where
  "load_object E io object_id db =
     (if ev_now E \<ge> ev_deadline E then (Inl (Errored (Timeout (io_show_id io object_id) [])), no_metrics)
      else
        (case attempt (sql (ev_await E BeginLoad)) (\<lambda>_.
              attempt (dbc (ev_await E LoadObject) (io_load_object_state io object_id db)) (\<lambda>loaded.
              case loaded of
                None \<Rightarrow> Inl (Errored (MissingData (io_show_id io object_id) MISSING_OBJECT_STATE))
              | Some snapshot \<Rightarrow>
                  attempt (dbc (ev_await E LoadController) (io_load_controller_state io object_id snapshot db))
                    (\<lambda>cs. Inr (snapshot, cs)))) of
           Inl e \<Rightarrow> (Inl e, no_metrics)
         | Inr (snapshot, cs) \<Rightarrow>
             (let since = ev_since E (timestamp (version cs));
                  sla = io_state_sla io cs snapshot
              in (attempt (sql (ev_await E CommitLoad)) (\<lambda>_. Inr (snapshot, cs)),
                  no_metrics\<lparr>cm_initial_state := Some (value_of cs),
                    cm_state_entered_at := Some (timestamp (version cs)),
                    cm_time_in_state := (if since < 0 then 60 * 60 * 24 * 1000000000 else nat since),
                    cm_time_in_state_above_sla := sla_time_in_state_above_sla sla,
                    cm_sla := sla_sla sla\<rparr>))))"

text \<open>The outcome of the handler with the transaction that will persist it.\<close>

definition settle ::
    "'dt env \<Rightarrow> ('st, 'cs, 'db) handler_run
     \<Rightarrow> stop + (state_handler_error + ('cs, 'db) state_handler_outcome) \<times> 'db" where
  "settle E run =
     (case hr_result run of
        Inr outcome \<Rightarrow>
          (let (txn, outcome) = take_transaction outcome
           in attempt (case txn of Some t \<Rightarrow> Inr t
                     | None \<Rightarrow> attempt (sql (ev_await E BeginOutcome)) (\<lambda>_. Inr (hr_db run))) (\<lambda>txn.
              attempt (cut_off (ev_await E ApplyWrites) (apply_all (hr_writes run) txn)) (\<lambda>r.
              case r of
                Inl e \<Rightarrow> (case e of
                    IterationInvalidated l \<Rightarrow>
                      attempt (sql (ev_await E RollbackWrites)) (\<lambda>_. Inl (Errored (IterationInvalidated l)))
                  | _ \<Rightarrow> Inr (Inl e, txn))
              | Inr txn' \<Rightarrow> Inr (Inr outcome, txn'))))
      | Inl e \<Rightarrow> (case e of
            IterationInvalidated l \<Rightarrow> Inl (Errored (IterationInvalidated l))
          | _ \<Rightarrow> attempt (sql (ev_await E BeginOutcome)) (\<lambda>_. Inr (Inl e, hr_db run))))"

text \<open>The conditional write of the next state and its history record.\<close>

definition apply_transition ::
    "'dt env \<Rightarrow> 'dt chrono \<Rightarrow> ('id, 'st, 'cs, 'dt, 'db) state_controller_io \<Rightarrow> 'id \<Rightarrow> ('cs, 'dt) versioned
     \<Rightarrow> state_handler_error + ('cs, 'db) state_handler_outcome \<Rightarrow> 'db
     \<Rightarrow> stop + ('cs, 'dt) versioned option \<times> 'db" where
  "apply_transition E C io object_id cs outcome txn =
     (case outcome of
        Inr (Transition next_state _ _) \<Rightarrow>
          (case increment C (ev_nanos E) (version cs) of
             None \<Rightarrow> Inl Panicked
           | Some nv \<Rightarrow>
               attempt (dbc (ev_await E PersistState)
                   (io_persist_controller_state io object_id (version cs) nv next_state txn)) (\<lambda>(write, txn).
               case check_applied (ev_site E) write of
                 Inl e \<Rightarrow> attempt (sql (ev_await E RollbackState)) (\<lambda>_. Inl (Errored e))
               | Inr _ \<Rightarrow>
                   attempt (dbc (ev_await E PersistHistory) (io_persist_state_history io object_id nv next_state txn))
                     (\<lambda>txn. Inr (Some \<lparr>value_of = next_state, version = nv\<rparr>, txn))))
      | _ \<Rightarrow> Inr (None, txn))"

text \<open>An object that is stuck although its handler succeeded is an error.\<close>

fun above_sla_outcome ::
    "bool \<Rightarrow> state_handler_error + ('cs, 'db) state_handler_outcome
     \<Rightarrow> state_handler_error + ('cs, 'db) state_handler_outcome" where
  "above_sla_outcome True (Inr (Wait reason _ _)) = Inl (TimeInStateAboveSla (''Wait(\"'' @ reason @ ''\")''))"
| "above_sla_outcome True (Inr (DoNothing _ _)) = Inl (TimeInStateAboveSla ''DoNothing'')"
| "above_sla_outcome _ outcome = outcome"

fun is_deleted :: "state_handler_error + ('cs, 'db) state_handler_outcome \<Rightarrow> bool" where
  "is_deleted (Inr (Deleted _ _)) \<longleftrightarrow> True"
| "is_deleted _ \<longleftrightarrow> False"

definition persist_outcome_in ::
    "fate \<Rightarrow> ('id, 'st, 'cs, 'dt, 'db) state_controller_io \<Rightarrow> 'id
     \<Rightarrow> state_handler_error + ('cs, 'db) state_handler_outcome \<Rightarrow> 'db \<Rightarrow> stop + 'db" where
  "persist_outcome_in f io object_id outcome txn =
     (case from_result outcome of
        None \<Rightarrow> Inl Panicked
      | Some db_outcome \<Rightarrow> dbc f (io_persist_outcome io object_id db_outcome txn))"

definition commit_with :: "fate \<Rightarrow> 'r \<Rightarrow> 'db \<Rightarrow> stop + 'db \<Rightarrow> (stop + 'r) \<times> 'db" where
  "commit_with f r db prepared =
     (case prepared of
        Inl e \<Rightarrow> (Inl e, db)
      | Inr txn \<Rightarrow> (case commit f txn db of (Inl e, db) \<Rightarrow> (Inl e, db) | (Inr _, db) \<Rightarrow> (Inr r, db)))"

text \<open>Commit after a success; after an error only the outcome is stored.\<close>

definition conclude ::
    "'dt env \<Rightarrow> ('id, 'st, 'cs, 'dt, 'db) state_controller_io \<Rightarrow> 'id \<Rightarrow> bool
     \<Rightarrow> state_handler_error + ('cs, 'db) state_handler_outcome \<Rightarrow> 'db \<Rightarrow> 'db
     \<Rightarrow> (stop + (state_handler_error + ('cs, 'db) state_handler_outcome)) \<times> 'db" where
  "conclude E io object_id above_sla handler_outcome txn db =
     (let is_success = (case handler_outcome of Inl _ \<Rightarrow> False | Inr _ \<Rightarrow> True);
          outcome = above_sla_outcome above_sla handler_outcome
      in if is_success then
           commit_with (ev_await E CommitOutcome) outcome db
             (if is_deleted outcome then Inr txn
              else persist_outcome_in (ev_await E PersistOutcome) io object_id outcome txn)
         else if \<not> is_deleted outcome then
           commit_with (ev_await E CommitError) outcome db
             (attempt (cut_off (ev_await E RollbackError) ()) (\<lambda>_.
              attempt (sql (ev_await E BeginError)) (\<lambda>_.
              persist_outcome_in (ev_await E PersistError) io object_id outcome db)))
         else (Inr outcome, db))"

type_synonym ('id, 'st, 'cs, 'db) handler = "'id \<Rightarrow> 'st \<Rightarrow> 'cs \<Rightarrow> 'db \<Rightarrow> ('st, 'cs, 'db) handler_run"

text \<open>The block under \<open>timeout_at\<close>: its result, the committed database and the metrics it set.\<close>

definition process_body ::
    "'dt env \<Rightarrow> 'dt chrono \<Rightarrow> ('id, 'st, 'cs, 'dt, 'db) state_controller_io \<Rightarrow> ('id, 'st, 'cs, 'db) handler
     \<Rightarrow> 'id \<Rightarrow> 'db
     \<Rightarrow> (stop + (state_handler_error + ('cs, 'db) state_handler_outcome)) \<times> 'db
        \<times> ('cs, 'dt) common_object_handler_metrics" where
  "process_body E C io handler object_id db =
     (case load_object E io object_id db of
        (Inl e, M) \<Rightarrow> (Inl e, db, M)
      | (Inr (snapshot, cs), M) \<Rightarrow>
          (let run = handler object_id snapshot (value_of cs) db
           in case attempt (cut_off (ev_await E HandleObject) run) (\<lambda>run.
                   attempt (settle E run) (\<lambda>(outcome, txn).
                   attempt (apply_transition E C io object_id cs outcome txn) (\<lambda>(next_state, txn).
                   Inr (outcome, next_state, txn)))) of
                Inl e \<Rightarrow> (Inl e, hr_db run, M)
              | Inr (outcome, next_state, txn) \<Rightarrow>
                  (case conclude E io object_id (cm_time_in_state_above_sla M) outcome txn (hr_db run) of
                     (Inl e, db) \<Rightarrow> (Inl e, db, M)
                   | (Inr outcome, db) \<Rightarrow>
                       (Inr outcome, db, case next_state of
                          None \<Rightarrow> M
                        | Some next \<Rightarrow> M\<lparr>cm_next_state := Some (value_of next),
                            cm_state_entered_at := Some (timestamp (version next)),
                            cm_sla := sla_sla (io_state_sla io next (hr_snapshot run))\<rparr>))))"

text \<open>\<open>StateChangeEmitter::emit\<close>: every registered hook, in order.\<close>

definition emit :: "('event \<Rightarrow> 'w \<Rightarrow> 'w) list \<Rightarrow> 'event \<Rightarrow> 'w \<Rightarrow> 'w" where
  "emit hooks event w = fold (\<lambda>hook. hook event) hooks w"

fun manual_intervention_of :: "string option \<Rightarrow> state_handler_error option \<Rightarrow> manual_intervention" where
  "manual_intervention_of (Some reason) _ = Required reason"
| "manual_intervention_of None (Some (ManualInterventionRequired e)) =
     Required (metric_label (ManualInterventionRequired e))"
| "manual_intervention_of None None = NotRequired"
| "manual_intervention_of None (Some (TimeInStateAboveSla _)) = NotRequired"
| "manual_intervention_of None (Some _) = Unknown"

fun missing_object_state :: "state_handler_error option \<Rightarrow> bool" where
  "missing_object_state (Some (MissingData _ missing)) \<longleftrightarrow> missing = MISSING_OBJECT_STATE"
| "missing_object_state _ \<longleftrightarrow> False"

definition record_object ::
    "'v f64_conv \<Rightarrow> state_recorder \<Rightarrow> 'dt env \<Rightarrow> ('id, 'st, 'cs, 'dt, 'db) state_controller_io \<Rightarrow> 'id \<Rightarrow> bool
     \<Rightarrow> ('cs, 'dt) common_object_handler_metrics \<Rightarrow> 'v registry \<Rightarrow> 'v registry option" where
  "record_object F recorder E io object_id gone M r =
     (if gone then Some (recorder_clear recorder (io_show_id io object_id) r)
      else
        (case (if cm_iteration_invalidated M then None
               else (case cm_next_state M of Some s \<Rightarrow> Some s | None \<Rightarrow> cm_initial_state M), cm_state_entered_at M) of
           (Some final_state, Some entered) \<Rightarrow>
             (let (state, substate) = io_metric_state_names io final_state
              in recorder_record F recorder (ev_now E) (io_show_id io object_id) state substate (ev_secs E entered)
                   (cm_sla M)
                   (manual_intervention_of (io_manual_intervention_reason io final_state) (cm_error M)) r)
         | _ \<Rightarrow> Some (recorder_touch recorder (ev_now E) (io_show_id io object_id) r)))"

text \<open>
  The whole function; \<open>None\<close> is a panic of the task. The sinks of one call are the hooks' world and
  the registry of per-object series.
\<close>

definition process_object ::
    "'dt env \<Rightarrow> 'dt chrono \<Rightarrow> 'v f64_conv \<Rightarrow> ('id \<times> 'cs \<Rightarrow> 'w \<Rightarrow> 'w) list \<Rightarrow> state_recorder option
     \<Rightarrow> ('id, 'st, 'cs, 'dt, 'db) state_controller_io \<Rightarrow> ('id, 'st, 'cs, 'db) handler \<Rightarrow> 'id \<Rightarrow> 'db \<Rightarrow> 'w \<Rightarrow> 'v registry
     \<Rightarrow> (('cs, 'dt) common_object_handler_metrics \<times> 'db \<times> 'w \<times> 'v registry) option" where
  "process_object E C F hooks recorder io handler object_id db w r =
     (case process_body E C io handler object_id db of
        (result, db, M) \<Rightarrow>
          (let M = M\<lparr>cm_handler_latency := ev_latency E\<rparr>;
               w = (case cm_next_state M of Some next_state \<Rightarrow> emit hooks (object_id, next_state) w | None \<Rightarrow> w);
               gone = (case result of Inr outcome \<Rightarrow> is_deleted outcome | Inl _ \<Rightarrow> False);
               finish = (\<lambda>M. Option.bind (case recorder of
                     Some rec \<Rightarrow> record_object F rec E io object_id (gone \<or> missing_object_state (cm_error M)) M r
                   | None \<Rightarrow> Some r) (\<lambda>r. Some (M, db, w, r)));
               failed = (\<lambda>e. case e of
                     IterationInvalidated _ \<Rightarrow> finish (M\<lparr>cm_iteration_invalidated := True\<rparr>)
                   | _ \<Rightarrow> finish (M\<lparr>cm_error := Some e\<rparr>))
           in case result of
                Inr (Inr _) \<Rightarrow> finish M
              | Inr (Inl e) \<Rightarrow> failed e
              | Inl (Errored e) \<Rightarrow> failed e
              | Inl Elapsed \<Rightarrow> finish (M\<lparr>cm_error := Some (Timeout (io_show_id io object_id)
                    (case cm_initial_state M of Some s \<Rightarrow> io_debug_state io s | None \<Rightarrow> []))\<rparr>)
              | Inl Panicked \<Rightarrow> None))"

section \<open>The phases, one by one\<close>

named_theorems phase_defs \<open>the calls under the deadline\<close>

declare sql_def [phase_defs] dbc_def [phase_defs] cut_off_def [phase_defs] attempt_def [phase_defs]

lemma attempt_Inr: "attempt r k = Inr y \<longleftrightarrow> (\<exists>x. r = Inr x \<and> k x = Inr y)"
  by (simp add: attempt_def split: sum.split)

lemma sql_Inr [simp]: "sql f = Inr u \<longleftrightarrow> f = Proceeds"
  by (simp add: sql_def split: fate.split)

lemma dbc_Inr: "dbc f r = Inr x \<longleftrightarrow> f = Proceeds \<and> r = Inr x"
  by (auto simp: dbc_def split: fate.split sum.split)

lemma outcome_txn_replace [simp]: "outcome_txn (replace_txn t o1) = t"
  by (cases o1) simp_all

lemma settle_Inr_Inr:
  assumes "settle E run = Inr (Inr outcome, txn)"
  shows "\<exists>o1. hr_result run = Inr o1 \<and> outcome = replace_txn None o1 \<and>
    apply_all (hr_writes run) (case outcome_txn o1 of Some t \<Rightarrow> t | None \<Rightarrow> hr_db run) = Inr txn"
  using assms
  by (auto simp: settle_def take_transaction_def phase_defs
      split: sum.splits option.splits fate.splits state_handler_error.splits)

lemma settle_Inr_Inl:
  assumes "settle E run = Inr (Inl e, txn)"
  shows "(\<forall>l. e \<noteq> IterationInvalidated l) \<and>
    (hr_result run = Inl e \<or> (\<exists>o1 t. hr_result run = Inr o1 \<and> apply_all (hr_writes run) t = Inl e))"
  using assms
  by (auto simp: settle_def take_transaction_def phase_defs
      split: sum.splits option.splits fate.splits state_handler_error.splits)

lemma commit_with_cases:
  assumes "commit_with f x db prepared = (result, db')"
  shows "(\<exists>e. result = Inl e \<and> db' = db) \<or>
    (\<exists>txn. prepared = Inr txn \<and> db' = txn \<and> (result = Inr x \<and> f = Proceeds \<or> result = Inl Elapsed \<and> f = ElapsesAfter))"
  using assms by (auto simp: commit_with_def commit_def split: sum.splits prod.splits fate.splits)

lemma persist_outcome_in_Inr:
  "persist_outcome_in f io i outcome txn = Inr db' \<longleftrightarrow>
   f = Proceeds \<and> (\<exists>p. from_result outcome = Some p \<and> io_persist_outcome io i p txn = Inr db')"
  by (auto simp: persist_outcome_in_def dbc_Inr split: option.split)

lemma conclude_error:
  assumes "conclude E io i above_sla (Inl e) txn db = (result, db')"
  shows "(\<exists>x. result = Inl x \<and> db' = db) \<or>
    (io_persist_outcome io i (PError (show_error e) None) db = Inr db' \<and> (result = Inr (Inl e) \<or> result = Inl Elapsed))"
proof -
  have o: "above_sla_outcome above_sla (Inl e) = Inl e" for above_sla by (cases above_sla) simp_all
  have "commit_with (ev_await E CommitError) (Inl e) db
      (attempt (cut_off (ev_await E RollbackError) ()) (\<lambda>_. attempt (sql (ev_await E BeginError)) (\<lambda>_.
         persist_outcome_in (ev_await E PersistError) io i (Inl e) db))) = (result, db')"
    using assms by (simp add: conclude_def o Let_def)
  from commit_with_cases [OF this] show ?thesis by (auto simp: attempt_Inr persist_outcome_in_Inr)
qed

lemma conclude_success:
  assumes "conclude E io i above_sla (Inr outcome) txn db = (result, db')"
  shows "(\<exists>x. result = Inl x \<and> db' = db) \<or>
    ((if is_deleted (Inr outcome) then db' = txn
      else (\<exists>p. from_result (above_sla_outcome above_sla (Inr outcome)) = Some p \<and> io_persist_outcome io i p txn = Inr db')) \<and>
     (result = Inr (above_sla_outcome above_sla (Inr outcome)) \<and> ev_await E CommitOutcome = Proceeds \<or>
      result = Inl Elapsed \<and> ev_await E CommitOutcome = ElapsesAfter))"
proof -
  have d: "is_deleted (above_sla_outcome above_sla (Inr outcome)) \<longleftrightarrow> is_deleted (Inr outcome)"
    by (cases outcome; cases above_sla) simp_all
  have "commit_with (ev_await E CommitOutcome) (above_sla_outcome above_sla (Inr outcome)) db
      (if is_deleted (Inr outcome) then Inr txn
       else persist_outcome_in (ev_await E PersistOutcome) io i (above_sla_outcome above_sla (Inr outcome)) txn) = (result, db')"
    using assms by (simp add: conclude_def d Let_def)
  from commit_with_cases [OF this] show ?thesis by (auto simp: persist_outcome_in_Inr split: if_splits)
qed

lemma apply_transition_Inr:
  assumes "apply_transition E C io i cs outcome txn = Inr (next_state, txn')"
  shows "(next_state = None \<and> txn' = txn \<and> (\<forall>s l t. outcome \<noteq> Inr (Transition s l t))) \<or>
    (\<exists>s l t nv txn1. outcome = Inr (Transition s l t) \<and> increment C (ev_nanos E) (version cs) = Some nv \<and>
       io_persist_controller_state io i (version cs) nv s txn = Inr (Applied (), txn1) \<and>
       io_persist_state_history io i nv s txn1 = Inr txn' \<and> next_state = Some \<lparr>value_of = s, version = nv\<rparr>)"
proof (cases "\<exists>s l t. outcome = Inr (Transition s l t)")
  case True
  then obtain s l t where o: "outcome = Inr (Transition s l t)" by blast
  then obtain nv where nv: "increment C (ev_nanos E) (version cs) = Some nv"
    using assms by (auto simp: apply_transition_def split: option.splits)
  then obtain w txn1 where w: "io_persist_controller_state io i (version cs) nv s txn = Inr (w, txn1)"
    "(case check_applied (ev_site E) w of
        Inl e \<Rightarrow> attempt (sql (ev_await E RollbackState)) (\<lambda>_. Inl (Errored e))
      | Inr _ \<Rightarrow> attempt (dbc (ev_await E PersistHistory) (io_persist_state_history io i nv s txn1))
          (\<lambda>txn. Inr (Some \<lparr>value_of = s, version = nv\<rparr>, txn))) = Inr (next_state, txn')"
    using assms by (auto simp: apply_transition_def o attempt_Inr dbc_Inr)
  then have "w = Applied ()" by (cases w) (auto simp: attempt_Inr)
  then show ?thesis using w o nv by (auto simp: attempt_Inr dbc_Inr)
next
  case False
  then have "apply_transition E C io i cs outcome txn = Inr (None, txn)"
    by (cases outcome; cases "projr outcome") (auto simp: apply_transition_def)
  with False assms show ?thesis by simp
qed

text \<open>The ways in which the body can leave the database, once the object is loaded.\<close>

definition loaded_run ::
    "'dt env \<Rightarrow> ('id, 'st, 'cs, 'dt, 'db) state_controller_io \<Rightarrow> ('id, 'st, 'cs, 'db) handler \<Rightarrow> 'id \<Rightarrow> 'db
     \<Rightarrow> (('cs, 'dt) versioned \<times> ('st, 'cs, 'db) handler_run) option" where
  "loaded_run E io handler i db =
     (case load_object E io i db of
        (Inr (snapshot, cs), _) \<Rightarrow> Some (cs, handler i snapshot (value_of cs) db)
      | (Inl _, _) \<Rightarrow> None)"

lemma load_object_next [simp]: "load_object E io i db = (x, M) \<Longrightarrow> cm_next_state M = None"
  by (auto simp: load_object_def no_metrics_def Let_def split: if_splits sum.splits prod.splits)

lemma process_body_unloaded:
  "loaded_run E io handler i db = None \<Longrightarrow> process_body E C io handler i db = (result, db', M) \<Longrightarrow>
   (\<exists>e. result = Inl e) \<and> db' = db \<and> cm_next_state M = None"
  by (auto simp: loaded_run_def process_body_def split: prod.splits sum.splits if_splits)

definition committed ::
    "'dt env \<Rightarrow> 'dt chrono \<Rightarrow> ('id, 'st, 'cs, 'dt, 'db) state_controller_io \<Rightarrow> 'id \<Rightarrow> bool \<Rightarrow> ('cs, 'dt) versioned
     \<Rightarrow> ('st, 'cs, 'db) handler_run \<Rightarrow> ('cs, 'db) state_handler_outcome \<Rightarrow> ('cs, 'dt) versioned option \<Rightarrow> 'db \<Rightarrow> bool" where
  "committed E C io i above_sla cs run outcome next_state db' \<longleftrightarrow>
     (\<exists>o1 txn txn'. hr_result run = Inr o1 \<and> outcome = replace_txn None o1 \<and>
        apply_all (hr_writes run) (case outcome_txn o1 of Some t \<Rightarrow> t | None \<Rightarrow> hr_db run) = Inr txn \<and>
        apply_transition E C io i cs (Inr outcome) txn = Inr (next_state, txn') \<and>
        (if is_deleted (Inr outcome) then db' = txn'
         else (\<exists>p. from_result (above_sla_outcome above_sla (Inr outcome)) = Some p \<and> io_persist_outcome io i p txn' = Inr db')))"

lemma process_body_cases:
  assumes "loaded_run E io handler i db = Some (cs, run)" "process_body E C io handler i db = (result, db', M)"
  shows "((\<exists>e. result = Inl e) \<and> db' = hr_db run \<and> cm_next_state M = None) \<or>
    (\<exists>e. (\<forall>l. e \<noteq> IterationInvalidated l) \<and> (hr_result run = Inl e \<or> (\<exists>t. apply_all (hr_writes run) t = Inl e)) \<and>
       io_persist_outcome io i (PError (show_error e) None) (hr_db run) = Inr db' \<and>
       (result = Inr (Inl e) \<or> result = Inl Elapsed) \<and> cm_next_state M = None) \<or>
    (\<exists>outcome next_state. committed E C io i (cm_time_in_state_above_sla M) cs run outcome next_state db' \<and>
       (result = Inr (above_sla_outcome (cm_time_in_state_above_sla M) (Inr outcome)) \<and>
          cm_next_state M = map_option value_of next_state \<and> ev_await E CommitOutcome = Proceeds \<or>
        result = Inl Elapsed \<and> cm_next_state M = None \<and> ev_await E CommitOutcome = ElapsesAfter))"
proof -
  obtain snapshot M0 where load: "load_object E io i db = (Inr (snapshot, cs), M0)"
    and run: "run = handler i snapshot (value_of cs) db"
    using assms(1) by (auto simp: loaded_run_def split: prod.splits sum.splits)
  have none: "cm_next_state M0 = None" using load by simp
  define mid where "mid = attempt (cut_off (ev_await E HandleObject) run) (\<lambda>run.
      attempt (settle E run) (\<lambda>(outcome, txn).
      attempt (apply_transition E C io i cs outcome txn) (\<lambda>(next_state, txn). Inr (outcome, next_state, txn))))"
  have body: "process_body E C io handler i db = (case mid of
      Inl e \<Rightarrow> (Inl e, hr_db run, M0)
    | Inr (outcome, next_state, txn) \<Rightarrow>
        (case conclude E io i (cm_time_in_state_above_sla M0) outcome txn (hr_db run) of
           (Inl e, db) \<Rightarrow> (Inl e, db, M0)
         | (Inr outcome, db) \<Rightarrow> (Inr outcome, db, case next_state of None \<Rightarrow> M0
             | Some next \<Rightarrow> M0\<lparr>cm_next_state := Some (value_of next), cm_state_entered_at := Some (timestamp (version next)),
                 cm_sla := sla_sla (io_state_sla io next (hr_snapshot run))\<rparr>)))"
    unfolding process_body_def load run mid_def Let_def prod.case sum.case ..
  show ?thesis
  proof (cases mid)
    case (Inl e)
    then show ?thesis using assms(2) body none by auto
  next
    case (Inr r)
    obtain outcome next_state txn' where r: "r = (outcome, next_state, txn')" by (cases r)
    obtain txn where settle: "settle E run = Inr (outcome, txn)"
      and trans: "apply_transition E C io i cs outcome txn = Inr (next_state, txn')"
      using Inr r by (auto simp: mid_def attempt_Inr cut_off_def split: fate.splits)
    obtain res d where con: "conclude E io i (cm_time_in_state_above_sla M0) outcome txn' (hr_db run) = (res, d)"
      by fastforce
    have out: "db' = d" "res = Inl e \<Longrightarrow> result = Inl e \<and> M = M0"
      "res = Inr x \<Longrightarrow> result = Inr x \<and> cm_next_state M = map_option value_of next_state \<and>
         cm_time_in_state_above_sla M = cm_time_in_state_above_sla M0" for e x
      using assms(2) body Inr r con none by (auto split: sum.splits option.splits)
    show ?thesis
    proof (cases outcome)
      case (Inl e)
      have "next_state = None" using apply_transition_Inr [OF trans] Inl by simp
      with out settle_Inr_Inl [OF settle [unfolded Inl]] conclude_error [OF con [unfolded Inl]] none
      show ?thesis by (cases res) auto
    next
      case (Inr o2)
      have c: "committed E C io i (cm_time_in_state_above_sla M0) cs run o2 next_state d"
        if "if is_deleted (Inr o2) then d = txn'
          else (\<exists>p. from_result (above_sla_outcome (cm_time_in_state_above_sla M0) (Inr o2)) = Some p \<and> io_persist_outcome io i p txn' = Inr d)"
        using settle_Inr_Inr [OF settle [unfolded Inr]] trans [unfolded Inr] that unfolding committed_def by blast
      from conclude_success [OF con [unfolded Inr]] show ?thesis
      proof (elim disjE conjE exE)
        fix x assume "res = Inl x" "d = hr_db run"
        then show ?thesis using out none by simp
      qed (use out c none in \<open>auto simp: out\<close>)
    qed
  qed
qed

section \<open>The contract of a controller's storage\<close>

text \<open>
  A handler leaves the controller state to the processor: neither its own transaction nor its
  queued writes change state or history of an object.
\<close>

definition leaves_state :: "('id \<Rightarrow> 'db \<Rightarrow> ('cs, 'dt) versioned option) \<Rightarrow> ('id \<Rightarrow> 'db \<Rightarrow> ('cs, 'dt) versioned list)
    \<Rightarrow> ('st, 'cs, 'db) handler_run \<Rightarrow> bool" where
  "leaves_state state_of history_of run \<longleftrightarrow>
     (\<forall>o1 t j. hr_result run = Inr o1 \<longrightarrow> outcome_txn o1 = Some t \<longrightarrow>
        state_of j t = state_of j (hr_db run) \<and> history_of j t = history_of j (hr_db run)) \<and>
     (\<forall>w d d' j. w \<in> set (hr_writes run) \<longrightarrow> w d = Inr d' \<longrightarrow> state_of j d' = state_of j d \<and> history_of j d' = history_of j d)"

definition same_states :: "('id \<Rightarrow> 'db \<Rightarrow> ('cs, 'dt) versioned option) \<Rightarrow> ('id \<Rightarrow> 'db \<Rightarrow> ('cs, 'dt) versioned list)
    \<Rightarrow> 'db \<Rightarrow> 'db \<Rightarrow> bool" where
  "same_states state_of history_of d d' \<longleftrightarrow> (\<forall>j. state_of j d' = state_of j d \<and> history_of j d' = history_of j d)"

text \<open>The working copy that the processor goes on with.\<close>

definition keeps_valid :: "('db \<Rightarrow> bool) \<Rightarrow> ('st, 'cs, 'db) handler_run \<Rightarrow> bool" where
  "keeps_valid valid run \<longleftrightarrow>
     (\<forall>o1 txn. hr_result run = Inr o1 \<longrightarrow>
        apply_all (hr_writes run) (case outcome_txn o1 of Some t \<Rightarrow> t | None \<Rightarrow> hr_db run) = Inr txn \<longrightarrow> valid txn)"

lemma same_states_refl: "same_states state_of history_of d d"
  by (simp add: same_states_def)

lemma same_states_trans: "same_states state_of history_of a b \<Longrightarrow> same_states state_of history_of b c \<Longrightarrow> same_states state_of history_of a c"
  by (simp add: same_states_def)

text \<open>
  What the documentation of \<open>StateControllerIO\<close> promises, over three views of the database: the
  controller state of an object with its version, the history of its states, and the outcome of
  its last iteration. The state is written only where the version is still the old one, and a
  rejected write changes nothing. \<open>keep\<close> is what the history retains of its records, and \<open>valid\<close> are
  the constraints of the schema.
\<close>

locale controller_io =
  fixes io :: "('id, 'st, 'cs, 'dt, 'db) state_controller_io"
    and state_of :: "'id \<Rightarrow> 'db \<Rightarrow> ('cs, 'dt) versioned option"
    and history_of :: "'id \<Rightarrow> 'db \<Rightarrow> ('cs, 'dt) versioned list"
    and outcome_of :: "'id \<Rightarrow> 'db \<Rightarrow> persistent_state_handler_outcome option"
    and keep :: "('cs, 'dt) versioned list \<Rightarrow> ('cs, 'dt) versioned list"
    and valid :: "'db \<Rightarrow> bool"
  assumes load_state: "io_load_object_state io i db = Inr (Some st) \<Longrightarrow> io_load_controller_state io i st db = Inr cs \<Longrightarrow>
      state_of i db = Some cs"
    and persist_applied: "valid db \<Longrightarrow> io_persist_controller_state io i old nv s db = Inr (Applied (), db') \<Longrightarrow>
      map_option version (state_of i db) = Some old \<and> state_of i db' = Some \<lparr>value_of = s, version = nv\<rparr> \<and>
      (\<forall>j. j \<noteq> i \<longrightarrow> state_of j db' = state_of j db) \<and> (\<forall>j. history_of j db' = history_of j db)"
    and persist_rejected: "io_persist_controller_state io i old nv s db = Inr (NotApplied r, db') \<Longrightarrow> db' = db"
    and persist_history: "io_persist_state_history io i nv s db = Inr db' \<Longrightarrow>
      (\<forall>j. state_of j db' = state_of j db) \<and> history_of i db' = keep (history_of i db @ [\<lparr>value_of = s, version = nv\<rparr>]) \<and>
      (\<forall>j. j \<noteq> i \<longrightarrow> history_of j db' = history_of j db)"
    and persist_outcome: "io_persist_outcome io i p db = Inr db' \<Longrightarrow>
      (\<forall>j. state_of j db' = state_of j db \<and> history_of j db' = history_of j db) \<and>
      (state_of i db \<noteq> None \<longrightarrow> outcome_of i db' = Some p)"
begin

lemma apply_all_same:
  "(\<forall>w \<in> set ws. \<forall>d d'. w d = Inr d' \<longrightarrow> same_states state_of history_of d d') \<Longrightarrow> apply_all ws d = Inr d' \<Longrightarrow> same_states state_of history_of d d'"
proof (induction ws arbitrary: d)
  case Nil
  then show ?case by (simp add: same_states_refl)
next
  case (Cons w ws)
  then obtain d1 where "w d = Inr d1" "apply_all ws d1 = Inr d'" by (auto split: sum.splits)
  with Cons show ?case using same_states_trans by (metis list.set_intros(1,2))
qed

lemma committed_states:
  assumes "committed E C io i above_sla cs run outcome next_state d" "leaves_state state_of history_of run" "keeps_valid valid run"
  shows "(next_state = None \<longrightarrow> same_states state_of history_of (hr_db run) d) \<and>
    (\<forall>n. next_state = Some n \<longrightarrow> (\<exists>l. outcome = Transition (value_of n) l None) \<and>
       increment C (ev_nanos E) (version cs) = Some (version n) \<and>
       map_option version (state_of i (hr_db run)) = Some (version cs) \<and>
       state_of i d = Some n \<and> history_of i d = keep (history_of i (hr_db run) @ [n]) \<and>
       (\<forall>j. j \<noteq> i \<longrightarrow> state_of j d = state_of j (hr_db run) \<and> history_of j d = history_of j (hr_db run)))"
proof -
  obtain o1 txn txn' where c: "hr_result run = Inr o1" "outcome = replace_txn None o1"
    "apply_all (hr_writes run) (case outcome_txn o1 of Some t \<Rightarrow> t | None \<Rightarrow> hr_db run) = Inr txn"
    "apply_transition E C io i cs (Inr outcome) txn = Inr (next_state, txn')"
    "if is_deleted (Inr outcome) then d = txn'
     else (\<exists>p. from_result (above_sla_outcome above_sla (Inr outcome)) = Some p \<and> io_persist_outcome io i p txn' = Inr d)"
    using assms(1) by (auto simp: committed_def)
  have "same_states state_of history_of (hr_db run) (case outcome_txn o1 of Some t \<Rightarrow> t | None \<Rightarrow> hr_db run)"
    using assms(2) c(1) by (auto simp: leaves_state_def same_states_def split: option.split)
  moreover have "same_states state_of history_of (case outcome_txn o1 of Some t \<Rightarrow> t | None \<Rightarrow> hr_db run) txn"
    using apply_all_same [OF _ c(3)] assms(2) by (simp add: leaves_state_def same_states_def)
  ultimately have 1: "same_states state_of history_of (hr_db run) txn" by (rule same_states_trans)
  have valid: "valid txn" using assms(3) c(1,3) unfolding keeps_valid_def by blast
  have 2: "same_states state_of history_of txn' d"
    using c(5) persist_outcome by (auto simp: same_states_def split: if_splits)
  from apply_transition_Inr [OF c(4)] show ?thesis
  proof (elim disjE conjE exE)
    assume "next_state = None" "txn' = txn"
    then show ?thesis using same_states_trans [OF 1] 2 by simp
  next
    fix s l t nv txn1
    assume a: "Inr outcome = Inr (Transition s l t)" "increment C (ev_nanos E) (version cs) = Some nv"
      "io_persist_controller_state io i (version cs) nv s txn = Inr (Applied (), txn1)"
      "io_persist_state_history io i nv s txn1 = Inr txn'" "next_state = Some \<lparr>value_of = s, version = nv\<rparr>"
    have "t = None" using c(2) a(1) by (metis Inr_inject outcome_txn.simps(2) outcome_txn_replace)
    with a 1 2 persist_applied [OF valid a(3)] persist_history [OF a(4)] show ?thesis by (auto simp: same_states_def)
  qed
qed

text \<open>
  State and history of an object change together or not at all, and only over the version that
  was loaded, whatever calls fail or are cut off.
\<close>

lemma all_or_nothing:
  assumes "loaded_run E io handler i db = Some (cs, run)" "leaves_state state_of history_of run" "keeps_valid valid run"
    and "process_body E C io handler i db = (result, db', M)"
  shows "(cm_next_state M = None \<and> same_states state_of history_of (hr_db run) db') \<or>
    (\<exists>n l t. hr_result run = Inr (Transition (value_of n) l t) \<and>
       increment C (ev_nanos E) (version cs) = Some (version n) \<and>
       map_option version (state_of i (hr_db run)) = Some (version cs) \<and>
       state_of i db' = Some n \<and> history_of i db' = keep (history_of i (hr_db run) @ [n]) \<and>
       (\<forall>j. j \<noteq> i \<longrightarrow> state_of j db' = state_of j (hr_db run) \<and> history_of j db' = history_of j (hr_db run)) \<and>
       (cm_next_state M = Some (value_of n) \<or> ev_await E CommitOutcome = ElapsesAfter))"
  using process_body_cases [OF assms(1,4)]
proof (elim disjE exE conjE)
  fix e assume "db' = hr_db run" "cm_next_state M = None"
  then show ?thesis by (simp add: same_states_refl)
next
  fix outcome next_state
  assume c: "committed E C io i (cm_time_in_state_above_sla M) cs run outcome next_state db'"
    and n: "cm_next_state M = map_option value_of next_state"
  obtain o1 where o1: "hr_result run = Inr o1" "outcome = replace_txn None o1" using c by (auto simp: committed_def)
  show ?thesis using committed_states [OF c assms(2,3)] n o1 by (cases next_state; cases o1) auto
next
  fix outcome next_state
  assume c: "committed E C io i (cm_time_in_state_above_sla M) cs run outcome next_state db'"
    and n: "cm_next_state M = None" "ev_await E CommitOutcome = ElapsesAfter"
  obtain o1 where o1: "hr_result run = Inr o1" "outcome = replace_txn None o1" using c by (auto simp: committed_def)
  show ?thesis using committed_states [OF c assms(2,3)] n o1 by (cases next_state; cases o1) auto
qed (use persist_outcome in \<open>auto simp: same_states_def\<close>)

end

section \<open>Iterations that are invalidated, stuck or counted\<close>

definition is_invalidated :: "state_handler_error \<Rightarrow> bool" where
  "is_invalidated e \<longleftrightarrow> (\<exists>l. e = IterationInvalidated l)"

lemma case_invalidated:
  "(case e of IterationInvalidated l \<Rightarrow> a | _ \<Rightarrow> b) = (if is_invalidated e then a else b)"
  by (cases e) (simp_all add: is_invalidated_def)

lemma above_sla_not_invalidated: "above_sla_outcome b (Inr outcome) = Inl e \<Longrightarrow> \<not> is_invalidated e"
  by (cases b; cases outcome) (auto simp: is_invalidated_def)

lemma process_body_result_error:
  assumes "process_body E C io handler i db = (Inr (Inl e), db', M)"
  shows "\<not> is_invalidated e"
proof (cases "loaded_run E io handler i db")
  case None
  then show ?thesis using process_body_unloaded [OF None assms] by simp
next
  case (Some x)
  obtain cs run where x: "x = (cs, run)" by (cases x)
  from process_body_cases [OF Some [unfolded x] assms] show ?thesis
  proof (elim disjE exE conjE)
    fix outcome next_state
    assume "Inr (Inl e) = Inr (above_sla_outcome (cm_time_in_state_above_sla M) (Inr outcome))"
    then show ?thesis using above_sla_not_invalidated [of "cm_time_in_state_above_sla M" outcome e] by simp
  qed (simp_all add: is_invalidated_def)
qed

lemma process_object_result:
  assumes "process_object E C F hooks recorder io handler i db w r = Some (M, db', w', r')"
    and "process_body E C io handler i db = (result, db1, M1)"
  shows "db' = db1 \<and> cm_next_state M = cm_next_state M1 \<and>
    w' = (case cm_next_state M1 of Some next_state \<Rightarrow> emit hooks (i, next_state) w | None \<Rightarrow> w) \<and>
    (\<not> cm_iteration_invalidated M1 \<longrightarrow> cm_error M1 = None \<longrightarrow> cm_iteration_invalidated M \<longrightarrow>
       cm_error M = None \<and> (\<exists>e. is_invalidated e \<and> (result = Inl (Errored e) \<or> result = Inr (Inl e))))"
proof (cases result)
  case (Inl s)
  then show ?thesis using assms
    by (cases s) (auto simp: process_object_def Let_def bind_eq_Some_conv case_invalidated split: if_splits)
next
  case (Inr q)
  then show ?thesis using assms
    by (cases q) (auto simp: process_object_def Let_def bind_eq_Some_conv case_invalidated split: if_splits)
qed

lemma load_object_metrics:
  "load_object E io i db = (x, M) \<Longrightarrow> \<not> cm_iteration_invalidated M \<and> cm_error M = None"
  by (auto simp: load_object_def no_metrics_def Let_def split: if_splits sum.splits prod.splits)

lemma load_object_not_invalidated:
  "load_object E io i db = (Inl (Errored e), M) \<Longrightarrow> \<not> is_invalidated e"
  by (auto simp: load_object_def phase_defs Let_def is_invalidated_def
      split: if_splits sum.splits prod.splits option.splits fate.splits)

lemma process_body_metrics:
  "process_body E C io handler i db = (result, db', M) \<Longrightarrow> \<not> cm_iteration_invalidated M \<and> cm_error M = None"
  using load_object_metrics [of E io i db]
  by (auto simp: process_body_def Let_def split: prod.splits sum.splits option.splits)


text \<open>A controller over a single number, to run the functions on.\<close>

definition number_chrono :: "int chrono" where
  "number_chrono = \<lparr>timestamp_micros = id, from_timestamp = (\<lambda>s ns. Some (s * 1000000 + int (ns div 1000)))\<rparr>"

definition number_io :: "(unit, unit, nat, int, nat \<times> persistent_state_handler_outcome list) state_controller_io" where
  "number_io = \<lparr>io_show_id = (\<lambda>_. ''x''), io_debug_state = show_nat, io_list_objects = (\<lambda>_. Inr [()]),
     io_load_object_state = (\<lambda>_ _. Inr (Some ())),
     io_load_controller_state = (\<lambda>_ _ db. Inr \<lparr>value_of = fst db, version = \<lparr>version_nr = 1, timestamp = 0\<rparr>\<rparr>),
     io_persist_controller_state = (\<lambda>_ _ _ s db. Inr (Applied (), (s, snd db))),
     io_persist_state_history = (\<lambda>_ _ _ db. Inr db),
     io_persist_outcome = (\<lambda>_ p db. Inr (fst db, snd db @ [p])),
     io_metric_state_names = (\<lambda>s. (show_nat s, [])), io_manual_intervention_reason = (\<lambda>_. None),
     io_state_sla = (\<lambda>cs _. with_sla 10 20)\<rparr>"

definition number_env :: "int env" where
  "number_env = \<lparr>ev_await = (\<lambda>_. Proceeds), ev_deadline = 9, ev_now = 1, ev_nanos = 0, ev_since = (\<lambda>t. 20 - t),
     ev_secs = id, ev_latency = 0, ev_site = \<lparr>loc_file = ''p.rs'', loc_line = 1, loc_column = 1\<rparr>\<rparr>"

definition number_site :: location where
  "number_site = \<lparr>loc_file = ''h.rs'', loc_line = 7, loc_column = 5\<rparr>"

definition number_run :: "state_handler_error + (nat, nat \<times> persistent_state_handler_outcome list) state_handler_outcome
    \<Rightarrow> (unit, unit, nat, nat \<times> persistent_state_handler_outcome list) handler" where
  "number_run result = (\<lambda>_ _ _ db. \<lparr>hr_snapshot = (), hr_result = result, hr_writes = [\<lambda>d. Inr (Suc (fst d), snd d)], hr_db = db\<rparr>)"


text \<open>
  An object that stays in its state for longer than the SLA is reported as an error even though
  its handler only waits: the queued writes of the handler are committed, the stored outcome and the
  metrics hold the error, and a required intervention is not inferred from it.
\<close>

lemma stuck_object_is_reported:
  assumes "\<And>p. ev_await E p = Proceeds" "ev_now E < ev_deadline E"
    and "io_load_object_state io i db = Inr (Some st)" "io_load_controller_state io i st db = Inr cs"
    and "sla_time_in_state_above_sla (io_state_sla io cs st)"
    and "hr_result (handler i st (value_of cs) db) = Inr outcome" "outcome \<in> {Wait reason l t, DoNothing l t}"
    and "apply_all (hr_writes (handler i st (value_of cs) db)) (case t of Some x \<Rightarrow> x | None \<Rightarrow> hr_db (handler i st (value_of cs) db)) = Inr txn"
    and "e = TimeInStateAboveSla (case outcome of Wait reason _ _ \<Rightarrow> ''Wait(\"'' @ reason @ ''\")'' | _ \<Rightarrow> ''DoNothing'')"
    and "io_persist_outcome io i (PError (show_error e) None) txn = Inr db'"
  shows "\<exists>M. process_object E C F hooks None io handler i db w r = Some (M, db', w, r) \<and> cm_error M = Some e \<and>
    cm_next_state M = None \<and> manual_intervention_of None (cm_error M) = NotRequired"
proof -
  let ?run = "handler i st (value_of cs) db"
  obtain M0 where load: "load_object E io i db = (Inr (st, cs), M0)" "cm_time_in_state_above_sla M0" "cm_next_state M0 = None"
    using assms(2-5) by (simp add: load_object_def phase_defs assms(1) no_metrics_def Let_def)
  have o: "replace_txn None outcome \<in> {Wait reason l None, DoNothing l None}" "outcome_txn outcome = t"
    using assms(7) by auto
  have s: "settle E ?run = Inr (Inr (replace_txn None outcome), txn)"
    using assms(6,8) o(2) by (cases t) (simp_all add: settle_def take_transaction_def phase_defs assms(1))
  have a: "apply_transition E C io i cs (Inr (replace_txn None outcome)) txn = Inr (None, txn)"
    using o(1) by (auto simp: apply_transition_def)
  have x: "above_sla_outcome True (Inr (replace_txn None outcome)) = Inl e"
    using assms(7,9) by auto
  have c: "conclude E io i True (Inr (replace_txn None outcome)) txn (hr_db ?run) = (Inr (Inl e), db')"
    using assms(9,10) o(1)
    by (auto simp: conclude_def x persist_outcome_in_def dbc_def assms(1) commit_with_def commit_def Let_def)
  have b: "process_body E C io handler i db = (Inr (Inl e), db', M0)"
    using load by (simp add: process_body_def Let_def s a c attempt_def cut_off_def assms(1))
  have "\<not> is_invalidated e" by (rule process_body_result_error [OF b])
  then show ?thesis
    using load(3) assms(9) by (simp add: process_object_def b Let_def case_invalidated)
qed

lemma stuck_object_is_reported_witness:
  "\<exists>M. process_object number_env number_chrono int_conv [] None number_io (number_run (Inr (DoNothing number_site None))) () (4, []) () three_gauges
     = Some (M, (5, [PError (show_error (TimeInStateAboveSla ''DoNothing'')) None]), (), three_gauges) \<and>
    cm_error M = Some (TimeInStateAboveSla ''DoNothing'')"
  using stuck_object_is_reported [of number_env number_io "()" "(4, [])" "()"
      "\<lparr>value_of = 4, version = \<lparr>version_nr = 1, timestamp = 0\<rparr>\<rparr>" "number_run (Inr (DoNothing number_site None))"
      "DoNothing number_site None" "[]" number_site None "(5, [])" "TimeInStateAboveSla ''DoNothing''"
      "(5, [PError (show_error (TimeInStateAboveSla ''DoNothing'')) None])" number_chrono int_conv "[]" "()" three_gauges]
  by (auto simp: number_env_def number_io_def number_run_def with_sla_def simp del: show_error.simps)

lemma sum_bump: "sum_list (map snd (bump k n m)) = sum_list (map snd m) + n"
  by (induction m) (auto simp: bump_def)

lemma sum_on_entry:
  fixes g :: "state_metrics \<Rightarrow> nat"
  assumes "\<And>sm. g (f sm) = g sm + n" "g no_state_metrics = 0"
  shows "sum_list (map (\<lambda>e. g (snd e)) (on_entry k f m)) = sum_list (map (\<lambda>e. g (snd e)) m) + n"
  using assms by (induction m) (auto simp: on_entry_def)

lemma all_on_entry:
  assumes "\<And>sm. P sm \<Longrightarrow> P (f sm)" "P no_state_metrics"
  shows "list_all (\<lambda>e. P (snd e)) m \<Longrightarrow> list_all (\<lambda>e. P (snd e)) (on_entry k f m)"
  using assms by (induction m) (auto simp: on_entry_def)

definition total_errors :: "(full_state \<times> state_metrics) list \<Rightarrow> nat" where
  "total_errors m = sum_list (map (\<lambda>e. sum_list (map snd (sm_handling_errors_per_type (snd e)))) m)"

definition sla_counts_ok :: "(full_state \<times> state_metrics) list \<Rightarrow> bool" where
  "sla_counts_ok m \<longleftrightarrow> list_all (\<lambda>e. sm_num_objects_above_sla (snd e) \<le> sm_num_objects (snd e)) m"

lemma merge_object_counts:
  "total_objects (merge_object_handling_metrics names om m) = total_objects m + 1 \<and>
   total_errors (merge_object_handling_metrics names om m) = total_errors m + (if cm_error om = None then 0 else 1) \<and>
   (sla_counts_ok m \<longrightarrow> sla_counts_ok (merge_object_handling_metrics names om m))"
proof -
  define first where "first = (\<lambda>sm :: state_metrics. let sm = (case cm_error om of
      Some e \<Rightarrow> sm\<lparr>sm_handling_errors_per_type := bump (metric_label e) 1 (sm_handling_errors_per_type sm)\<rparr> | None \<Rightarrow> sm)
    in if cm_next_state om = None
       then sm\<lparr>sm_num_objects := sm_num_objects sm + 1,
               sm_num_objects_above_sla := sm_num_objects_above_sla sm + (if cm_time_in_state_above_sla om then 1 else 0)\<rparr>
       else sm)"
  define second where "second = (\<lambda>sm :: state_metrics. sm\<lparr>sm_num_objects := sm_num_objects sm + 1\<rparr>)"
  have eq: "merge_object_handling_metrics names om m =
      (let m = on_entry (case cm_initial_state om of Some s \<Rightarrow> names s | None \<Rightarrow> (''unknown'', [])) first m
       in case cm_next_state om of Some n \<Rightarrow> on_entry (names n) second m | None \<Rightarrow> m)"
    unfolding merge_object_handling_metrics_def first_def second_def Let_def ..
  have 1: "sm_num_objects (first sm) = sm_num_objects sm + (if cm_next_state om = None then 1 else 0)"
    "sum_list (map snd (sm_handling_errors_per_type (first sm))) = sum_list (map snd (sm_handling_errors_per_type sm)) +
       (if cm_error om = None then 0 else 1)"
    "sm_num_objects_above_sla sm \<le> sm_num_objects sm \<Longrightarrow> sm_num_objects_above_sla (first sm) \<le> sm_num_objects (first sm)" for sm
    by (auto simp: first_def Let_def sum_bump split: option.split)
  have 2: "sm_num_objects (second sm) = sm_num_objects sm + 1"
    "sum_list (map snd (sm_handling_errors_per_type (second sm))) = sum_list (map snd (sm_handling_errors_per_type sm)) + 0"
    "sm_num_objects_above_sla sm \<le> sm_num_objects sm \<Longrightarrow> sm_num_objects_above_sla (second sm) \<le> sm_num_objects (second sm)" for sm
    by (simp_all add: second_def)
  note sums = sum_on_entry [of sm_num_objects, OF 1(1)] sum_on_entry [of sm_num_objects, OF 2(1)]
    sum_on_entry [of "\<lambda>sm. sum_list (map snd (sm_handling_errors_per_type sm))", OF 1(2)]
    sum_on_entry [of "\<lambda>sm. sum_list (map snd (sm_handling_errors_per_type sm))", OF 2(2)]
    all_on_entry [of "\<lambda>sm. sm_num_objects_above_sla sm \<le> sm_num_objects sm", OF 1(3)]
    all_on_entry [of "\<lambda>sm. sm_num_objects_above_sla sm \<le> sm_num_objects sm", OF 2(3)]
  show ?thesis
    by (cases "cm_next_state om") (simp_all add: eq total_objects_def total_errors_def sla_counts_ok_def no_state_metrics_def sums)
qed

text \<open>
  C36: the published counts of an iteration add up: every merged object is counted in exactly one
  state, every failed one once as an error, and no state has more objects above its SLA than objects.
\<close>

theorem iteration_counts_add_up:
  fixes metrics :: "('cs, 'dt) common_object_handler_metrics list" and names :: "'cs \<Rightarrow> string \<times> string"
  defines "m \<equiv> fold (merge_object_handling_metrics names) metrics []"
  shows "total_objects m = length metrics \<and> total_errors m = length (filter (\<lambda>om. cm_error om \<noteq> None) metrics) \<and> sla_counts_ok m"
  unfolding m_def
proof (induction metrics rule: rev_induct)
  case Nil
  then show ?case by (simp add: total_objects_def total_errors_def sla_counts_ok_def)
next
  case (snoc om metrics)
  then show ?case using merge_object_counts [of names om "fold (merge_object_handling_metrics names) metrics []"] by simp
qed

end
