(* ===== verification/Network_Segment.thy ===== *)
theory Network_Segment
  imports State_Handler Ip_Allocator
begin

text \<open>
  Network segments as the services see them (\<open>crates/api-model/src/network_segment\<close>,
  \<open>network_prefix.rs\<close>): the states of their controller, their definition in the configuration
  file, and what can be told from a segment alone.

  Ids are their text. Times are of the type \<open>DateTime\<close> of the \<open>chrono\<close> package, a type variable; the
  time since a time stamp, in nanoseconds, is an argument. Networks are as in the theory of
  the allocator.
\<close>

section \<open>States\<close>

datatype 'dt deletion_state = DrainAllocatedIps 'dt | DBDelete

datatype 'dt segment_state = Provisioning | Ready | Deleting "'dt deletion_state"

datatype segment_type = Tenant | Admin | Underlay | HostInband

fun is_tenant :: "segment_type \<Rightarrow> bool" where
  "is_tenant Tenant \<longleftrightarrow> True"
| "is_tenant HostInband \<longleftrightarrow> True"
| "is_tenant _ \<longleftrightarrow> False"

fun show_segment_type :: "segment_type \<Rightarrow> string" where
  "show_segment_type Tenant = ''tenant''"
| "show_segment_type Admin = ''admin''"
| "show_segment_type Underlay = ''tor''"
| "show_segment_type HostInband = ''host_inband''"

datatype model_error = ModelInvalidArgument string | DatabaseTypeConversionError string

definition parse_segment_type :: "string \<Rightarrow> model_error + segment_type" where
  "parse_segment_type s =
     (if s = ''tenant'' then Inr Tenant
      else if s = ''admin'' then Inr Admin
      else if s = ''tor'' then Inr Underlay
      else if s = ''host_inband'' then Inr HostInband
      else Inl (DatabaseTypeConversionError (''Invalid segment type '' @ s @ '' reveived from Database.'')))"

datatype allocation_strategy = Dynamic | Reserved

definition SLA_PROVISIONING :: nat where "SLA_PROVISIONING = 15 * 60 * 1000000000"

definition SLA_DELETING_DBDELETE :: nat where "SLA_DELETING_DBDELETE = 15 * 60 * 1000000000"

text \<open>Negative durations do not convert to the unsigned type and count as a day.\<close>

definition segment_state_sla :: "('dt \<Rightarrow> int) \<Rightarrow> ('dt segment_state, 'dt) versioned \<Rightarrow> state_sla" where
  "segment_state_sla since cs =
     (let s = since (timestamp (version cs));
          time_in_state = (if s < 0 then 60 * 60 * 24 * 1000000000 else nat s)
      in case value_of cs of
           Provisioning \<Rightarrow> with_sla SLA_PROVISIONING time_in_state
         | Ready \<Rightarrow> no_sla
         | Deleting (DrainAllocatedIps _) \<Rightarrow> no_sla
         | Deleting DBDelete \<Rightarrow> with_sla SLA_DELETING_DBDELETE time_in_state)"

section \<open>Segments and their prefixes\<close>

record 'n network_prefix =
  np_id :: string
  np_segment_id :: string
  np_prefix :: 'n
  np_gateway :: "ip_addr option"
  np_dhcpv6_link_address :: "ip_addr option"
  np_num_reserved :: int
  np_vpc_prefix_id :: "string option"
  np_vpc_prefix :: "'n option"
  np_svi_ip :: "ip_addr option"
  np_num_free_ips :: "nat option"

record 'n new_network_prefix =
  nnp_prefix :: 'n
  nnp_gateway :: "ip_addr option"
  nnp_dhcpv6_link_address :: "ip_addr option"
  nnp_num_reserved :: int

definition to_new_prefix :: "'n network_prefix \<Rightarrow> 'n new_network_prefix" where
  "to_new_prefix p = \<lparr>nnp_prefix = np_prefix p, nnp_gateway = np_gateway p,
     nnp_dhcpv6_link_address = np_dhcpv6_link_address p, nnp_num_reserved = np_num_reserved p\<rparr>"

record segment_config =
  sc_name :: string
  sc_subdomain_id :: "string option"
  sc_mtu :: int
  sc_segment_type :: segment_type
  sc_allocation_strategy :: allocation_strategy
  sc_infer_slaac_eui64_addresses :: bool
  sc_vpc_id :: "string option"

record 'dt segment_status =
  ss_controller_state :: "('dt segment_state, 'dt) versioned"
  ss_controller_state_outcome :: "persistent_state_handler_outcome option"
  ss_history :: "('dt segment_state, 'dt) versioned list"
  ss_vlan_id :: "int option"
  ss_vni :: "int option"
  ss_can_stretch :: "bool option"

record ('n, 'dt) network_segment =
  ns_id :: string
  ns_version :: "'dt config_version"
  ns_config :: segment_config
  ns_status :: "'dt segment_status"
  ns_prefixes :: "'n network_prefix list"
  ns_created :: 'dt
  ns_updated :: 'dt
  ns_deleted :: "'dt option"

definition is_marked_as_deleted :: "('n, 'dt) network_segment \<Rightarrow> bool" where
  "is_marked_as_deleted s \<longleftrightarrow> ns_deleted s \<noteq> None"

definition slaac_eui64_inference_prefix :: "'n network_ops \<Rightarrow> ('n, 'dt) network_segment \<Rightarrow> 'n option" where
  "slaac_eui64_inference_prefix N s =
     (if \<not> sc_infer_slaac_eui64_addresses (ns_config s) \<or> sc_allocation_strategy (ns_config s) = Reserved then None
      else
        (case filter (\<lambda>p. nw_family N (np_prefix p) = ip_address_family.Ipv6) (ns_prefixes s) of
           [] \<Rightarrow> None
         | p # rest \<Rightarrow> if rest \<noteq> [] \<or> nw_prefix N (np_prefix p) \<noteq> 64 then None else Some (np_prefix p)))"

section \<open>Definitions in the configuration file\<close>

datatype definition_segment_type = DefAdmin | DefUnderlay | DefHostInband

fun from_definition_type :: "definition_segment_type \<Rightarrow> segment_type" where
  "from_definition_type DefAdmin = Admin"
| "from_definition_type DefUnderlay = Underlay"
| "from_definition_type DefHostInband = HostInband"

record 'n network_definition =
  nd_segment_type :: definition_segment_type
  nd_prefix :: 'n
  nd_prefix_v6 :: "'n option"
  nd_gateway :: "ip_addr option"
  nd_dhcpv6_link_address :: "ip_addr option"
  nd_mtu :: int
  nd_reserve_first :: int
  nd_allocation_strategy :: allocation_strategy
  nd_infer_slaac_eui64_addresses :: bool
  nd_vpc_name :: "string option"

definition MTU_MIN :: int where "MTU_MIN = 576"

definition MTU_MAX :: int where "MTU_MAX = 9000"

text \<open>The error is the message of \<open>InvalidValue\<close>.\<close>

definition validate_definition :: "'n network_ops \<Rightarrow> string \<Rightarrow> 'n network_definition \<Rightarrow> string + unit" where
  "validate_definition N name d =
     (let network = ''network \"'' @ name @ ''\": '' in
      if nd_mtu d < MTU_MIN \<or> nd_mtu d > MTU_MAX then
        Inl (network @ ''mtu '' @ show_int (nd_mtu d) @ '' is out of range ('' @ show_int MTU_MIN @ ''-'' @ show_int MTU_MAX @ '')'')
      else if nw_family N (nd_prefix d) = ip_address_family.Ipv4 \<and> nd_gateway d = None then
        Inl (network @ ''gateway is required for an IPv4 prefix'')
      else if nd_reserve_first d < 0 then
        Inl (network @ ''reserve_first must be non-negative, got '' @ show_int (nd_reserve_first d))
      else Inr ())"

record 'n new_network_segment =
  nn_id :: string
  nn_name :: string
  nn_subdomain_id :: "string option"
  nn_vpc_id :: "string option"
  nn_mtu :: int
  nn_prefixes :: "'n new_network_prefix list"
  nn_vlan_id :: "int option"
  nn_vni :: "int option"
  nn_segment_type :: segment_type
  nn_can_stretch :: "bool option"
  nn_allocation_strategy :: allocation_strategy
  nn_infer_slaac_eui64_addresses :: bool

text \<open>The rows a definition expands to: its prefix, and the IPv6 one of a dual-stack segment.\<close>

definition definition_prefixes :: "'n network_ops \<Rightarrow> 'n network_definition \<Rightarrow> 'n new_network_prefix list" where
  "definition_prefixes N d =
     (let v6 = (nw_family N (nd_prefix d) = ip_address_family.Ipv6) in
      \<lparr>nnp_prefix = nd_prefix d, nnp_gateway = (if v6 then None else nd_gateway d),
       nnp_dhcpv6_link_address = (if v6 then nd_dhcpv6_link_address d else None),
       nnp_num_reserved = nd_reserve_first d\<rparr> #
      (case nd_prefix_v6 d of
         Some p \<Rightarrow> [\<lparr>nnp_prefix = p, nnp_gateway = None, nnp_dhcpv6_link_address = nd_dhcpv6_link_address d,
                     nnp_num_reserved = nd_reserve_first d\<rparr>]
       | None \<Rightarrow> []))"

text \<open>\<open>uuid\<close> is the fresh id.\<close>

definition build_from ::
    "'n network_ops \<Rightarrow> string \<Rightarrow> string \<Rightarrow> string \<Rightarrow> 'n network_definition \<Rightarrow> model_error + 'n new_network_segment" where
  "build_from N uuid name domain_id d =
     (case validate_definition N name d of
        Inl e \<Rightarrow> Inl (ModelInvalidArgument (''invalid value: '' @ e))
      | Inr _ \<Rightarrow>
          if (\<exists>p \<in> set_option (nd_prefix_v6 d). nw_family N p \<noteq> ip_address_family.Ipv6) then
            Inl (ModelInvalidArgument ''NetworkDefinition.prefix_v6 must be an IPv6 prefix.'')
          else if (\<exists>a \<in> set_option (nd_dhcpv6_link_address d). addr_family a \<noteq> ip_address_family.Ipv6) then
            Inl (ModelInvalidArgument ''NetworkDefinition.dhcpv6_link_address must be an IPv6 address.'')
          else if (\<exists>p \<in> set_option (nd_prefix_v6 d).
              (nw_family N (nd_prefix d) = ip_address_family.Ipv6) = (nw_family N p = ip_address_family.Ipv6)) then
            Inl (ModelInvalidArgument
              ''NetworkDefinition cannot contain more than one prefix from the same address family.'')
          else if nw_family N (nd_prefix d) = ip_address_family.Ipv4 \<and> nd_prefix_v6 d = None \<and> nd_dhcpv6_link_address d \<noteq> None then
            Inl (ModelInvalidArgument ''NetworkDefinition.dhcpv6_link_address requires an IPv6 prefix.'')
          else
            Inr \<lparr>nn_id = uuid, nn_name = name, nn_subdomain_id = Some domain_id, nn_vpc_id = None, nn_mtu = nd_mtu d,
                 nn_prefixes = definition_prefixes N d, nn_vlan_id = None, nn_vni = None,
                 nn_segment_type = from_definition_type (nd_segment_type d), nn_can_stretch = None,
                 nn_allocation_strategy = nd_allocation_strategy d,
                 nn_infer_slaac_eui64_addresses = nd_infer_slaac_eui64_addresses d\<rparr>)"

end
