(* ===== verification/Segment_Db.thy ===== *)
theory Segment_Db
  imports Network_Segment Resource_Pool
begin

text \<open>
  The tables of network segments and the statements on them (\<open>crates/api-db/src/network_segment.rs\<close>, and
  the parts of \<open>network_prefix.rs\<close>, \<open>state_history.rs\<close>, \<open>instance_address.rs\<close>, \<open>machine_interface.rs\<close>
  and \<open>instance.rs\<close> that they call).

  A table is the list of its rows in the order the database returns them. Each function that
  writes returns the working copy it leaves. \<open>NOW()\<close> is an argument. Table locks are left out: they
  serialize transactions, which the working copies are already. A failing connection is not represented
  here; the processor and the handler add it around these calls. An outer \<open>None\<close> is a panic.
\<close>

section \<open>Tables\<close>

record 'dt segment_row =
  sr_id :: string
  sr_name :: string
  sr_subdomain_id :: "string option"
  sr_vpc_id :: "string option"
  sr_mtu :: int
  sr_version :: "'dt config_version"
  sr_controller_state :: "('dt segment_state, 'dt) versioned"
  sr_controller_state_outcome :: "persistent_state_handler_outcome option"
  sr_vlan_id :: "int option"
  sr_vni_id :: "int option"
  sr_network_segment_type :: segment_type
  sr_can_stretch :: "bool option"
  sr_allocation_strategy :: allocation_strategy
  sr_infer_slaac_eui64_addresses :: bool
  sr_created :: 'dt
  sr_updated :: 'dt
  sr_deleted :: "'dt option"

record interface_row =
  mi_machine_id :: "string option"
  mi_segment_id :: string
  mi_interface_type :: string

record 'n instance_address_row =
  ia_segment_id :: string
  ia_address :: ip_addr
  ia_prefix :: 'n

text \<open>Of a network configuration, the segment ids of its interfaces.\<close>

record instance_network_config =
  ic_interfaces :: "string option list"
  ic_service_interfaces :: "string option list"

record instance_row =
  in_network_config :: instance_network_config
  in_update_request :: "(instance_network_config \<times> instance_network_config) option"

record ('n, 'dt) segment_db =
  db_segments :: "'dt segment_row list"
  db_prefixes :: "'n network_prefix list"
  db_history :: "(string \<times> ('dt segment_state, 'dt) versioned) list"
  db_defs :: "(string \<times> string \<times> 'n network_definition) list"
  db_interfaces :: "interface_row list"
  db_interface_addresses :: "ip_addr list"
  db_instance_addresses :: "'n instance_address_row list"
  db_instances :: "instance_row list"
  db_machines :: "string list"
  db_vpcs :: "(string \<times> string) list"
  db_pools :: pool_table

text \<open>
  Errors. \<open>DbSqlx\<close> has the operation and the error of \<open>sqlx\<close>; \<open>site\<close> gives the source position and the
  statement of an operation as the message shows them.
\<close>

datatype seg_error =
    DbSqlx string string
  | DbAlloc alloc_error
  | DbInvalidArgument string
  | DbNetworkSegmentDelete string
  | DbConcurrentModification string string
  | DbNotFound string string
  | DbReport string

fun show_seg_error :: "(string \<Rightarrow> string) \<Rightarrow> seg_error \<Rightarrow> string" where
  "show_seg_error site (DbSqlx op e) = ''Database Error: '' @ e @ '' '' @ site op @ ''.''"
| "show_seg_error site (DbAlloc e) = show_alloc_error e"
| "show_seg_error site (DbInvalidArgument e) = ''argument is invalid: '' @ e"
| "show_seg_error site (DbNetworkSegmentDelete e) = ''network has attached VPC or subdomain : '' @ e"
| "show_seg_error site (DbConcurrentModification kind v) =
     ''an object of type '' @ kind @ '' was intended to be modified did not have the expected version '' @ v"
| "show_seg_error site (DbNotFound kind i) = kind @ '' not found: '' @ i"
| "show_seg_error site (DbReport e) = ''generic error from report: '' @ e"

definition row_not_found :: "string \<Rightarrow> seg_error" where
  "row_not_found op = DbSqlx op ''no rows returned by a query that expected to return at least one row''"

text \<open>\<open>Display\<close> of \<open>sqlx::Error::Io\<close>.\<close>

definition io_error :: "string \<Rightarrow> string" where
  "io_error m = ''error communicating with database: '' @ m"

text \<open>A fallible step for every element, stopping at the first error.\<close>

fun each :: "('a \<Rightarrow> 'e + 'b) \<Rightarrow> 'a list \<Rightarrow> 'e + 'b list" where
  "each f [] = Inr []"
| "each f (x # xs) = attempt (f x) (\<lambda>y. attempt (each f xs) (\<lambda>ys. Inr (y # ys)))"

text \<open>\<open>address <<= prefix\<close> of the database, for an address.\<close>

definition in_cidr :: "'n network_ops \<Rightarrow> 'n \<Rightarrow> ip_addr \<Rightarrow> bool" where
  "in_cidr N n a \<longleftrightarrow> addr_family a = nw_family N n \<and>
     addr_val (nw_network N n) \<le> addr_val a \<and> addr_val a \<le> addr_val (nw_broadcast N n)"

section \<open>Allocations on a segment\<close>

definition machine_interface_count :: "string \<Rightarrow> ('n, 'dt) segment_db \<Rightarrow> nat" where
  "machine_interface_count sid db = length (filter (\<lambda>m. mi_segment_id m = sid) (db_interfaces db))"

definition instance_address_count :: "string \<Rightarrow> ('n, 'dt) segment_db \<Rightarrow> nat" where
  "instance_address_count sid db = length (filter (\<lambda>a. ia_segment_id a = sid) (db_instance_addresses db))"

text \<open>The current configuration and both of a pending update can hold resources.\<close>

definition network_configs :: "instance_row \<Rightarrow> instance_network_config list" where
  "network_configs i = in_network_config i #
     (case in_update_request i of Some (old_config, new_config) \<Rightarrow> [old_config, new_config] | None \<Rightarrow> [])"

definition references_segment :: "string \<Rightarrow> instance_row \<Rightarrow> bool" where
  "references_segment sid i \<longleftrightarrow>
     (\<exists>c \<in> set (network_configs i). Some sid \<in> set (ic_interfaces c @ ic_service_interfaces c))"

definition segment_reference_count :: "string \<Rightarrow> ('n, 'dt) segment_db \<Rightarrow> nat" where
  "segment_reference_count sid db = length (filter (references_segment sid) (db_instances db))"

definition segment_has_allocations :: "string \<Rightarrow> ('n, 'dt) segment_db \<Rightarrow> bool" where
  "segment_has_allocations sid db \<longleftrightarrow>
     (\<exists>m \<in> set (db_interfaces db). mi_segment_id m = sid) \<or>
     (\<exists>a \<in> set (db_instance_addresses db). ia_segment_id a = sid) \<or>
     (\<exists>i \<in> set (db_instances db). references_segment sid i)"

section \<open>Snapshots\<close>

definition segment_prefixes :: "string \<Rightarrow> ('n, 'dt) segment_db \<Rightarrow> 'n network_prefix list" where
  "segment_prefixes sid db = filter (\<lambda>p. np_segment_id p = sid) (db_prefixes db)"

definition segment_history :: "string \<Rightarrow> ('n, 'dt) segment_db \<Rightarrow> ('dt segment_state, 'dt) versioned list" where
  "segment_history sid db = map snd (filter (\<lambda>h. fst h = sid) (db_history db))"

definition snapshot :: "bool \<Rightarrow> ('n, 'dt) segment_db \<Rightarrow> 'dt segment_row \<Rightarrow> ('n, 'dt) network_segment" where
  "snapshot include_history db r =
     \<lparr>ns_id = sr_id r, ns_version = sr_version r,
      ns_config = \<lparr>sc_name = sr_name r, sc_subdomain_id = sr_subdomain_id r, sc_mtu = sr_mtu r,
        sc_segment_type = sr_network_segment_type r, sc_allocation_strategy = sr_allocation_strategy r,
        sc_infer_slaac_eui64_addresses = sr_infer_slaac_eui64_addresses r, sc_vpc_id = sr_vpc_id r\<rparr>,
      ns_status = \<lparr>ss_controller_state = sr_controller_state r,
        ss_controller_state_outcome = sr_controller_state_outcome r,
        ss_history = (if include_history then segment_history (sr_id r) db else []),
        ss_vlan_id = sr_vlan_id r, ss_vni = sr_vni_id r, ss_can_stretch = sr_can_stretch r\<rparr>,
      ns_prefixes = map (np_num_free_ips_update (\<lambda>_. None)) (segment_prefixes (sr_id r) db),
      ns_created = sr_created r, ns_updated = sr_updated r, ns_deleted = sr_deleted r\<rparr>"

text \<open>The addresses of a segment in use: \<open>used_prefixes\<close> of the two resolvers.\<close>

definition overlay_used_prefixes :: "string \<Rightarrow> ip_addr list \<Rightarrow> ('n, 'dt) segment_db \<Rightarrow> seg_error + 'n list" where
  "overlay_used_prefixes sid busy_ips db =
     Inr (map ia_prefix (filter (\<lambda>a. ia_segment_id a = sid \<and> (\<exists>r \<in> set (db_segments db). sr_id r = sid))
       (db_instance_addresses db)))"

definition admin_used_ips :: "'n network_ops \<Rightarrow> string \<Rightarrow> ip_addr list \<Rightarrow> ('n, 'dt) segment_db \<Rightarrow> ip_addr list" where
  "admin_used_ips N sid busy_ips db =
     concat (map (\<lambda>p. filter (in_cidr N (np_prefix p)) (db_interface_addresses db)) (segment_prefixes sid db)) @ busy_ips"

definition admin_used_prefixes :: "'n network_ops \<Rightarrow> string \<Rightarrow> ip_addr list \<Rightarrow> ('n, 'dt) segment_db \<Rightarrow> seg_error + 'n list" where
  "admin_used_prefixes N sid busy_ips db =
     map_sum (\<lambda>e. case e of NetworkParseError m \<Rightarrow> DbSqlx ''machine_interface.used_prefixes'' (io_error m) | _ \<Rightarrow> DbAlloc e) id
       (host_networks N (admin_used_ips N sid busy_ips db))"

text \<open>\<open>IpAllocator::new\<close> with what its resolver returned.\<close>

definition new_allocator :: "('n, 'dt) network_segment \<Rightarrow> 'n list \<Rightarrow> address_selection_strategy \<Rightarrow> 'n ip_allocator" where
  "new_allocator s used_ips strategy =
     \<lparr>al_prefixes = map (\<lambda>p. \<lparr>ap_id = np_id p, ap_prefix = np_prefix p, ap_gateway = np_gateway p,
        ap_num_reserved = np_num_reserved p\<rparr>) (ns_prefixes s),
      al_used_ips = used_ips, al_address_strategy = strategy\<rparr>"

definition busy_svi_ips :: "('n, 'dt) network_segment \<Rightarrow> ip_addr list" where
  "busy_svi_ips s = List.map_filter np_svi_ip (ns_prefixes s)"

definition segment_used_prefixes :: "'n network_ops \<Rightarrow> ('n, 'dt) network_segment \<Rightarrow> ip_addr list \<Rightarrow> ('n, 'dt) segment_db
    \<Rightarrow> seg_error + 'n list" where
  "segment_used_prefixes N s busy_ips db =
     (if is_tenant (sc_segment_type (ns_config s)) then overlay_used_prefixes (ns_id s) busy_ips db
      else admin_used_prefixes N (ns_id s) busy_ips db)"

definition update_num_free_ips ::
    "(string \<Rightarrow> string) \<Rightarrow> 'n::linorder network_ops \<Rightarrow> ('n, 'dt) segment_db \<Rightarrow> ('n, 'dt) network_segment
     \<Rightarrow> seg_error + ('n, 'dt) network_segment" where
  "update_num_free_ips site N db s =
     (if ns_prefixes s = [] then Inr s
      else attempt (case segment_used_prefixes N s (busy_svi_ips s) db of
                      Inl e \<Rightarrow> Inl (DbSqlx ''IpAllocator.new error'' (io_error (show_seg_error site e)))
                    | Inr used \<Rightarrow> Inr (new_allocator s used NextAvailableIp)) (\<lambda>allocator.
           attempt (each (\<lambda>p. case num_free N allocator (np_id p) of
                      Inl e \<Rightarrow> Inl (DbSqlx ''IpAllocator.num_free error'' (io_error (show_alloc_error e)))
                    | Inr n \<Rightarrow> Inr (p\<lparr>np_num_free_ips := Some n\<rparr>)) (ns_prefixes s)) (\<lambda>ps.
           Inr (s\<lparr>ns_prefixes := ps\<rparr>))))"

text \<open>\<open>ObjectColumnFilter\<close> is a predicate on rows.\<close>

definition find_by ::
    "(string \<Rightarrow> string) \<Rightarrow> 'n::linorder network_ops \<Rightarrow> ('dt segment_row \<Rightarrow> bool) \<Rightarrow> bool \<Rightarrow> bool \<Rightarrow> ('n, 'dt) segment_db
     \<Rightarrow> seg_error + ('n, 'dt) network_segment list" where
  "find_by site N P include_history include_num_free_ips db =
     (let records = map (snapshot include_history db) (filter P (db_segments db))
      in if include_num_free_ips then each (update_num_free_ips site N db) records else Inr records)"

section \<open>Queries\<close>

definition with_id :: "string \<Rightarrow> 'dt segment_row \<Rightarrow> bool" where
  "with_id sid r \<longleftrightarrow> sr_id r = sid"

definition list_segment_ids :: "segment_type option \<Rightarrow> ('n, 'dt) segment_db \<Rightarrow> string list" where
  "list_segment_ids ty db =
     map sr_id (filter (\<lambda>r. case ty of Some t \<Rightarrow> sr_network_segment_type r = t | None \<Rightarrow> True) (db_segments db))"

definition find_segment_ids :: "string option \<Rightarrow> string option \<Rightarrow> ('n, 'dt) segment_db \<Rightarrow> string list" where
  "find_segment_ids tenant_org_id name db =
     map sr_id (filter (\<lambda>r. (case tenant_org_id of
           Some org \<Rightarrow> (\<exists>v \<in> set (db_vpcs db). sr_vpc_id r = Some (fst v) \<and> snd v = org) | None \<Rightarrow> True) \<and>
         (case name of Some n \<Rightarrow> sr_name r = n | None \<Rightarrow> True)) (db_segments db))"

definition for_vpc :: "string \<Rightarrow> ('n, 'dt) segment_db \<Rightarrow> ('n, 'dt) network_segment list" where
  "for_vpc vpc_id db = map (snapshot False db) (filter (\<lambda>r. sr_vpc_id r = Some vpc_id) (db_segments db))"

text \<open>A relay address belongs to a segment by its prefixes or as the DHCPv6 link address of one.\<close>

definition link_match :: "ip_addr list \<Rightarrow> ('n, 'dt) segment_db \<Rightarrow> 'dt segment_row \<Rightarrow> bool" where
  "link_match relays db r \<longleftrightarrow>
     (\<exists>p \<in> set (segment_prefixes (sr_id r) db). \<exists>a \<in> set relays. np_dhcpv6_link_address p = Some a)"

definition prefix_match :: "'n network_ops \<Rightarrow> ip_addr list \<Rightarrow> ('n, 'dt) segment_db \<Rightarrow> 'dt segment_row \<Rightarrow> bool" where
  "prefix_match N relays db r \<longleftrightarrow>
     (\<exists>p \<in> set (segment_prefixes (sr_id r) db). \<exists>a \<in> set relays. in_cidr N (np_prefix p) a)"

definition relay_rows :: "'n network_ops \<Rightarrow> ip_addr list \<Rightarrow> ('dt segment_row \<Rightarrow> bool) \<Rightarrow> ('n, 'dt) segment_db \<Rightarrow> 'dt segment_row list" where
  "relay_rows N relays P db =
     (let rows = sort_key sr_id (filter (\<lambda>r. (prefix_match N relays db r \<or> link_match relays db r) \<and> P r) (db_segments db))
      in filter (link_match relays db) rows @ filter (\<lambda>r. \<not> link_match relays db r) rows)"

definition for_relay_all :: "'n network_ops \<Rightarrow> ip_addr list \<Rightarrow> ('n, 'dt) segment_db \<Rightarrow> ('n, 'dt) network_segment list" where
  "for_relay_all N relays db = map (snapshot False db) (relay_rows N relays (\<lambda>_. True) db)"

definition for_segment_type_all ::
    "'n network_ops \<Rightarrow> ip_addr list \<Rightarrow> segment_type \<Rightarrow> ('n, 'dt) segment_db \<Rightarrow> ('n, 'dt) network_segment list" where
  "for_segment_type_all N relays ty db =
     map (snapshot False db) (relay_rows N relays (\<lambda>r. sr_network_segment_type r = ty) db)"

definition for_relay ::
    "'n network_ops \<Rightarrow> ip_addr \<Rightarrow> ('n, 'dt) segment_db \<Rightarrow> seg_error + ('n, 'dt) network_segment option" where
  "for_relay N relay db =
     (case for_relay_all N [relay] db of
        [] \<Rightarrow> Inr None
      | [s] \<Rightarrow> Inr (Some s)
      | results \<Rightarrow>
          (case find (\<lambda>s. \<exists>p \<in> set (ns_prefixes s). np_dhcpv6_link_address p = Some relay) results of
             Some s \<Rightarrow> Inr (Some s)
           | None \<Rightarrow> Inl (DbAlloc (Internal (''Multiple network segments defined for relay address '' @ show_addr relay)))))"

definition for_prefix_containing_address ::
    "'n network_ops \<Rightarrow> ip_addr \<Rightarrow> ('n, 'dt) segment_db \<Rightarrow> seg_error + ('n, 'dt) network_segment option" where
  "for_prefix_containing_address N address db =
     (case map (snapshot False db) (sort_key sr_id (filter (prefix_match N [address] db) (db_segments db))) of
        [] \<Rightarrow> Inr None
      | [s] \<Rightarrow> Inr (Some s)
      | _ \<Rightarrow> Inl (DbAlloc (Internal (''Multiple network segments contain address '' @ show_addr address))))"

definition for_managed_static_address ::
    "'n network_ops \<Rightarrow> ip_addr \<Rightarrow> segment_type option \<Rightarrow> ('n, 'dt) segment_db \<Rightarrow> seg_error + ('n, 'dt) network_segment" where
  "for_managed_static_address N address expected db =
     attempt (for_prefix_containing_address N address db) (\<lambda>found.
       case found of
         None \<Rightarrow> Inl (DbInvalidArgument (case expected of
             Some t \<Rightarrow> ''fixed IP '' @ show_addr address @ '' is not within a configured '' @ show_segment_type t @ '' network segment''
           | None \<Rightarrow> ''fixed IP '' @ show_addr address @ '' is not within a configured network segment''))
       | Some s \<Rightarrow>
           (case expected of
              Some t \<Rightarrow>
                if sc_segment_type (ns_config s) \<noteq> t then
                  Inl (DbInvalidArgument (''fixed IP '' @ show_addr address @ '' belongs to '' @
                    show_segment_type (sc_segment_type (ns_config s)) @ '' network segment '' @ sc_name (ns_config s) @
                    '', not the expected '' @ show_segment_type t @ '' segment type''))
                else Inr s
            | None \<Rightarrow> Inr s))"

text \<open>\<open>fetch_one\<close> takes the first row.\<close>

definition find_by_name :: "string \<Rightarrow> ('n, 'dt) segment_db \<Rightarrow> seg_error + ('n, 'dt) network_segment" where
  "find_by_name name db =
     (case filter (\<lambda>r. sr_name r = name) (db_segments db) of
        [] \<Rightarrow> Inl (row_not_found ''network_segment::find_by_name'')
      | r # _ \<Rightarrow> Inr (snapshot False db r))"

definition STATIC_ASSIGNMENTS_SEGMENT_NAME :: string where
  "STATIC_ASSIGNMENTS_SEGMENT_NAME = ''static-assignments''"

definition static_assignments :: "('n, 'dt) segment_db \<Rightarrow> seg_error + ('n, 'dt) network_segment" where
  "static_assignments db = find_by_name STATIC_ASSIGNMENTS_SEGMENT_NAME db"

definition for_static_address ::
    "'n network_ops \<Rightarrow> ip_addr \<Rightarrow> ('n, 'dt) segment_db \<Rightarrow> seg_error + ('n, 'dt) network_segment" where
  "for_static_address N address db =
     attempt (for_prefix_containing_address N address db) (\<lambda>found.
       case found of Some s \<Rightarrow> Inr s | None \<Rightarrow> static_assignments db)"

definition admin :: "('n, 'dt) segment_db \<Rightarrow> seg_error + ('n, 'dt) network_segment list" where
  "admin db =
     (let segments = map (snapshot False db)
            (sort_key sr_id (filter (\<lambda>r. sr_network_segment_type r = Admin) (db_segments db)))
      in if segments = [] then Inl (row_not_found ''network_segment::admin'') else Inr segments)"

definition are_network_segments_ready :: "string list \<Rightarrow> ('n, 'dt) segment_db \<Rightarrow> bool" where
  "are_network_segments_ready segment_ids db \<longleftrightarrow>
     \<not> (\<exists>s \<in> set (map (snapshot False db) (filter (\<lambda>r. sr_id r \<in> set segment_ids) (db_segments db))).
          value_of (ss_controller_state (ns_status s)) \<noteq> Ready)"

text \<open>\<open>is_host\<close> tells whether an id parses as that of a host.\<close>

definition batch_find_ids_by_machine_ids ::
    "(string \<Rightarrow> bool) \<Rightarrow> string list \<Rightarrow> segment_type option \<Rightarrow> ('n, 'dt) segment_db \<Rightarrow> (string \<times> string list) list" where
  "batch_find_ids_by_machine_ids is_host machine_ids ty db =
     (let rows = concat (map (\<lambda>m. concat (map (\<lambda>i. if mi_machine_id i = Some m \<and> m \<in> set machine_ids \<and> mi_interface_type i \<noteq> ''Bmc''
            then map (\<lambda>r. (m, sr_id r)) (filter (\<lambda>r. sr_id r = mi_segment_id i \<and>
                   (case ty of Some t \<Rightarrow> sr_network_segment_type r = t | None \<Rightarrow> True)) (db_segments db))
            else []) (db_interfaces db))) (db_machines db))
      in fold (\<lambda>(m, sid) result. if is_host m then AList.map_default m [sid] (\<lambda>ids. ids @ [sid]) result else result) rows [])"

definition find_ids_by_machine_id ::
    "(string \<Rightarrow> bool) \<Rightarrow> string \<Rightarrow> segment_type option \<Rightarrow> ('n, 'dt) segment_db \<Rightarrow> string list" where
  "find_ids_by_machine_id is_host machine_id ty db =
     (case map_of (batch_find_ids_by_machine_ids is_host [machine_id] ty db) machine_id of Some ids \<Rightarrow> ids | None \<Rightarrow> [])"

section \<open>Writes\<close>

definition update_rows :: "('dt segment_row \<Rightarrow> bool) \<Rightarrow> ('dt segment_row \<Rightarrow> 'dt segment_row) \<Rightarrow> ('n, 'dt) segment_db \<Rightarrow> ('n, 'dt) segment_db" where
  "update_rows P f db = db\<lparr>db_segments := map (\<lambda>r. if P r then f r else r) (db_segments db)\<rparr>"

definition try_update_controller_state ::
    "string \<Rightarrow> 'dt config_version \<Rightarrow> 'dt config_version \<Rightarrow> 'dt segment_state \<Rightarrow> ('n, 'dt) segment_db
     \<Rightarrow> (unit, controller_state_not_current) conditional_write \<times> ('n, 'dt) segment_db" where
  "try_update_controller_state sid expected_version nv new_state db =
     (let P = (\<lambda>r. sr_id r = sid \<and> version (sr_controller_state r) = expected_version)
      in (if \<exists>r \<in> set (db_segments db). P r then Applied () else NotApplied ControllerStateNotCurrent,
          update_rows P (\<lambda>r. r\<lparr>sr_controller_state := \<lparr>value_of = new_state, version = nv\<rparr>\<rparr>) db))"

definition update_controller_state_outcome ::
    "string \<Rightarrow> persistent_state_handler_outcome \<Rightarrow> ('n, 'dt) segment_db \<Rightarrow> ('n, 'dt) segment_db" where
  "update_controller_state_outcome sid outcome db =
     update_rows (with_id sid) (\<lambda>r. r\<lparr>sr_controller_state_outcome := Some outcome\<rparr>) db"

definition set_vpc_id_and_can_stretch :: "('n, 'dt) network_segment \<Rightarrow> string \<Rightarrow> ('n, 'dt) segment_db \<Rightarrow> ('n, 'dt) segment_db" where
  "set_vpc_id_and_can_stretch s vpc_id db =
     update_rows (with_id (ns_id s)) (\<lambda>r. r\<lparr>sr_vpc_id := Some vpc_id, sr_can_stretch := Some True\<rparr>) db"

definition attach_to_vpc ::
    "'dt chrono \<Rightarrow> nat \<Rightarrow> 'dt \<Rightarrow> ('n, 'dt) network_segment \<Rightarrow> string \<Rightarrow> ('n, 'dt) segment_db
     \<Rightarrow> (seg_error + ('n, 'dt) network_segment \<times> ('n, 'dt) segment_db) option" where
  "attach_to_vpc C nanos now_ts s vpc_id db =
     (case increment C nanos (ns_version s) of
        None \<Rightarrow> None
      | Some next_version \<Rightarrow>
          (let P = (\<lambda>r. sr_id r = ns_id s \<and> sr_version r = ns_version s \<and> sr_deleted r = None);
               db' = update_rows P (\<lambda>r. r\<lparr>sr_vpc_id := Some vpc_id, sr_version := next_version, sr_updated := now_ts\<rparr>) db
           in if \<exists>r \<in> set (db_segments db). P r then
                (case filter (with_id (ns_id s)) (db_segments db') of
                   [] \<Rightarrow> Some (Inl (row_not_found ''finding just-attached network segment''))
                 | rows \<Rightarrow> Some (Inr (snapshot False db' (last rows), db')))
              else Some (Inl (DbConcurrentModification ''network_segment'' (version_string C (ns_version s))))))"

definition set_deleted :: "'dt \<Rightarrow> 'dt segment_row \<Rightarrow> 'dt segment_row" where
  "set_deleted now_ts r = r\<lparr>sr_updated := now_ts, sr_deleted := Some now_ts\<rparr>"

definition mark_as_deleted ::
    "'dt \<Rightarrow> ('n, 'dt) network_segment \<Rightarrow> ('n, 'dt) segment_db \<Rightarrow> seg_error + string \<times> ('n, 'dt) segment_db" where
  "mark_as_deleted now_ts s db =
     (if machine_interface_count (ns_id s) db > 0 then
        Inl (DbNetworkSegmentDelete (''Network Segment can'' @ CHR 0x27 # ''t be deleted with associated MachineInterface''))
      else if instance_address_count (ns_id s) db > 0 then
        Inl (DbNetworkSegmentDelete (''Network Segment can'' @ CHR 0x27 #
          ''t be deleted while addresses on the segment are allocated to instances''))
      else if segment_reference_count (ns_id s) db > 0 then
        Inl (DbNetworkSegmentDelete (''network segment can'' @ CHR 0x27 #
          ''t be deleted while referenced by network configurations; referencing instance count: '' @
          show_nat (segment_reference_count (ns_id s) db)))
      else if \<exists>r \<in> set (db_segments db). with_id (ns_id s) r then
        Inr (ns_id s, update_rows (with_id (ns_id s)) (set_deleted now_ts) db)
      else Inl (row_not_found ''network_segment::mark_as_deleted''))"

definition mark_as_deleted_no_validation ::
    "'dt \<Rightarrow> string list \<Rightarrow> ('n, 'dt) segment_db \<Rightarrow> seg_error + string \<times> ('n, 'dt) segment_db" where
  "mark_as_deleted_no_validation now_ts ids db =
     (case filter (\<lambda>r. sr_id r \<in> set ids) (db_segments db) of
        [] \<Rightarrow> Inl (row_not_found ''network_segment::mark_as_deleted_no_validation'')
      | r # _ \<Rightarrow> Inr (sr_id r, update_rows (\<lambda>r. sr_id r \<in> set ids) (set_deleted now_ts) db))"

definition delete_prefixes_for_segment :: "string \<Rightarrow> ('n, 'dt) segment_db \<Rightarrow> ('n, 'dt) segment_db" where
  "delete_prefixes_for_segment sid db = db\<lparr>db_prefixes := filter (\<lambda>p. np_segment_id p \<noteq> sid) (db_prefixes db)\<rparr>"

text \<open>
  \<open>DELETE FROM network_segments\<close> under the foreign keys of the schema: interfaces and prefixes hold a
  segment back, its configured definition goes with it.
\<close>

definition delete_segment_row :: "string \<Rightarrow> ('n, 'dt) segment_db \<Rightarrow> seg_error + ('n, 'dt) segment_db" where
  "delete_segment_row sid db =
     (if \<not> (\<exists>r \<in> set (db_segments db). with_id sid r) then Inl (row_not_found ''network_segment::final_delete'')
      else if (\<exists>m \<in> set (db_interfaces db). mi_segment_id m = sid) \<or> (\<exists>p \<in> set (db_prefixes db). np_segment_id p = sid) then
        Inl (DbSqlx ''network_segment::final_delete'' ''violates foreign key constraint'')
      else Inr (db\<lparr>db_segments := filter (\<lambda>r. \<not> with_id sid r) (db_segments db),
                   db_defs := filter (\<lambda>d. fst (snd d) \<noteq> sid) (db_defs db)\<rparr>))"

definition final_delete :: "string \<Rightarrow> ('n, 'dt) segment_db \<Rightarrow> seg_error + ('n, 'dt) segment_db" where
  "final_delete sid db =
     (if segment_has_allocations sid db then
        Inl (DbNetworkSegmentDelete (''network segment can'' @ CHR 0x27 # ''t be deleted while allocations still reference it''))
      else delete_segment_row sid (delete_prefixes_for_segment sid db))"

text \<open>The history of states: the trigger keeps the newest 250 records of an object.\<close>

definition HISTORY_LIMIT :: nat where "HISTORY_LIMIT = 250"

fun drop_oldest :: "nat \<Rightarrow> string \<Rightarrow> (string \<times> 'a) list \<Rightarrow> (string \<times> 'a) list" where
  "drop_oldest n sid [] = []"
| "drop_oldest n sid (h # hs) =
     (if n > 0 \<and> fst h = sid then drop_oldest (n - 1) sid hs else h # drop_oldest n sid hs)"

definition keep_limit :: "string \<Rightarrow> (string \<times> 'a) list \<Rightarrow> (string \<times> 'a) list" where
  "keep_limit sid hs = drop_oldest (length (filter (\<lambda>h. fst h = sid) hs) - HISTORY_LIMIT) sid hs"

definition persist_state_history ::
    "string \<Rightarrow> 'dt segment_state \<Rightarrow> 'dt config_version \<Rightarrow> ('n, 'dt) segment_db \<Rightarrow> ('n, 'dt) segment_db" where
  "persist_state_history sid state state_version db =
     db\<lparr>db_history := keep_limit sid (db_history db @ [(sid, \<lparr>value_of = state, version = state_version\<rparr>)])\<rparr>"

section \<open>The address of the switch\<close>

definition set_svi_ip :: "string \<Rightarrow> ip_addr \<Rightarrow> ('n, 'dt) segment_db \<Rightarrow> seg_error + ('n, 'dt) segment_db" where
  "set_svi_ip prefix_id svi_ip db =
     (if \<exists>p \<in> set (db_prefixes db). np_id p = prefix_id then
        Inr (db\<lparr>db_prefixes := map (\<lambda>p. if np_id p = prefix_id then p\<lparr>np_svi_ip := Some svi_ip\<rparr> else p) (db_prefixes db)\<rparr>)
      else Inl (row_not_found ''network_prefix::set_svi_ip''))"

text \<open>The first free address of a segment, by the allocator of its kind.\<close>

definition allocate_free_ip ::
    "'n::linorder network_ops \<Rightarrow> ('n, 'dt) network_segment \<Rightarrow> ('n, 'dt) segment_db \<Rightarrow> (seg_error + string \<times> ip_addr) option" where
  "allocate_free_ip N s db =
     (case segment_used_prefixes N s [] db of
        Inl e \<Rightarrow> Some (Inl e)
      | Inr used \<Rightarrow>
          (case allocator_next N (new_allocator s used NextAvailableIp) of
             None \<Rightarrow> None
           | Some (Some (i, Inr address), _) \<Rightarrow> Some (Inr (i, nw_ip N address))
           | Some (Some (_, Inl e), _) \<Rightarrow> Some (Inl (DbAlloc e))
           | Some (None, _) \<Rightarrow> Some (Inl (DbAlloc (ResourceExhausted
               (if is_tenant (sc_segment_type (ns_config s))
                then ''Unable to allocate SVI IP for : No free IPs in segment '' @ ns_id s @ ''.''
                else ''SVI IP not found for '' @ ns_id s @ ''.''))))))"

definition choose_svi_ip ::
    "'n::linorder network_ops \<Rightarrow> ('n, 'dt) network_segment \<Rightarrow> 'n network_prefix \<Rightarrow> ('n, 'dt) segment_db \<Rightarrow> (seg_error + ip_addr) option" where
  "choose_svi_ip N s p db =
     (if np_num_reserved p \<ge> 3 then
        (case drop 2 (nw_iter_take N 3 (np_prefix p)) of
           a # _ \<Rightarrow> Some (Inr a)
         | [] \<Rightarrow> Some (Inl (DbAlloc (Internal (''Prefix '' @ np_id p @ '' does not have 3 valid IPs.'')))))
      else map_option (map_sum id snd) (allocate_free_ip N (s\<lparr>ns_prefixes := [p]\<rparr>) db))"

fun allocate_svi_ips ::
    "'n::linorder network_ops \<Rightarrow> ('n, 'dt) network_segment \<Rightarrow> 'n network_prefix list \<Rightarrow> ip_addr option \<Rightarrow> ('n, 'dt) segment_db
     \<Rightarrow> (seg_error + ip_addr option \<times> ('n, 'dt) segment_db) option" where
  "allocate_svi_ips N s [] first_svi_ip db = Some (Inr (first_svi_ip, db))"
| "allocate_svi_ips N s (p # ps) first_svi_ip db =
     (case np_svi_ip p of
        Some a \<Rightarrow> allocate_svi_ips N s ps (if first_svi_ip = None then Some a else first_svi_ip) db
      | None \<Rightarrow>
          (case choose_svi_ip N s p db of
             None \<Rightarrow> None
           | Some (Inl e) \<Rightarrow> Some (Inl e)
           | Some (Inr a) \<Rightarrow>
               (case set_svi_ip (np_id p) a db of
                  Inl e \<Rightarrow> Some (Inl e)
                | Inr db \<Rightarrow> allocate_svi_ips N s ps (if first_svi_ip = None then Some a else first_svi_ip) db)))"

definition allocate_svi_ip ::
    "'n::linorder network_ops \<Rightarrow> ('n, 'dt) network_segment \<Rightarrow> ('n, 'dt) segment_db
     \<Rightarrow> (seg_error + ip_addr \<times> ('n, 'dt) segment_db) option" where
  "allocate_svi_ip N s db =
     (case allocate_svi_ips N s (ns_prefixes s) None db of
        None \<Rightarrow> None
      | Some (Inl e) \<Rightarrow> Some (Inl e)
      | Some (Inr (Some a, db)) \<Rightarrow> Some (Inr (a, db))
      | Some (Inr (None, _)) \<Rightarrow> Some (Inl (DbNotFound ''prefix'' (ns_id s))))"

section \<open>Addresses of instances\<close>

definition get_host_ip :: "'n network_ops \<Rightarrow> 'n \<Rightarrow> string + ip_addr" where
  "get_host_ip N n =
     (let len = nw_prefix N n in
      if len = 32 \<or> len = 128 then Inr (nw_ip N n)
      else if len = 31 \<or> len = 127 then
        (case drop 1 (nw_iter_take N 2 n) of
           a # _ \<Rightarrow> Inr a | [] \<Rightarrow> Inl (''no viable host IP found in point-to-point network: '' @ nw_show N n))
      else if len = 30 then
        (case drop 3 (nw_iter_take N 4 n) of
           a # _ \<Rightarrow> Inr a | [] \<Rightarrow> Inl (''no viable host IP found in network: '' @ nw_show N n))
      else Inl (''tenant instance network size unsupported: '' @ show_nat len))"

text \<open>What an interface of an instance is assigned, and the addresses to store.\<close>

record 'n interface_assignment =
  as_ip_addrs :: "(string \<times> ip_addr) list"
  as_interface_prefixes :: "(string \<times> 'n) list"
  as_addresses :: "'n list"

text \<open>The loop over the allocator, which yields one item for each of its prefixes.\<close>

fun assign_ips_from ::
    "'n::linorder network_ops \<Rightarrow> 'n ip_allocator \<Rightarrow> (string \<times> 'n) list \<Rightarrow> 'n alloc_prefix list \<Rightarrow> 'n interface_assignment
     \<Rightarrow> (seg_error + 'n interface_assignment) option" where
  "assign_ips_from N al slaac [] r = Some (Inr r)"
| "assign_ips_from N al slaac (p # ps) r =
     (case allocate_in N al p of
        None \<Rightarrow> None
      | Some item \<Rightarrow>
          (case map_of slaac (ap_id p) of
             Some interface_prefix \<Rightarrow>
               assign_ips_from N al slaac ps
                 (r\<lparr>as_interface_prefixes := AList.update (ap_id p) interface_prefix (as_interface_prefixes r)\<rparr>)
           | None \<Rightarrow>
               (case item of
                  Inl e \<Rightarrow> Some (Inl (DbAlloc e))
                | Inr allocated_prefix \<Rightarrow>
                    (case get_host_ip N allocated_prefix of
                       Inl e \<Rightarrow> Some (Inl (DbReport e))
                     | Inr host_ip \<Rightarrow>
                         (case nw_new N host_ip (nw_prefix N allocated_prefix) of
                            Inl e \<Rightarrow> Some (Inl (DbAlloc (NetworkParseError e)))
                          | Inr address \<Rightarrow>
                              assign_ips_from N al slaac ps
                                (r\<lparr>as_ip_addrs := AList.update (ap_id p) host_ip (as_ip_addrs r),
                                   as_interface_prefixes := AList.update (ap_id p) allocated_prefix (as_interface_prefixes r),
                                   as_addresses := as_addresses r @ [address]\<rparr>))))))"

text \<open>The overlay arm of \<open>allocate\<close> for one interface; \<open>slaac_enabled\<close> is the setting of the VPC.\<close>

definition assign_overlay ::
    "'n::linorder network_ops \<Rightarrow> bool \<Rightarrow> ('n, 'dt) network_segment \<Rightarrow> ('n, 'dt) segment_db
     \<Rightarrow> (seg_error + 'n interface_assignment) option" where
  "assign_overlay N slaac_enabled s db =
     (case overlay_used_prefixes (ns_id s) (busy_svi_ips s) db of
        Inl e \<Rightarrow> Some (Inl e)
      | Inr used \<Rightarrow>
          (let al = new_allocator s used NextAvailableIp;
               slaac = (if slaac_enabled
                 then map (\<lambda>p. (np_id p, np_prefix p)) (filter (\<lambda>p. nw_family N (np_prefix p) = ip_address_family.Ipv6) (ns_prefixes s))
                 else [])
           in assign_ips_from N al slaac (al_prefixes al)
                \<lparr>as_ip_addrs = [], as_interface_prefixes = [], as_addresses = []\<rparr>))"

section \<open>Definitions of networks\<close>

definition stored_network_def :: "string \<Rightarrow> ('n, 'dt) segment_db \<Rightarrow> 'n network_definition option" where
  "stored_network_def name db = map_option snd (map_of (db_defs db) name)"

definition segment_exists :: "string \<Rightarrow> ('n, 'dt) segment_db \<Rightarrow> bool" where
  "segment_exists name db \<longleftrightarrow> (\<exists>r \<in> set (db_segments db). sr_name r = name)"

text \<open>Names and segment ids are unique in the table, and the segment has to exist.\<close>

definition insert_network_def ::
    "string \<Rightarrow> string \<Rightarrow> 'n network_definition \<Rightarrow> ('n, 'dt) segment_db \<Rightarrow> seg_error + ('n, 'dt) segment_db" where
  "insert_network_def name sid d db =
     (if (\<exists>e \<in> set (db_defs db). fst e = name \<or> fst (snd e) = sid) then
        Inl (DbSqlx ''network_segment::insert_network_def'' ''duplicate key value violates unique constraint'')
      else if \<not> (\<exists>r \<in> set (db_segments db). with_id sid r) then
        Inl (DbSqlx ''network_segment::insert_network_def'' ''violates foreign key constraint'')
      else Inr (db\<lparr>db_defs := db_defs db @ [(name, sid, d)]\<rparr>))"

text \<open>
  The networks to create, the reported drifts and the working copy. \<open>None\<close> is the arm
  that the code calls unreachable.
\<close>

definition reconcile_network ::
    "('n, 'dt) segment_db \<Rightarrow> string \<Rightarrow> 'n network_definition
     \<Rightarrow> (string \<times> 'n network_definition) list \<times> drift list \<times> ('n, 'dt) segment_db
     \<Rightarrow> (seg_error + (string \<times> 'n network_definition) list \<times> drift list \<times> ('n, 'dt) segment_db) option" where
  "reconcile_network db0 name d st =
     (case st of (to_create, drifts, db) \<Rightarrow>
        (case (stored_network_def name db0, segment_exists name db) of
           (Some stored, True) \<Rightarrow> Some (Inr (to_create, if stored = d then drifts else drifts @ [Changed name], db))
         | (None, True) \<Rightarrow>
             (case take 2 (map sr_id (filter (\<lambda>r. sr_name r = name) (db_segments db))) of
                [sid] \<Rightarrow> Some (attempt (insert_network_def name sid d db) (\<lambda>db. Inr (to_create, drifts, db)))
              | _ \<Rightarrow> Some (Inr (to_create, drifts, db)))
         | (None, False) \<Rightarrow> Some (Inr (to_create @ [(name, d)], drifts, db))
         | (Some _, False) \<Rightarrow> None))"

fun reconcile_networks ::
    "('n, 'dt) segment_db \<Rightarrow> (string \<times> 'n network_definition) list
     \<Rightarrow> (string \<times> 'n network_definition) list \<times> drift list \<times> ('n, 'dt) segment_db
     \<Rightarrow> (seg_error + (string \<times> 'n network_definition) list \<times> drift list \<times> ('n, 'dt) segment_db) option" where
  "reconcile_networks db0 [] st = Some (Inr st)"
| "reconcile_networks db0 ((name, d) # ds) st =
     (case reconcile_network db0 name d st of
        None \<Rightarrow> None
      | Some (Inl e) \<Rightarrow> Some (Inl e)
      | Some (Inr st) \<Rightarrow> reconcile_networks db0 ds st)"

definition reconcile_network_defs ::
    "(string \<times> 'n network_definition) list \<Rightarrow> ('n, 'dt) segment_db
     \<Rightarrow> (seg_error + (string \<times> 'n network_definition) list \<times> drift list \<times> ('n, 'dt) segment_db) option" where
  "reconcile_network_defs declared db =
     map_option (map_sum id (\<lambda>(to_create, drifts, db'). (to_create,
         drifts @ map Dropped (filter (\<lambda>name. name \<notin> fst ` set declared) (map fst (db_defs db))), db')))
       (reconcile_networks db declared ([], [], db))"

end
