(* ===== verification/Segment_Controller.thy ===== *)
theory Segment_Controller
  imports Segment_Db
begin

text \<open>
  The controller of network segments (\<open>crates/network-segment-controller/src\<close>): its handler, its
  implementation of \<open>StateControllerIO\<close> and its metrics.

  The handler opens a transaction on the committed database of that moment, \<open>he_meanwhile\<close> of the one
  the object was loaded from. Its surroundings are the clock, the addition of the drain period, the
  failure of each database call, and the source position of its outcomes.
\<close>

section \<open>Metrics\<close>

record segment_metrics =
  gm_available_ips :: nat
  gm_reserved_ips :: nat
  gm_total_ips :: nat
  gm_seg_name :: string
  gm_prefix :: string
  gm_seg_type :: string
  gm_seg_id :: string

definition no_segment_metrics :: segment_metrics where
  "no_segment_metrics = \<lparr>gm_available_ips = 0, gm_reserved_ips = 0, gm_total_ips = 0, gm_seg_name = [],
     gm_prefix = [], gm_seg_type = [], gm_seg_id = []\<rparr>"

definition available_ip_metric_value :: "nat option \<Rightarrow> nat" where
  "available_ip_metric_value n = (case n of Some n \<Rightarrow> to_usize n | None \<Rightarrow> 0)"

definition compatibility_metric_prefix :: "'n network_ops \<Rightarrow> 'n network_prefix list \<Rightarrow> 'n network_prefix option" where
  "compatibility_metric_prefix N ps =
     (case find (\<lambda>p. nw_family N (np_prefix p) = ip_address_family.Ipv4) ps of
        Some p \<Rightarrow> Some p
      | None \<Rightarrow> (case ps of p # _ \<Rightarrow> Some p | [] \<Rightarrow> None))"

text \<open>\<open>as usize\<close> of an \<open>i32\<close> keeps the bits of the sign-extended number.\<close>

definition record_metrics :: "'n network_ops \<Rightarrow> ('n, 'dt) network_segment \<Rightarrow> segment_metrics \<Rightarrow> segment_metrics" where
  "record_metrics N s m =
     (if ns_prefixes s = [] \<or> sc_segment_type (ns_config s) = Tenant then m
      else
        (case compatibility_metric_prefix N (ns_prefixes s) of
           None \<Rightarrow> m
         | Some p \<Rightarrow> m\<lparr>gm_available_ips := available_ip_metric_value (np_num_free_ips p),
             gm_reserved_ips := nat (np_num_reserved p mod 2 ^ 64),
             gm_seg_name := sc_name (ns_config s), gm_seg_type := show_segment_type (sc_segment_type (ns_config s)),
             gm_seg_id := ns_id s, gm_prefix := nw_show N (np_prefix p),
             gm_total_ips := to_usize (nw_size N (np_prefix p))\<rparr>))"

type_synonym segment_iteration_metrics = "(string \<times> segment_metrics) list"

definition merge_segment_metrics :: "segment_metrics \<Rightarrow> segment_iteration_metrics \<Rightarrow> segment_iteration_metrics" where
  "merge_segment_metrics om seg_stats =
     (if gm_seg_id om = [] then seg_stats else AList.update (gm_seg_id om) om seg_stats)"

text \<open>The three gauges: value and attributes of each observation.\<close>

definition segment_gauges :: "segment_iteration_metrics \<Rightarrow> (string \<times> nat \<times> (string \<times> string) list) list" where
  "segment_gauges seg_stats =
     concat (map (\<lambda>(gauge, f). map (\<lambda>(_, g). (gauge, f g,
         [(''name'', gm_seg_name g), (''type'', gm_seg_type g), (''prefix'', gm_prefix g)])) seg_stats)
       [(''carbide_available_ips_count'', gm_available_ips), (''carbide_reserved_ips_count'', gm_reserved_ips),
        (''carbide_total_ips_count'', gm_total_ips)])"

section \<open>The handler\<close>

record segment_handler_config =
  hc_pool_vlan_id :: resource_pool
  hc_pool_vni :: resource_pool

datatype handler_call = HBegin | HAllocations | HReleaseVni | HReleaseVlan | HFinalDelete

record ('n, 'dt) handler_env =
  he_now :: 'dt
  he_later :: 'dt
  he_add_drain_period :: "'dt \<Rightarrow> 'dt option"
  he_rfc3339 :: "'dt \<Rightarrow> string"
  he_fails :: "handler_call \<Rightarrow> string option"
  he_site :: "string \<Rightarrow> string"
  he_source_ref :: location
  he_meanwhile :: "('n, 'dt) segment_db \<Rightarrow> ('n, 'dt) segment_db"

definition drain_deadline :: "('n, 'dt) handler_env \<Rightarrow> 'dt" where
  "drain_deadline H = (case he_add_drain_period H (he_now H) of Some t \<Rightarrow> t | None \<Rightarrow> he_later H)"

text \<open>\<open>begin\<close> fails with an error of \<open>sqlx\<close>, the statements with a \<open>DatabaseError\<close>.\<close>

definition begin_txn :: "('n, 'dt) handler_env \<Rightarrow> ('n, 'dt) segment_db \<Rightarrow> state_handler_error + ('n, 'dt) segment_db" where
  "begin_txn H db = (case he_fails H HBegin of Some e \<Rightarrow> Inl (TransactionError e) | None \<Rightarrow> Inr db)"

definition stmt :: "('n, 'dt) handler_env \<Rightarrow> handler_call \<Rightarrow> seg_error + 'a \<Rightarrow> state_handler_error + 'a" where
  "stmt H call r = (case he_fails H call of
      Some e \<Rightarrow> Inl (DBError e)
    | None \<Rightarrow> (case r of Inl e \<Rightarrow> Inl (DBError (show_seg_error (he_site H) e)) | Inr x \<Rightarrow> Inr x))"

definition release_in :: "resource_pool \<Rightarrow> int text_ops \<Rightarrow> int option \<Rightarrow> string \<Rightarrow> ('n, 'dt) segment_db \<Rightarrow> ('n, 'dt) segment_db" where
  "release_in pool T v owner db =
     (case v of None \<Rightarrow> db
      | Some v \<Rightarrow> db\<lparr>db_pools := fst (release T pool v NetworkSegment owner (db_pools db))\<rparr>)"

definition i16_text :: "int text_ops" where "i16_text = int_text (- (2 ^ 15)) (2 ^ 15 - 1)"

definition i32_text :: "int text_ops" where "i32_text = int_text (- (2 ^ 31)) (2 ^ 31 - 1)"

definition drain_step ::
    "('n, 'dt::linorder) handler_env \<Rightarrow> 'dt \<Rightarrow> ('n, 'dt) network_segment \<Rightarrow> ('n, 'dt) segment_db
     \<Rightarrow> state_handler_error + ('dt segment_state, ('n, 'dt) segment_db) state_handler_outcome" where
  "drain_step H delete_at s db =
     attempt (begin_txn H db) (\<lambda>txn.
     attempt (stmt H HAllocations (Inr (segment_has_allocations (ns_id s) txn))) (\<lambda>in_use.
       Inr (if in_use then Transition (Deleting (DrainAllocatedIps (drain_deadline H))) (he_source_ref H) (Some txn)
            else if he_now H \<ge> delete_at then Transition (Deleting DBDelete) (he_source_ref H) (Some txn)
            else Wait (''Cannot delete from database until draining completes at '' @ he_rfc3339 H delete_at)
                   (he_source_ref H) (Some txn))))"

definition delete_step ::
    "segment_handler_config \<Rightarrow> ('n, 'dt) handler_env \<Rightarrow> string \<Rightarrow> ('n, 'dt) network_segment \<Rightarrow> ('n, 'dt) segment_db
     \<Rightarrow> state_handler_error + ('dt segment_state, ('n, 'dt) segment_db) state_handler_outcome" where
  "delete_step K H segment_id s db =
     attempt (begin_txn H db) (\<lambda>txn.
     attempt (if ss_vni (ns_status s) = None then Inr txn
              else stmt H HReleaseVni (Inr (release_in (hc_pool_vni K) i32_text (ss_vni (ns_status s)) (sc_name (ns_config s)) txn))) (\<lambda>txn.
     attempt (if ss_vlan_id (ns_status s) = None then Inr txn
              else stmt H HReleaseVlan (Inr (release_in (hc_pool_vlan_id K) i16_text (ss_vlan_id (ns_status s)) (sc_name (ns_config s)) txn))) (\<lambda>txn.
     attempt (stmt H HFinalDelete (final_delete segment_id txn)) (\<lambda>txn.
       Inr (Deleted (he_source_ref H) (Some txn))))))"

text \<open>The snapshot afterwards: \<open>take\<close> empties the ids that the steps up to a failure have reached.\<close>

definition take_ids :: "('n, 'dt) handler_env \<Rightarrow> ('n, 'dt) network_segment \<Rightarrow> ('n, 'dt) network_segment" where
  "take_ids H s =
     (if he_fails H HBegin \<noteq> None then s
      else if ss_vni (ns_status s) \<noteq> None \<and> he_fails H HReleaseVni \<noteq> None then s\<lparr>ns_status := (ns_status s)\<lparr>ss_vni := None\<rparr>\<rparr>
      else s\<lparr>ns_status := (ns_status s)\<lparr>ss_vni := None, ss_vlan_id := None\<rparr>\<rparr>)"

definition segment_outcome ::
    "segment_handler_config \<Rightarrow> ('n, 'dt::linorder) handler_env \<Rightarrow> string \<Rightarrow> ('n, 'dt) network_segment \<Rightarrow> 'dt segment_state
     \<Rightarrow> ('n, 'dt) segment_db \<Rightarrow> state_handler_error + ('dt segment_state, ('n, 'dt) segment_db) state_handler_outcome" where
  "segment_outcome K H segment_id s controller_state db =
     (case controller_state of
        Provisioning \<Rightarrow> Inr (Transition Ready (he_source_ref H) None)
      | Ready \<Rightarrow>
          Inr (if is_marked_as_deleted s
               then Transition (Deleting (DrainAllocatedIps (drain_deadline H))) (he_source_ref H) None
               else DoNothing (he_source_ref H) None)
      | Deleting (DrainAllocatedIps delete_at) \<Rightarrow> drain_step H delete_at s db
      | Deleting DBDelete \<Rightarrow> delete_step K H segment_id s db)"

text \<open>The metrics of the context are recorded first, whatever the state.\<close>

definition handle_object_state ::
    "segment_handler_config \<Rightarrow> ('n, 'dt::linorder) handler_env \<Rightarrow> 'n network_ops \<Rightarrow> string \<Rightarrow> ('n, 'dt) network_segment
     \<Rightarrow> 'dt segment_state \<Rightarrow> ('n, 'dt) segment_db \<Rightarrow> segment_metrics
     \<Rightarrow> segment_metrics \<times> (('n, 'dt) network_segment, 'dt segment_state, ('n, 'dt) segment_db) handler_run" where
  "handle_object_state K H N segment_id s controller_state db metrics =
     (record_metrics N s metrics,
      \<lparr>hr_snapshot = (if controller_state = Deleting DBDelete then take_ids H s else s),
       hr_result = segment_outcome K H segment_id s controller_state (he_meanwhile H db),
       hr_writes = [],
       hr_db = he_meanwhile H db\<rparr>)"

definition segment_handler ::
    "segment_handler_config \<Rightarrow> ('n, 'dt::linorder) handler_env \<Rightarrow> 'n network_ops
     \<Rightarrow> (string, ('n, 'dt) network_segment, 'dt segment_state, ('n, 'dt) segment_db) handler" where
  "segment_handler K H N segment_id s controller_state db =
     snd (handle_object_state K H N segment_id s controller_state db no_segment_metrics)"

section \<open>The storage\<close>

fun deletion_state_name :: "'dt deletion_state \<Rightarrow> string" where
  "deletion_state_name (DrainAllocatedIps _) = ''drainallocatedips''"
| "deletion_state_name DBDelete = ''dbdelete''"

fun segment_metric_state_names :: "'dt segment_state \<Rightarrow> string \<times> string" where
  "segment_metric_state_names Provisioning = (''provisioning'', '''')"
| "segment_metric_state_names Ready = (''ready'', '''')"
| "segment_metric_state_names (Deleting d) = (''deleting'', deletion_state_name d)"

definition load_segment ::
    "(string \<Rightarrow> string) \<Rightarrow> 'n::linorder network_ops \<Rightarrow> string \<Rightarrow> ('n, 'dt) segment_db
     \<Rightarrow> string + ('n, 'dt) network_segment option" where
  "load_segment site N segment_id db =
     (case find_by site N (with_id segment_id) False True db of
        Inl e \<Rightarrow> Inl (show_seg_error site e)
      | Inr [] \<Rightarrow> Inr None
      | Inr [s] \<Rightarrow> Inr (Some s)
      | Inr _ \<Rightarrow> Inl (show_seg_error site (DbSqlx ''db::network_segment::find()''
          (''error occurred while decoding: searching for NetworkSegment '' @ segment_id @ '' returned multiple results''))))"

text \<open>\<open>debug\<close> is the derived \<open>Debug\<close> of a state.\<close>

definition segment_io ::
    "(string \<Rightarrow> string) \<Rightarrow> 'n::linorder network_ops \<Rightarrow> ('dt \<Rightarrow> int) \<Rightarrow> ('dt segment_state \<Rightarrow> string)
     \<Rightarrow> (string, ('n, 'dt) network_segment, 'dt segment_state, 'dt, ('n, 'dt) segment_db) state_controller_io" where
  "segment_io site N since debug =
     \<lparr>io_show_id = (\<lambda>i. i),
      io_debug_state = debug,
      io_list_objects = (\<lambda>db. Inr (list_segment_ids None db)),
      io_load_object_state = load_segment site N,
      io_load_controller_state = (\<lambda>_ s _. Inr (ss_controller_state (ns_status s))),
      io_persist_controller_state = (\<lambda>i old nv s db. Inr (try_update_controller_state i old nv s db)),
      io_persist_state_history = (\<lambda>i nv s db. Inr (persist_state_history i s nv db)),
      io_persist_outcome = (\<lambda>i p db. Inr (update_controller_state_outcome i p db)),
      io_metric_state_names = segment_metric_state_names,
      io_manual_intervention_reason = (\<lambda>_. None),
      io_state_sla = (\<lambda>cs _. segment_state_sla since cs)\<rparr>"

section \<open>The laws of the storage\<close>

definition state_of :: "string \<Rightarrow> ('n, 'dt) segment_db \<Rightarrow> ('dt segment_state, 'dt) versioned option" where
  "state_of i db = map_option sr_controller_state (find (with_id i) (db_segments db))"

definition outcome_of :: "string \<Rightarrow> ('n, 'dt) segment_db \<Rightarrow> persistent_state_handler_outcome option" where
  "outcome_of i db = Option.bind (find (with_id i) (db_segments db)) sr_controller_state_outcome"

definition keep_newest :: "'a list \<Rightarrow> 'a list" where
  "keep_newest h = drop (length h - HISTORY_LIMIT) h"

text \<open>The primary keys of the tables, and that a definition belongs to the segment of its name.\<close>

definition segment_keys :: "('n, 'dt) segment_db \<Rightarrow> bool" where
  "segment_keys db \<longleftrightarrow> distinct (map sr_id (db_segments db))"

lemma find_with_id_list: "distinct (map sr_id rs) \<Longrightarrow> r \<in> set rs \<Longrightarrow> find (with_id (sr_id r)) rs = Some r"
  by (induction rs) (auto simp: with_id_def)

lemma find_with_id: "segment_keys db \<Longrightarrow> r \<in> set (db_segments db) \<Longrightarrow> find (with_id (sr_id r)) (db_segments db) = Some r"
  by (simp add: segment_keys_def find_with_id_list)

lemma find_update:
  "(\<And>r. sr_id (f r) = sr_id r) \<Longrightarrow>
   find (with_id i) (map (\<lambda>r. if P r then f r else r) rs) = map_option (\<lambda>r. if P r then f r else r) (find (with_id i) rs)"
  by (induction rs) (auto simp: with_id_def)

lemma update_rows_ids [simp]: "(\<And>r. sr_id (f r) = sr_id r) \<Longrightarrow> segment_keys (update_rows P f db) = segment_keys db"
  by (simp add: segment_keys_def update_rows_def comp_def if_distrib cong: if_cong)

lemma drop_oldest_other: "j \<noteq> i \<Longrightarrow> filter (\<lambda>h. fst h = j) (drop_oldest n i hs) = filter (\<lambda>h. fst h = j) hs"
  by (induction n i hs rule: drop_oldest.induct) auto

lemma drop_oldest_same: "filter (\<lambda>h. fst h = i) (drop_oldest n i hs) = drop n (filter (\<lambda>h. fst h = i) hs)"
proof (induction n i hs rule: drop_oldest.induct)
  case (2 n i h hs)
  then show ?case by (cases n) auto
qed simp

lemma history_persist: "segment_history i (persist_state_history i s nv db) =
    keep_newest (segment_history i db @ [\<lparr>value_of = s, version = nv\<rparr>])"
  by (simp add: segment_history_def persist_state_history_def keep_limit_def drop_oldest_same keep_newest_def drop_map HISTORY_LIMIT_def)

lemma history_persist_other: "j \<noteq> i \<Longrightarrow> segment_history j (persist_state_history i s nv db) = segment_history j db"
  by (simp add: segment_history_def persist_state_history_def keep_limit_def drop_oldest_other)

lemma history_update_rows [simp]: "segment_history i (update_rows P f db) = segment_history i db"
  by (simp add: segment_history_def update_rows_def)

lemma state_persist_history [simp]: "state_of i (persist_state_history j s nv db) = state_of i db"
  by (simp add: state_of_def persist_state_history_def)

lemma state_update_outcome [simp]: "state_of i (update_controller_state_outcome j p db) = state_of i db"
proof -
  have "find (with_id i) (db_segments (update_controller_state_outcome j p db)) =
      map_option (\<lambda>r. if with_id j r then r\<lparr>sr_controller_state_outcome := Some p\<rparr> else r) (find (with_id i) (db_segments db))"
    unfolding update_controller_state_outcome_def update_rows_def by (simp add: find_update)
  then show ?thesis by (simp add: state_of_def option.map_comp comp_def if_distrib cong: if_cong)
qed

lemma find_with_idD: "find (with_id i) rs = Some r \<Longrightarrow> sr_id r = i"
  by (auto simp: find_Some_iff with_id_def)

lemma outcome_update: "state_of i db \<noteq> None \<Longrightarrow> outcome_of i (update_controller_state_outcome i p db) = Some p"
  by (auto simp: state_of_def outcome_of_def update_controller_state_outcome_def update_rows_def find_update with_id_def
      dest: find_with_idD)

lemma try_update_applied:
  assumes "segment_keys db" "try_update_controller_state i old nv s db = (Applied (), db')"
  shows "map_option version (state_of i db) = Some old \<and> state_of i db' = Some \<lparr>value_of = s, version = nv\<rparr> \<and>
    (\<forall>j. j \<noteq> i \<longrightarrow> state_of j db' = state_of j db) \<and> (\<forall>j. segment_history j db' = segment_history j db)"
proof -
  define P where "P = (\<lambda>r :: 'b segment_row. sr_id r = i \<and> version (sr_controller_state r) = old)"
  let ?f = "\<lambda>r. r\<lparr>sr_controller_state := \<lparr>value_of = s, version = nv\<rparr>\<rparr>"
  obtain r where r: "r \<in> set (db_segments db)" "P r" and db': "db' = update_rows P ?f db"
    using assms(2) by (auto simp: try_update_controller_state_def P_def Let_def split: if_splits)
  have 1: "find (with_id i) (db_segments db) = Some r" using find_with_id [OF assms(1) r(1)] r(2) by (simp add: P_def)
  have f: "find (with_id j) (db_segments db') = map_option (\<lambda>r. if P r then ?f r else r) (find (with_id j) (db_segments db))" for j
    unfolding db' update_rows_def by (simp add: find_update)
  have other: "state_of j db' = state_of j db" if "j \<noteq> i" for j
    using that find_with_idD by (cases "find (with_id j) (db_segments db)") (auto simp: state_of_def f P_def)
  show ?thesis using 1 r(2) f other by (simp add: state_of_def P_def db')
qed

lemma try_update_rejected:
  assumes "try_update_controller_state i old nv s db = (NotApplied r, db')"
  shows "db' = db"
proof -
  have no: "\<not> (sr_id r = i \<and> version (sr_controller_state r) = old)" if "r \<in> set (db_segments db)" for r
    using assms that by (auto simp: try_update_controller_state_def Let_def split: if_splits)
  have "map (\<lambda>r. if sr_id r = i \<and> version (sr_controller_state r) = old
      then r\<lparr>sr_controller_state := \<lparr>value_of = s, version = nv\<rparr>\<rparr> else r) (db_segments db) = db_segments db"
    by (rule map_idI) (auto dest: no)
  then show ?thesis using assms by (auto simp: try_update_controller_state_def Let_def update_rows_def)
qed

lemma each_Inr: "each f xs = Inr ys \<longleftrightarrow> list_all2 (\<lambda>x y. f x = Inr y) xs ys"
  by (induction xs arbitrary: ys) (auto simp: attempt_Inr list_all2_Cons1)

lemma update_num_free_status:
  "update_num_free_ips site N db s = Inr s' \<Longrightarrow> ns_status s' = ns_status s \<and> ns_config s' = ns_config s \<and> ns_id s' = ns_id s \<and>
     ns_deleted s' = ns_deleted s"
  by (auto simp: update_num_free_ips_def attempt_Inr split: if_splits)

lemma load_segment_Some:
  assumes "load_segment site N i db = Inr (Some s)"
  shows "\<exists>r. filter (with_id i) (db_segments db) = [r] \<and> update_num_free_ips site N db (snapshot False db r) = Inr s"
  using assms by (auto simp: load_segment_def find_by_def each_Inr list_all2_Cons2 split: sum.splits list.splits)

lemma find_filter: "filter P xs = x # ys \<Longrightarrow> find P xs = Some x"
  by (induction xs) (auto split: if_splits)

lemma load_segment_row:
  assumes "load_segment site N i db = Inr (Some s)"
  obtains r where "find (with_id i) (db_segments db) = Some r" "ns_id s = i"
    "ns_status s = ns_status (snapshot False db r)" "ns_config s = ns_config (snapshot False db r)" "ns_deleted s = sr_deleted r"
proof -
  obtain r where r: "filter (with_id i) (db_segments db) = [r]" "update_num_free_ips site N db (snapshot False db r) = Inr s"
    using load_segment_Some [OF assms] by blast
  have f: "find (with_id i) (db_segments db) = Some r" using r(1) by (rule find_filter)
  show ?thesis
    using that [OF f] update_num_free_status [OF r(2)] find_with_idD [OF f] by (simp add: snapshot_def)
qed

interpretation segio: controller_io "segment_io site N since debug" state_of segment_history outcome_of keep_newest segment_keys
proof unfold_locales
  fix i db st cs
  assume "io_load_object_state (segment_io site N since debug) i db = Inr (Some st)"
    "io_load_controller_state (segment_io site N since debug) i st db = Inr cs"
  then show "state_of i db = Some cs" by (auto simp: segment_io_def state_of_def snapshot_def elim: load_segment_row)
next
  fix i old nv s db db'
  assume "segment_keys db" "io_persist_controller_state (segment_io site N since debug) i old nv s db = Inr (Applied (), db')"
  then show "map_option version (state_of i db) = Some old \<and> state_of i db' = Some \<lparr>value_of = s, version = nv\<rparr> \<and>
      (\<forall>j. j \<noteq> i \<longrightarrow> state_of j db' = state_of j db) \<and> (\<forall>j. segment_history j db' = segment_history j db)"
    by (intro try_update_applied) (simp_all add: segment_io_def)
next
  fix i old nv s db r db'
  assume "io_persist_controller_state (segment_io site N since debug) i old nv s db = Inr (NotApplied r, db')"
  then show "db' = db" by (intro try_update_rejected) (simp add: segment_io_def)
next
  fix i nv s db db'
  assume "io_persist_state_history (segment_io site N since debug) i nv s db = Inr db'"
  then show "(\<forall>j. state_of j db' = state_of j db) \<and>
      segment_history i db' = keep_newest (segment_history i db @ [\<lparr>value_of = s, version = nv\<rparr>]) \<and>
      (\<forall>j. j \<noteq> i \<longrightarrow> segment_history j db' = segment_history j db)"
    by (auto simp: segment_io_def history_persist history_persist_other)
next
  fix i p db db'
  assume "io_persist_outcome (segment_io site N since debug) i p db = Inr db'"
  then show "(\<forall>j. state_of j db' = state_of j db \<and> segment_history j db' = segment_history j db) \<and>
      (state_of i db \<noteq> None \<longrightarrow> outcome_of i db' = Some p)"
    by (auto simp: segment_io_def outcome_update) (simp add: update_controller_state_outcome_def)
qed

end
