(* ===== verification/Segment_Theorems.thy ===== *)
theory Segment_Theorems
  imports Segment_Controller Allocator_Theorems
begin

text \<open>
  What the controller of network segments guarantees: one iteration moves a segment along an edge
  of its state machine or not at all, a segment goes away only when nothing is allocated on it,
  and a segment that was marked as deleted does go away.
\<close>

section \<open>One iteration\<close>

text \<open>The state machine of the handler.\<close>

inductive segment_edge :: "'dt segment_state \<Rightarrow> 'dt segment_state \<Rightarrow> bool" where
  provisioned: "segment_edge Provisioning Ready"
| marked: "segment_edge Ready (Deleting (DrainAllocatedIps t))"
| still_used: "segment_edge (Deleting (DrainAllocatedIps t)) (Deleting (DrainAllocatedIps t'))"
| drained: "segment_edge (Deleting (DrainAllocatedIps t)) (Deleting DBDelete)"

declare segment_edge.intros [simp]

inductive_cases segment_edge_DBDelete: "segment_edge (Deleting DBDelete) n"

lemmas handler_defs = segment_handler_def handle_object_state_def

lemma drain_step_cases:
  assumes "drain_step H t s db = Inr o1"
  shows "(\<exists>n l. o1 = Transition n l (Some db) \<and> segment_edge (Deleting (DrainAllocatedIps t)) n \<and>
      (n = Deleting DBDelete \<longrightarrow> \<not> segment_has_allocations (ns_id s) db \<and> t \<le> he_now H)) \<or>
    (\<exists>w l. o1 = Wait w l (Some db))"
  using assms
  by (auto simp: drain_step_def attempt_Inr begin_txn_def stmt_def split: option.splits if_splits)

lemma outcome_cases:
  assumes "segment_outcome K H i s cs db = Inr o1" "cs \<noteq> Deleting DBDelete"
  shows "(\<exists>n l txn. o1 = Transition n l txn \<and> segment_edge cs n) \<or> (\<exists>w l txn. o1 = Wait w l txn) \<or> (\<exists>l txn. o1 = DoNothing l txn)"
    "outcome_txn o1 = None \<or> outcome_txn o1 = Some db"
proof -
  show "(\<exists>n l txn. o1 = Transition n l txn \<and> segment_edge cs n) \<or> (\<exists>w l txn. o1 = Wait w l txn) \<or> (\<exists>l txn. o1 = DoNothing l txn)"
    using assms drain_step_cases
    by (auto simp: segment_outcome_def split: segment_state.splits deletion_state.splits if_splits) blast+
  show "outcome_txn o1 = None \<or> outcome_txn o1 = Some db"
    using assms drain_step_cases
    by (auto simp: segment_outcome_def split: segment_state.splits deletion_state.splits if_splits) fastforce
qed

lemma handler_leaves_state:
  assumes "cs \<noteq> Deleting DBDelete"
  shows "leaves_state state_of segment_history (segment_handler K H N i s cs db)"
  using outcome_cases(2) [OF _ assms] by (fastforce simp: leaves_state_def handler_defs)

lemma handler_keeps_valid:
  assumes "cs \<noteq> Deleting DBDelete" "segment_keys (he_meanwhile H db)"
  shows "keeps_valid segment_keys (segment_handler K H N i s cs db)"
  using outcome_cases(2) [OF _ assms(1)] assms(2) by (fastforce simp: keeps_valid_def handler_defs)

text \<open>What the last step leaves: the row, its prefixes and its definition are gone, and its ids are free.\<close>

definition deleted_from :: "segment_handler_config \<Rightarrow> string \<Rightarrow> ('n, 'dt) network_segment \<Rightarrow> ('n, 'dt) segment_db \<Rightarrow> ('n, 'dt) segment_db" where
  "deleted_from K i s db = db\<lparr>
     db_segments := filter (\<lambda>r. sr_id r \<noteq> i) (db_segments db),
     db_prefixes := filter (\<lambda>p. np_segment_id p \<noteq> i) (db_prefixes db),
     db_defs := filter (\<lambda>d. fst (snd d) \<noteq> i) (db_defs db),
     db_pools := db_pools (release_in (hc_pool_vlan_id K) i16_text (ss_vlan_id (ns_status s)) (sc_name (ns_config s))
       (release_in (hc_pool_vni K) i32_text (ss_vni (ns_status s)) (sc_name (ns_config s)) db))\<rparr>"

lemma release_in_tables [simp]:
  "db_segments (release_in pool T v owner db) = db_segments db" "db_prefixes (release_in pool T v owner db) = db_prefixes db"
  "db_defs (release_in pool T v owner db) = db_defs db" "db_history (release_in pool T v owner db) = db_history db"
  "segment_has_allocations i (release_in pool T v owner db) = segment_has_allocations i db"
  "db_interfaces (release_in pool T v owner db) = db_interfaces db"
  by (simp_all add: release_in_def segment_has_allocations_def split: option.split)

lemma final_delete_Inr:
  "final_delete i db = Inr db' \<longleftrightarrow> \<not> segment_has_allocations i db \<and> (\<exists>r \<in> set (db_segments db). sr_id r = i) \<and>
     db' = db\<lparr>db_segments := filter (\<lambda>r. sr_id r \<noteq> i) (db_segments db), db_prefixes := filter (\<lambda>p. np_segment_id p \<noteq> i) (db_prefixes db),
       db_defs := filter (\<lambda>d. fst (snd d) \<noteq> i) (db_defs db)\<rparr>"
  by (auto simp: final_delete_def delete_segment_row_def delete_prefixes_for_segment_def with_id_def segment_has_allocations_def)

lemma release_none [simp]: "release_in pool T None owner db = db"
  by (simp add: release_in_def)

lemma delete_step_Inr:
  assumes "delete_step K H i s db = Inr o1"
  shows "o1 = Deleted (he_source_ref H) (Some (deleted_from K i s db)) \<and> \<not> segment_has_allocations i db \<and>
    (\<exists>r \<in> set (db_segments db). sr_id r = i)"
proof -
  obtain txn where t: "o1 = Deleted (he_source_ref H) (Some txn)"
    "final_delete i (release_in (hc_pool_vlan_id K) i16_text (ss_vlan_id (ns_status s)) (sc_name (ns_config s))
       (release_in (hc_pool_vni K) i32_text (ss_vni (ns_status s)) (sc_name (ns_config s)) db)) = Inr txn"
    using assms by (auto simp: delete_step_def attempt_Inr begin_txn_def stmt_def split: option.splits sum.splits if_splits)
  then show ?thesis
    by (cases "ss_vni (ns_status s)"; cases "ss_vlan_id (ns_status s)") (auto simp: final_delete_Inr deleted_from_def release_in_def segment_has_allocations_def)
qed

lemma loaded_segment:
  assumes "loaded_run E (segment_io site N since debug) (segment_handler K H N) i db = Some (cs, run)"
    and "load_segment site N i db = Inr (Some s)"
  shows "cs = ss_controller_state (ns_status s)" "run = segment_handler K H N i s (value_of cs) db"
proof -
  obtain s1 M where l: "load_object E (segment_io site N since debug) i db = (Inr (s1, cs), M)"
    "run = segment_handler K H N i s1 (value_of cs) db"
    using assms(1) by (auto simp: loaded_run_def split: prod.splits sum.splits)
  have "s1 = s \<and> cs = ss_controller_state (ns_status s1)"
    using l(1) assms(2) by (auto simp: load_object_def segment_io_def attempt_Inr dbc_Inr Let_def split: if_splits sum.splits option.splits)
  then show "cs = ss_controller_state (ns_status s)" "run = segment_handler K H N i s (value_of cs) db"
    using l(2) by simp_all
qed

lemma apply_transition_Deleted: "apply_transition E C io i cs (Inr (Deleted l t)) txn = Inr (None, txn)"
  by (simp add: apply_transition_def)

lemma deletion_iteration:
  assumes "loaded_run E (segment_io site N since debug) (segment_handler K H N) i db = Some (cs, run)"
    and "load_segment site N i db = Inr (Some s)" "value_of cs = Deleting DBDelete"
    and "process_body E C (segment_io site N since debug) (segment_handler K H N) i db = (result, db', M)"
  shows "cm_next_state M = None \<and> (same_states state_of segment_history (he_meanwhile H db) db' \<or>
    (\<not> segment_has_allocations i (he_meanwhile H db) \<and> db' = deleted_from K i s (he_meanwhile H db)))"
proof -
  have run: "run = segment_handler K H N i s (Deleting DBDelete) db" using loaded_segment [OF assms(1,2)] assms(3) by simp
  have db: "hr_db run = he_meanwhile H db" "hr_result run = delete_step K H i s (he_meanwhile H db)" "hr_writes run = []"
    by (simp_all add: run handler_defs segment_outcome_def)
  have del: "next_state = None \<and> \<not> segment_has_allocations i (he_meanwhile H db) \<and> db' = deleted_from K i s (he_meanwhile H db)"
    if c: "committed E C (segment_io site N since debug) i b cs run outcome next_state db'" for b outcome next_state
  proof -
    obtain o1 where o1: "hr_result run = Inr o1" using c by (auto simp: committed_def)
    note d = delete_step_Inr [OF o1 [unfolded db(2)]]
    show ?thesis using c d o1 db by (auto simp: committed_def apply_transition_Deleted)
  qed
  have err: "same_states state_of segment_history (he_meanwhile H db) db'"
    if "io_persist_outcome (segment_io site N since debug) i p (hr_db run) = Inr db'" for p
    using segio.persist_outcome [OF that] db by (simp add: same_states_def)
  from process_body_cases [OF assms(1,4)] consider
      (stopped) "db' = he_meanwhile H db" "cm_next_state M = None"
    | (failed) p where "io_persist_outcome (segment_io site N since debug) i p (hr_db run) = Inr db'" "cm_next_state M = None"
    | (done_) b outcome next_state where "committed E C (segment_io site N since debug) i b cs run outcome next_state db'"
        "cm_next_state M = map_option value_of next_state \<or> cm_next_state M = None"
    unfolding db(1) by (elim disjE exE conjE) (simp_all only: simp_thms, (metis+)?)
  then show ?thesis
  proof cases
    case stopped
    then show ?thesis by (simp add: same_states_refl)
  next
    case failed
    then show ?thesis using err by blast
  next
    case done_
    then show ?thesis using del by fastforce
  qed
qed

text \<open>
  C2: One iteration on a network segment, whatever database calls fail or are cut off and
  whatever others commit between loading and handling, changes states and histories of segments in one
  of three ways: not at all; by moving this segment along an edge of its state machine, over the
  version that was loaded, to the next version and with one more history record; or, in the last
  state and only if nothing is allocated on the segment, by removing it with its prefixes and its
  definition and releasing its VNI and VLAN id.
\<close>

theorem segment_iteration_is_safe:
  assumes "process_body E C (segment_io site N since debug) (segment_handler K H N) i db = (result, db', M)"
    and "load_segment site N i db = Inr (Some s)" "segment_keys (he_meanwhile H db)"
  shows "(cm_next_state M = None \<and> (db' = db \<or> same_states state_of segment_history (he_meanwhile H db) db')) \<or>
    (\<exists>n. segment_edge (value_of (ss_controller_state (ns_status s))) (value_of n) \<and>
       map_option version (state_of i (he_meanwhile H db)) = Some (version (ss_controller_state (ns_status s))) \<and>
       increment C (ev_nanos E) (version (ss_controller_state (ns_status s))) = Some (version n) \<and>
       state_of i db' = Some n \<and> segment_history i db' = keep_newest (segment_history i (he_meanwhile H db) @ [n]) \<and>
       (\<forall>j. j \<noteq> i \<longrightarrow> state_of j db' = state_of j (he_meanwhile H db) \<and>
          segment_history j db' = segment_history j (he_meanwhile H db))) \<or>
    (value_of (ss_controller_state (ns_status s)) = Deleting DBDelete \<and> \<not> segment_has_allocations i (he_meanwhile H db) \<and>
       db' = deleted_from K i s (he_meanwhile H db))"
proof (cases "loaded_run E (segment_io site N since debug) (segment_handler K H N) i db")
  case None
  then show ?thesis using process_body_unloaded [OF None assms(1)] by simp
next
  case (Some p)
  then obtain cs run where l: "loaded_run E (segment_io site N since debug) (segment_handler K H N) i db = Some (cs, run)"
    by (cases p) simp
  note cs = loaded_segment [OF l assms(2)]
  show ?thesis
  proof (cases "value_of cs = Deleting DBDelete")
    case True
    then show ?thesis using deletion_iteration [OF l assms(2) True assms(1)] cs by auto
  next
    case False
    have db: "hr_db run = he_meanwhile H db" "hr_result run = segment_outcome K H i s (value_of cs) (he_meanwhile H db)"
      using cs(2) by (simp_all add: handler_defs)
    have "leaves_state state_of segment_history run" "keeps_valid segment_keys run"
      using cs(2) False assms(3) by (simp_all add: handler_leaves_state handler_keeps_valid)
    from segio.all_or_nothing [OF l this assms(1)] show ?thesis
    proof (elim disjE exE conjE)
      assume "cm_next_state M = None" "same_states state_of segment_history (hr_db run) db'"
      then show ?thesis by (simp add: db)
    next
      fix n lc t
      assume n: "hr_result run = Inr (Transition (value_of n) lc t)"
        "increment C (ev_nanos E) (version cs) = Some (version n)"
        "map_option version (state_of i (hr_db run)) = Some (version cs)" "state_of i db' = Some n"
        "segment_history i db' = keep_newest (segment_history i (hr_db run) @ [n])"
        "\<forall>j. j \<noteq> i \<longrightarrow> state_of j db' = state_of j (hr_db run) \<and> segment_history j db' = segment_history j (hr_db run)"
      have "segment_edge (value_of cs) (value_of n)"
        using outcome_cases(1) [OF n(1) [unfolded db(2)] False] by simp
      then show ?thesis using n(2-6) unfolding db(1) cs(1) [symmetric] by blast
    next
      fix n lc t
      assume n: "hr_result run = Inr (Transition (value_of n) lc t)"
        "increment C (ev_nanos E) (version cs) = Some (version n)"
        "map_option version (state_of i (hr_db run)) = Some (version cs)" "state_of i db' = Some n"
        "segment_history i db' = keep_newest (segment_history i (hr_db run) @ [n])"
        "\<forall>j. j \<noteq> i \<longrightarrow> state_of j db' = state_of j (hr_db run) \<and> segment_history j db' = segment_history j (hr_db run)"
      have "segment_edge (value_of cs) (value_of n)"
        using outcome_cases(1) [OF n(1) [unfolded db(2)] False] by simp
      then show ?thesis using n(2-6) unfolding db(1) cs(1) [symmetric] by blast
    qed
  qed
qed

section \<open>A segment that was marked as deleted goes away\<close>

text \<open>An iteration in which every call succeeds and nobody else commits, before its deadline.\<close>

definition quiet :: "'dt chrono \<Rightarrow> 'dt env \<Rightarrow> ('n, 'dt) handler_env \<Rightarrow> bool" where
  "quiet C E H \<longleftrightarrow> (\<forall>p. ev_await E p = Proceeds) \<and> ev_now E < ev_deadline E \<and> (\<forall>c. he_fails H c = None) \<and>
     (\<forall>db. he_meanwhile H db = db) \<and> config_now C (ev_nanos E) \<noteq> None"

definition iterate ::
    "'dt chrono \<Rightarrow> (string \<Rightarrow> string) \<Rightarrow> 'n::linorder network_ops \<Rightarrow> ('dt \<Rightarrow> int) \<Rightarrow> ('dt segment_state \<Rightarrow> string)
     \<Rightarrow> segment_handler_config \<Rightarrow> string \<Rightarrow> 'dt env \<times> ('n, 'dt::linorder) handler_env \<Rightarrow> ('n, 'dt) segment_db \<Rightarrow> ('n, 'dt) segment_db" where
  "iterate C site N since debug K i it db =
     fst (snd (process_body (fst it) C (segment_io site N since debug) (segment_handler K (snd it) N) i db))"

text \<open>
  What can be told of a segment that is to go: it loads, it is marked, and nothing is allocated on it. The
  state itself is left out, so that its changes keep the rest.
\<close>

definition removable :: "(string \<Rightarrow> string) \<Rightarrow> 'n::linorder network_ops \<Rightarrow> string \<Rightarrow> ('n, 'dt) segment_db \<Rightarrow> bool" where
  "removable site N i db \<longleftrightarrow> segment_keys db \<and> \<not> segment_has_allocations i db \<and>
     (\<exists>s. load_segment site N i db = Inr (Some s) \<and> is_marked_as_deleted s)"

lemma quiet_load:
  assumes "quiet C E H" "load_segment site N i db = Inr (Some s)"
  shows "\<exists>M. load_object E (segment_io site N since debug) i db = (Inr (s, ss_controller_state (ns_status s)), M) \<and>
    cm_next_state M = None"
  using assms by (auto simp: quiet_def load_object_def segment_io_def phase_defs Let_def no_metrics_def)

lemma quiet_conclude:
  assumes "\<forall>p. ev_await E p = Proceeds"
  shows "snd (conclude E io i late (Inr o1) txn db) =
    (if is_deleted (Inr o1) then txn
     else case from_result (above_sla_outcome late (Inr o1)) of None \<Rightarrow> db
       | Some p \<Rightarrow> (case io_persist_outcome io i p txn of Inl _ \<Rightarrow> db | Inr d \<Rightarrow> d))"
proof -
  have "is_deleted (above_sla_outcome late (Inr o1)) = is_deleted (Inr o1)"
    by (cases late; cases o1) auto
  then show ?thesis
    using assms by (auto simp: conclude_def Let_def commit_with_def commit_def persist_outcome_in_def dbc_def split: option.split sum.split)
qed

lemma from_result_Some: "\<not> is_deleted (Inr o1) \<Longrightarrow> \<exists>p. from_result (above_sla_outcome late (Inr o1)) = Some p"
  by (cases late; cases o1) auto

lemma quiet_iterate:
  assumes "quiet C E H" "load_segment site N i db = Inr (Some s)" "ss_controller_state (ns_status s) = cs"
    and "segment_outcome K H i s (value_of cs) db = Inr o1"
    and "apply_transition E C (segment_io site N since debug) i cs (Inr (replace_txn None o1))
      (case outcome_txn o1 of Some t \<Rightarrow> t | None \<Rightarrow> db) = Inr (next_state, txn)"
  shows "if is_deleted (Inr o1) then iterate C site N since debug K i (E, H) db = txn
    else \<exists>p. iterate C site N since debug K i (E, H) db = update_controller_state_outcome i p txn"
proof -
  obtain M where load: "load_object E (segment_io site N since debug) i db = (Inr (s, cs), M)"
    using quiet_load [OF assms(1,2)] assms(3) by blast
  have p: "\<forall>p. ev_await E p = Proceeds" and m: "he_meanwhile H db = db" using assms(1) by (simp_all add: quiet_def)
  have run: "segment_handler K H N i s (value_of cs) db =
      \<lparr>hr_snapshot = hr_snapshot (segment_handler K H N i s (value_of cs) db), hr_result = Inr o1, hr_writes = [], hr_db = db\<rparr>"
    using assms(4) by (simp add: handler_defs m)
  have settle: "settle E (segment_handler K H N i s (value_of cs) db) =
      Inr (Inr (replace_txn None o1), case outcome_txn o1 of Some t \<Rightarrow> t | None \<Rightarrow> db)"
    by (subst run) (simp add: settle_def take_transaction_def phase_defs p split: option.split)
  have hr: "hr_db (segment_handler K H N i s (value_of cs) db) = db" by (subst run) simp
  have "iterate C site N since debug K i (E, H) db =
      snd (conclude E (segment_io site N since debug) i (cm_time_in_state_above_sla M) (Inr (replace_txn None o1)) txn db)"
    unfolding iterate_def process_body_def
    using settle assms(5) p by (auto simp: load attempt_def cut_off_def hr split: sum.split prod.split)
  moreover have "is_deleted (Inr (replace_txn None o1)) = is_deleted (Inr o1)" by (cases o1) simp_all
  ultimately show ?thesis
    using from_result_Some [of "replace_txn None o1" "cm_time_in_state_above_sla M"]
    by (auto simp: quiet_conclude [OF p] segment_io_def) blast
qed

text \<open>Two databases that differ in states, outcomes and histories only.\<close>

definition strip :: "'dt segment_row \<Rightarrow> 'dt segment_row" where
  "strip r = r\<lparr>sr_controller_state := undefined, sr_controller_state_outcome := None\<rparr>"

definition same_but_state :: "('n, 'dt) segment_db \<Rightarrow> ('n, 'dt) segment_db \<Rightarrow> bool" where
  "same_but_state db db' \<longleftrightarrow>
     map strip (db_segments db') = map strip (db_segments db) \<and> db_prefixes db' = db_prefixes db \<and>
     db_interfaces db' = db_interfaces db \<and> db_interface_addresses db' = db_interface_addresses db \<and>
     db_instance_addresses db' = db_instance_addresses db \<and> db_instances db' = db_instances db"

lemma same_but_state_trans: "same_but_state a b \<Longrightarrow> same_but_state b c \<Longrightarrow> same_but_state a c"
  by (simp add: same_but_state_def)

lemma same_but_state_update: "(\<And>r. strip (f r) = strip r) \<Longrightarrow> same_but_state db (update_rows P f db)"
  by (simp add: same_but_state_def update_rows_def comp_def)

lemma same_but_state_try: "same_but_state db (snd (try_update_controller_state i old nv n db))"
  by (simp add: try_update_controller_state_def Let_def same_but_state_update strip_def)

lemma same_but_state_outcome: "same_but_state db (update_controller_state_outcome i p db)"
  by (simp add: update_controller_state_outcome_def same_but_state_update strip_def)

lemma same_but_state_history: "same_but_state db (persist_state_history i n nv db)"
  by (simp add: same_but_state_def persist_state_history_def)

lemma strip_ids: "map strip rs = map strip rs' \<Longrightarrow> map sr_id rs = map sr_id rs'"
proof -
  assume "map strip rs = map strip rs'"
  then have "map sr_id (map strip rs) = map sr_id (map strip rs')" by simp
  then show ?thesis by (simp add: strip_def comp_def)
qed

lemma strip_filter:
  assumes "map strip rs' = map strip rs" "filter (with_id i) rs = [r]"
  shows "\<exists>r'. filter (with_id i) rs' = [r'] \<and> strip r' = strip r"
proof -
  have w: "with_id i \<circ> strip = with_id i" by (auto simp: with_id_def strip_def)
  have "map strip (filter (with_id i) rs') = map strip (filter (with_id i) rs)"
    using assms(1) filter_map [of "with_id i" strip] by (metis w)
  then show ?thesis using assms(2) by (auto simp: map_eq_Cons_conv)
qed

lemma snapshot_strip:
  assumes "strip r' = strip r" "db_prefixes db' = db_prefixes db"
  shows "snapshot False db' r' = (snapshot False db r)\<lparr>ns_status := ns_status (snapshot False db' r')\<rparr>"
proof -
  have "\<And>f. f (strip r') = f (strip r)" using assms(1) by simp
  from this [of sr_id] this [of sr_name] this [of sr_subdomain_id] this [of sr_vpc_id] this [of sr_mtu] this [of sr_version]
    this [of sr_network_segment_type] this [of sr_allocation_strategy] this [of sr_infer_slaac_eui64_addresses]
    this [of sr_created] this [of sr_updated] this [of sr_deleted]
  show ?thesis using assms(2) by (simp add: strip_def snapshot_def segment_prefixes_def)
qed

lemma update_num_free_status_only:
  "update_num_free_ips site N db (s\<lparr>ns_status := x\<rparr>) =
     map_sum id (\<lambda>s. s\<lparr>ns_status := x\<rparr>) (update_num_free_ips site N db s)"
proof -
  have a: "new_allocator (s\<lparr>ns_status := x\<rparr>) u st = new_allocator s u st" for u st by (simp add: new_allocator_def)
  have b: "busy_svi_ips (s\<lparr>ns_status := x\<rparr>) = busy_svi_ips s" by (simp add: busy_svi_ips_def)
  have u: "segment_used_prefixes N (s\<lparr>ns_status := x\<rparr>) ips db = segment_used_prefixes N s ips db" for ips
    by (simp add: segment_used_prefixes_def)
  show ?thesis by (simp add: update_num_free_ips_def a b u attempt_def split: sum.split)
qed

lemma used_same_but_state:
  assumes "same_but_state db db'"
  shows "segment_used_prefixes N s ips db' = segment_used_prefixes N s ips db"
proof -
  have "sr_id ` set (db_segments db') = sr_id ` set (db_segments db)"
    using assms strip_ids unfolding same_but_state_def by (metis list.set_map)
  then have "(\<exists>r \<in> set (db_segments db'). sr_id r = i) = (\<exists>r \<in> set (db_segments db). sr_id r = i)" for i
    by (metis (mono_tags, lifting) image_iff)
  then show ?thesis
    using assms by (simp add: same_but_state_def segment_used_prefixes_def overlay_used_prefixes_def admin_used_prefixes_def
        admin_used_ips_def segment_prefixes_def)
qed

lemma load_same_but_state:
  assumes "same_but_state db db'" "load_segment site N i db = Inr (Some s)"
  shows "\<exists>s'. load_segment site N i db' = Inr (Some s') \<and> ns_deleted s' = ns_deleted s"
proof -
  obtain r where r: "filter (with_id i) (db_segments db) = [r]" "update_num_free_ips site N db (snapshot False db r) = Inr s"
    using load_segment_Some [OF assms(2)] by blast
  obtain r' where r': "filter (with_id i) (db_segments db') = [r']" "strip r' = strip r"
    using assms(1) strip_filter [OF _ r(1)] by (auto simp: same_but_state_def)
  let ?x = "ns_status (snapshot False db' r')"
  have snap: "snapshot False db' r' = (snapshot False db r)\<lparr>ns_status := ?x\<rparr>"
    using assms(1) by (intro snapshot_strip [OF r'(2)]) (simp add: same_but_state_def)
  have "update_num_free_ips site N db' t = update_num_free_ips site N db t" for t
    by (simp add: update_num_free_ips_def used_same_but_state [OF assms(1)])
  then have u: "update_num_free_ips site N db' (snapshot False db' r') = Inr (s\<lparr>ns_status := ?x\<rparr>)"
    using update_num_free_status_only [where s = "snapshot False db r" and x = ?x] r(2) by (subst snap) simp
  have "load_segment site N i db' = Inr (Some (s\<lparr>ns_status := ?x\<rparr>))"
    by (simp add: load_segment_def find_by_def r'(1) u attempt_def)
  then show ?thesis by (intro exI [of _ "s\<lparr>ns_status := ?x\<rparr>"]) simp
qed

lemma removable_same_but_state:
  assumes "same_but_state db db'" "removable site N i db"
  shows "removable site N i db'"
proof -
  have "map sr_id (db_segments db') = map sr_id (db_segments db)"
    using assms(1) by (intro strip_ids) (simp add: same_but_state_def)
  then have "segment_keys db'" "\<not> segment_has_allocations i db'"
    using assms by (auto simp: removable_def segment_keys_def same_but_state_def segment_has_allocations_def)
  then show ?thesis
    using assms(2) load_same_but_state [OF assms(1)] unfolding removable_def is_marked_as_deleted_def by metis
qed

lemma quiet_transition:
  assumes "quiet C E H" "segment_keys db" "state_of i db = Some cs"
  obtains nv where "increment C (ev_nanos E) (version cs) = Some nv"
    "apply_transition E C (segment_io site N since debug) i cs (Inr (Transition n l t)) db =
       Inr (Some \<lparr>value_of = n, version = nv\<rparr>,
         persist_state_history i n nv (snd (try_update_controller_state i (version cs) nv n db)))"
    "fst (try_update_controller_state i (version cs) nv n db) = Applied ()"
proof -
  obtain nv where nv: "increment C (ev_nanos E) (version cs) = Some nv"
    using assms(1) by (auto simp: quiet_def increment_def)
  obtain r where r: "find (with_id i) (db_segments db) = Some r" "sr_controller_state r = cs"
    using assms(3) by (auto simp: state_of_def)
  have "r \<in> set (db_segments db)" using r(1) by (auto simp: find_Some_iff)
  then have a: "fst (try_update_controller_state i (version cs) nv n db) = Applied ()"
    using r find_with_idD [OF r(1)] by (auto simp: try_update_controller_state_def Let_def)
  have "apply_transition E C (segment_io site N since debug) i cs (Inr (Transition n l t)) db =
       Inr (Some \<lparr>value_of = n, version = nv\<rparr>,
         persist_state_history i n nv (snd (try_update_controller_state i (version cs) nv n db)))"
    using a assms(1) nv
    by (cases "try_update_controller_state i (version cs) nv n db")
       (simp add: apply_transition_def segment_io_def phase_defs quiet_def)
  then show ?thesis using that nv a by blast
qed

fun next_segment_state :: "('n, 'dt) handler_env \<Rightarrow> 'dt segment_state \<Rightarrow> 'dt segment_state" where
  "next_segment_state H Provisioning = Ready"
| "next_segment_state H Ready = Deleting (DrainAllocatedIps (drain_deadline H))"
| "next_segment_state H (Deleting _) = Deleting DBDelete"

fun due :: "('n, 'dt::linorder) handler_env \<Rightarrow> 'dt segment_state \<Rightarrow> bool" where
  "due H (Deleting (DrainAllocatedIps t)) \<longleftrightarrow> t \<le> he_now H"
| "due H _ \<longleftrightarrow> True"

lemma quiet_stmt: "quiet C E H \<Longrightarrow> stmt H c (Inr x) = Inr x" "quiet C E H \<Longrightarrow> begin_txn H db = Inr db"
  by (simp_all add: quiet_def stmt_def begin_txn_def)

lemma quiet_outcome:
  assumes "quiet C E H" "is_marked_as_deleted s" "\<not> segment_has_allocations (ns_id s) db" "due H cs" "cs \<noteq> Deleting DBDelete"
  shows "\<exists>l t. segment_outcome K H i s cs db = Inr (Transition (next_segment_state H cs) l t) \<and> (t = None \<or> t = Some db)"
proof (cases cs)
  case (Deleting d)
  then show ?thesis using assms by (cases d) (simp_all add: segment_outcome_def drain_step_def quiet_stmt attempt_def)
qed (use assms in \<open>simp_all add: segment_outcome_def\<close>)

lemma quiet_delete:
  assumes "quiet C E H" "\<not> segment_has_allocations i db" "r \<in> set (db_segments db)" "sr_id r = i"
  shows "delete_step K H i s db = Inr (Deleted (he_source_ref H) (Some (deleted_from K i s db)))"
proof -
  let ?db = "release_in (hc_pool_vlan_id K) i16_text (ss_vlan_id (ns_status s)) (sc_name (ns_config s))
       (release_in (hc_pool_vni K) i32_text (ss_vni (ns_status s)) (sc_name (ns_config s)) db)"
  have "\<exists>txn. final_delete i ?db = Inr txn" using assms(2-4) by (auto simp: final_delete_Inr)
  then obtain txn where "final_delete i ?db = Inr txn" ..
  then have "delete_step K H i s db = Inr (Deleted (he_source_ref H) (Some txn))"
    using assms(1)
    by (cases "ss_vni (ns_status s)"; cases "ss_vlan_id (ns_status s)") (simp_all add: delete_step_def quiet_stmt attempt_def)
  with delete_step_Inr [OF this] show ?thesis by simp
qed

lemma find_gone: "find (with_id i) (filter (\<lambda>r. sr_id r \<noteq> i) rs) = None"
  by (auto simp: find_None_iff with_id_def)

lemma deleted_gone: "state_of i (deleted_from K i s db) = None \<and> segment_prefixes i (deleted_from K i s db) = []"
  by (simp add: state_of_def deleted_from_def segment_prefixes_def find_gone)

lemma gone_stays:
  assumes "state_of i db = None"
  shows "iterate C site N since debug K i it db = db"
proof -
  have "filter (with_id i) (db_segments db) = []"
    using assms by (auto simp: state_of_def find_None_iff filter_empty_conv)
  then have "load_segment site N i db = Inr None" by (simp add: load_segment_def find_by_def)
  then have "loaded_run (fst it) (segment_io site N since debug) (segment_handler K (snd it) N) i db = None"
    by (auto simp: loaded_run_def load_object_def segment_io_def attempt_def dbc_def Let_def split: sum.splits fate.splits prod.splits if_splits)
  from process_body_unloaded [OF this] show ?thesis
    unfolding iterate_def by (metis prod.collapse)
qed

lemma quiet_step:
  assumes "quiet C E H" "removable site N i db" "state_of i db = Some cs" "due H (value_of cs)"
    and it: "db' = iterate C site N since debug K i (E, H) db"
  shows "if value_of cs = Deleting DBDelete then state_of i db' = None \<and> segment_prefixes i db' = []
    else removable site N i db' \<and> map_option value_of (state_of i db') = Some (next_segment_state H (value_of cs))"
proof -
  obtain s where s: "load_segment site N i db = Inr (Some s)" "is_marked_as_deleted s"
    and keys: "segment_keys db" and free: "\<not> segment_has_allocations i db"
    using assms(2) by (auto simp: removable_def)
  obtain r where r: "find (with_id i) (db_segments db) = Some r" "ns_id s = i" "ns_status s = ns_status (snapshot False db r)"
    using load_segment_row [OF s(1)] by blast
  have cs: "ss_controller_state (ns_status s) = cs" using assms(3) r by (simp add: state_of_def snapshot_def)
  show ?thesis
  proof (cases "value_of cs = Deleting DBDelete")
    case True
    have "r \<in> set (db_segments db)" "sr_id r = i" using r(1) find_with_idD by (auto simp: find_Some_iff)
    from quiet_delete [OF assms(1) free this]
    have "segment_outcome K H i s (value_of cs) db = Inr (Deleted (he_source_ref H) (Some (deleted_from K i s db)))"
      by (simp add: segment_outcome_def True)
    from quiet_iterate [OF assms(1) s(1) cs this]
    have "db' = deleted_from K i s db" unfolding it by (simp add: apply_transition_Deleted)
    then show ?thesis using True deleted_gone by simp
  next
    case False
    obtain l t where o1: "segment_outcome K H i s (value_of cs) db = Inr (Transition (next_segment_state H (value_of cs)) l t)"
      "t = None \<or> t = Some db"
      using quiet_outcome [OF assms(1) s(2) _ assms(4) False] free r(2) by blast
    obtain nv where nv: "apply_transition E C (segment_io site N since debug) i cs
        (Inr (Transition (next_segment_state H (value_of cs)) l None)) db =
       Inr (Some \<lparr>value_of = next_segment_state H (value_of cs), version = nv\<rparr>, persist_state_history i (next_segment_state H (value_of cs)) nv
         (snd (try_update_controller_state i (version cs) nv (next_segment_state H (value_of cs)) db)))"
      "fst (try_update_controller_state i (version cs) nv (next_segment_state H (value_of cs)) db) = Applied ()"
      using quiet_transition [OF assms(1) keys assms(3)] by metis
    define d1 where "d1 = snd (try_update_controller_state i (version cs) nv (next_segment_state H (value_of cs)) db)"
    have tr: "try_update_controller_state i (version cs) nv (next_segment_state H (value_of cs)) db = (Applied (), d1)"
      using nv(2) by (simp add: d1_def prod_eq_iff)
    have "(case outcome_txn (Transition (next_segment_state H (value_of cs)) l t) of Some t \<Rightarrow> t | None \<Rightarrow> db) = db"
      using o1(2) by auto
    with quiet_iterate [OF assms(1) s(1) cs o1(1)] nv(1)
    obtain p where db': "db' = update_controller_state_outcome i p (persist_state_history i (next_segment_state H (value_of cs)) nv d1)"
      unfolding it d1_def by fastforce
    have "same_but_state db db'"
      using same_but_state_trans [OF same_but_state_trans [OF same_but_state_try same_but_state_history] same_but_state_outcome]
      unfolding db' d1_def .
    moreover have "map_option value_of (state_of i db') = Some (next_segment_state H (value_of cs))"
      using try_update_applied [OF keys tr] by (simp add: db')
    ultimately show ?thesis using False removable_same_but_state assms(2) by simp
  qed
qed

fun remaining_steps :: "'dt segment_state \<Rightarrow> nat" where
  "remaining_steps Provisioning = 4"
| "remaining_steps Ready = 3"
| "remaining_steps (Deleting (DrainAllocatedIps _)) = 2"
| "remaining_steps (Deleting DBDelete) = 1"

text \<open>The iterations follow each other by at least the drain period.\<close>

fun spaced :: "('dt env \<times> ('n, 'dt::linorder) handler_env) list \<Rightarrow> bool" where
  "spaced (it # it' # its) \<longleftrightarrow> drain_deadline (snd it) \<le> he_now (snd it') \<and> spaced (it' # its)"
| "spaced _ \<longleftrightarrow> True"

lemma gone_stays_fold:
  "state_of i db = None \<Longrightarrow> fold (iterate C site N since debug K i) its db = db"
  by (induction its) (simp_all add: gone_stays)

lemma due_next: "drain_deadline H \<le> he_now H' \<Longrightarrow> due H' (next_segment_state H st)"
  by (cases st) simp_all

lemma remaining_next: "st \<noteq> Deleting DBDelete \<Longrightarrow> due H st \<Longrightarrow> remaining_steps (next_segment_state H st) < remaining_steps st"
  by (cases st rule: remaining_steps.cases) simp_all

lemma quiet_run:
  "\<lbrakk>\<forall>it \<in> set its. quiet C (fst it) (snd it); spaced its; removable site N i db; state_of i db = Some cs;
    due (snd (hd its)) (value_of cs); remaining_steps (value_of cs) \<le> length its\<rbrakk> \<Longrightarrow>
   state_of i (fold (iterate C site N since debug K i) its db) = None \<and>
   segment_prefixes i (fold (iterate C site N since debug K i) its db) = []"
proof (induction its arbitrary: db cs)
  case Nil
  then show ?case by (cases "value_of cs" rule: remaining_steps.cases) simp_all
next
  case (Cons it its)
  obtain E H where it: "it = (E, H)" by (cases it)
  have q: "quiet C E H" using Cons.prems(1) it by simp
  define d1 where "d1 = iterate C site N since debug K i (E, H) db"
  note step = quiet_step [OF q Cons.prems(3,4) Cons.prems(5) [unfolded it list.sel snd_conv] d1_def]
  show ?case
  proof (cases "value_of cs = Deleting DBDelete")
    case True
    then have "state_of i d1 = None" "segment_prefixes i d1 = []" using step by simp_all
    then show ?thesis by (simp add: it d1_def [symmetric] gone_stays_fold)
  next
    case False
    then have rem: "removable site N i d1" and "map_option value_of (state_of i d1) = Some (next_segment_state H (value_of cs))"
      using step by simp_all
    then obtain cs1 where cs1: "state_of i d1 = Some cs1" "value_of cs1 = next_segment_state H (value_of cs)" by auto
    have len: "remaining_steps (value_of cs1) \<le> length its"
      using remaining_next [OF False, of H] Cons.prems(5,6) by (simp add: it cs1(2))
    then have "its \<noteq> []" by (cases "value_of cs1" rule: remaining_steps.cases) auto
    then obtain it' its' where its: "its = it' # its'" by (cases its) auto
    have "due (snd (hd its)) (value_of cs1)" "spaced its"
      using Cons.prems(2) by (simp_all add: its it cs1(2) due_next)
    from Cons.IH [OF _ this(2) rem cs1(1) this(1) len] Cons.prems(1)
    show ?thesis by (simp add: it d1_def [symmetric])
  qed
qed


section \<open>An example\<close>

definition example_segment :: "int segment_row" where
  "example_segment = \<lparr>sr_id = ''s'', sr_name = ''net'', sr_subdomain_id = None, sr_vpc_id = None, sr_mtu = 1500,
     sr_version = \<lparr>version_nr = 1, timestamp = 0\<rparr>,
     sr_controller_state = \<lparr>value_of = Ready, version = \<lparr>version_nr = 2, timestamp = 0\<rparr>\<rparr>,
     sr_controller_state_outcome = None, sr_vlan_id = None, sr_vni_id = Some 5, sr_network_segment_type = Admin,
     sr_can_stretch = None, sr_allocation_strategy = Dynamic, sr_infer_slaac_eui64_addresses = False,
     sr_created = 0, sr_updated = 0, sr_deleted = Some 1\<rparr>"

definition example_db :: "(ref_net, int) segment_db" where
  "example_db = \<lparr>db_segments = [example_segment], db_prefixes = [], db_history = [], db_defs = [], db_interfaces = [],
     db_interface_addresses = [], db_instance_addresses = [], db_instances = [], db_machines = [], db_vpcs = [],
     db_pools = [\<lparr>rp_name = ''vni'', rp_value = ''5'', rp_value_type = Integer,
       rp_state = Allocated ''net'' ''network_segment'', rp_allocated = Some 0, rp_auto_assign = True\<rparr>]\<rparr>"

definition example_pools :: segment_handler_config where
  "example_pools = \<lparr>hc_pool_vlan_id = \<lparr>pool_name = ''vlan'', pool_value_type = Integer\<rparr>,
     hc_pool_vni = \<lparr>pool_name = ''vni'', pool_value_type = Integer\<rparr>\<rparr>"

definition example_handler_env :: "int \<Rightarrow> (ref_net, int) handler_env" where
  "example_handler_env t = \<lparr>he_now = t, he_later = t, he_add_drain_period = (\<lambda>t. Some (t + 300)), he_rfc3339 = (\<lambda>_. ''later''),
     he_fails = (\<lambda>_. None), he_site = (\<lambda>op. op), he_source_ref = number_site, he_meanwhile = (\<lambda>db. db)\<rparr>"

abbreviation example_iteration :: "int \<Rightarrow> int env \<times> (ref_net, int) handler_env" where
  "example_iteration t \<equiv> (number_env, example_handler_env t)"

lemma example_quiet: "quiet number_chrono number_env (example_handler_env t)"
  by (simp add: quiet_def number_env_def example_handler_env_def config_now_def number_chrono_def)

lemma example_loads:
  "load_segment site ref_nw ''s'' example_db = Inr (Some (snapshot False example_db example_segment))"
  by (simp add: load_segment_def find_by_def example_db_def with_id_def example_segment_def update_num_free_ips_def snapshot_def
      segment_prefixes_def attempt_def)

lemma example_state: "state_of ''s'' example_db = Some (sr_controller_state example_segment)"
  by (simp add: state_of_def example_db_def with_id_def example_segment_def)

lemma example_removable: "removable site ref_nw ''s'' example_db"
  unfolding removable_def example_loads
  by (simp add: segment_keys_def segment_has_allocations_def example_db_def is_marked_as_deleted_def snapshot_def example_segment_def)

theorem segment_iteration_is_safe_witness:
  "\<exists>n. segment_edge Ready (value_of n) \<and>
     state_of ''s'' (iterate number_chrono id ref_nw id (\<lambda>_. []) example_pools ''s'' (example_iteration 10) example_db) = Some n \<and>
     segment_history ''s'' (iterate number_chrono id ref_nw id (\<lambda>_. []) example_pools ''s'' (example_iteration 10) example_db) = [n]"
proof -
  define H where "H = example_handler_env 10"
  obtain result db' M where b: "process_body number_env number_chrono (segment_io id ref_nw id (\<lambda>_. [])) (segment_handler example_pools H ref_nw)
      ''s'' example_db = (result, db', M)" by (metis prod_cases3)
  have it: "iterate number_chrono id ref_nw id (\<lambda>_. []) example_pools ''s'' (example_iteration 10) example_db = db'"
    using b by (simp add: iterate_def H_def)
  have m: "he_meanwhile H example_db = example_db" by (simp add: H_def example_handler_env_def)
  have st: "ss_controller_state (ns_status (snapshot False example_db example_segment)) = sr_controller_state example_segment"
    "value_of (sr_controller_state example_segment) = Ready" by (simp_all add: snapshot_def example_segment_def)
  have q: "removable id ref_nw ''s'' db' \<and> map_option value_of (state_of ''s'' db') = Some (next_segment_state H Ready)"
    using quiet_step [OF example_quiet example_removable example_state _ it [symmetric]] st by (simp add: H_def)
  have ne: "state_of ''s'' db' \<noteq> state_of ''s'' example_db" using q st(2) by (auto simp: example_state)
  have k: "segment_keys (he_meanwhile H example_db)" unfolding m by (simp add: segment_keys_def example_db_def)
  have h: "segment_history ''s'' example_db = []" by (simp add: segment_history_def example_db_def)
  from segment_iteration_is_safe [OF b example_loads k] ne show ?thesis
    unfolding it m st by (auto simp: same_states_def h keep_newest_def HISTORY_LIMIT_def)
qed


end
