(* ===== verification/Segment_Definitions.thy ===== *)
theory Segment_Definitions
  imports Segment_Controller Allocator_Theorems
begin

text \<open>
  What holds of network definitions: those that the configuration declares become well-formed
  segments, and their reconciliation with the stored ones never reaches the arm that the code calls
  unreachable.
\<close>

section \<open>Reconciliation\<close>

text \<open>
  Each stored definition belongs to the segment of its name. The foreign key gives the segment;
  no statement changes the name of a segment.
\<close>

definition defs_wf :: "('n, 'dt) segment_db \<Rightarrow> bool" where
  "defs_wf db \<longleftrightarrow> segment_keys db \<and> distinct (map fst (db_defs db)) \<and>
     (\<forall>e \<in> set (db_defs db). \<exists>r \<in> set (db_segments db). sr_id r = fst (snd e) \<and> sr_name r = fst e)"

lemma segment_keys_unique: "segment_keys db \<Longrightarrow> r \<in> set (db_segments db) \<Longrightarrow> r' \<in> set (db_segments db) \<Longrightarrow> sr_id r = sr_id r' \<Longrightarrow> r = r'"
  by (metis find_with_id option.inject)

text \<open>The definition that a segment of its name, and only one, is given afterwards.\<close>

definition backfill :: "('n, 'dt) segment_db \<Rightarrow> string \<times> 'n network_definition \<Rightarrow> (string \<times> string \<times> 'n network_definition) list" where
  "backfill db nd =
     (case filter (\<lambda>r. sr_name r = fst nd) (db_segments db) of
        [r] \<Rightarrow> if stored_network_def (fst nd) db = None then [(fst nd, sr_id r, snd nd)] else []
      | _ \<Rightarrow> [])"

lemma insert_network_def_ok:
  assumes "defs_wf db" "r \<in> set (db_segments db)" "\<forall>e \<in> set (db_defs db). fst e \<noteq> sr_name r"
  shows "insert_network_def (sr_name r) (sr_id r) d db = Inr (db\<lparr>db_defs := db_defs db @ [(sr_name r, sr_id r, d)]\<rparr>)"
    "defs_wf (db\<lparr>db_defs := db_defs db @ [(sr_name r, sr_id r, d)]\<rparr>)"
proof -
  have "fst (snd e) \<noteq> sr_id r" if e: "e \<in> set (db_defs db)" for e
  proof
    assume eq: "fst (snd e) = sr_id r"
    obtain r' where r': "r' \<in> set (db_segments db)" "sr_id r' = fst (snd e)" "sr_name r' = fst e"
      using assms(1) e unfolding defs_wf_def by blast
    have "segment_keys db" using assms(1) unfolding defs_wf_def by blast
    from segment_keys_unique [OF this r'(1) assms(2)] have "r' = r" using r'(2) eq by simp
    then have "fst e = sr_name r" using r'(3) by simp
    then show False using assms(3) e by blast
  qed
  then have no: "\<not> (\<exists>e \<in> set (db_defs db). fst e = sr_name r \<or> fst (snd e) = sr_id r)" using assms(3) by blast
  have "\<exists>r' \<in> set (db_segments db). with_id (sr_id r) r'" using assms(2) by (auto simp: with_id_def)
  then show "insert_network_def (sr_name r) (sr_id r) d db = Inr (db\<lparr>db_defs := db_defs db @ [(sr_name r, sr_id r, d)]\<rparr>)"
    unfolding insert_network_def_def if_not_P [OF no] by simp
  have "sr_name r \<notin> fst ` set (db_defs db)" using assms(3) by auto
  then show "defs_wf (db\<lparr>db_defs := db_defs db @ [(sr_name r, sr_id r, d)]\<rparr>)"
    using assms(1,2) unfolding defs_wf_def segment_keys_def
    by (intro conjI ballI) (simp_all, metis fst_conv snd_conv)
qed

lemma stored_exists: "defs_wf db \<Longrightarrow> stored_network_def name db = Some d \<Longrightarrow> segment_exists name db"
proof -
  assume wf: "defs_wf db" and "stored_network_def name db = Some d"
  then obtain sid where "(name, sid, d) \<in> set (db_defs db)"
    by (auto simp: stored_network_def_def dest!: map_of_SomeD)
  with wf obtain r where "r \<in> set (db_segments db)" "sr_name r = name" unfolding defs_wf_def by (metis fst_conv)
  then show "segment_exists name db" by (auto simp: segment_exists_def)
qed

lemma reconcile_network_step:
  assumes "defs_wf db" "defs_wf (db\<lparr>db_defs := db_defs db @ bf\<rparr>)" "\<forall>e \<in> set bf. fst e \<noteq> name"
  shows "reconcile_network db name d (to_create, drifts, db\<lparr>db_defs := db_defs db @ bf\<rparr>) =
      Some (Inr (to_create @ (if segment_exists name db then [] else [(name, d)]),
        drifts @ (case stored_network_def name db of Some stored \<Rightarrow> if stored = d then [] else [Changed name] | None \<Rightarrow> []),
        db\<lparr>db_defs := db_defs db @ bf @ backfill db (name, d)\<rparr>)) \<and>
    defs_wf (db\<lparr>db_defs := db_defs db @ bf @ backfill db (name, d)\<rparr>)"
proof (cases "stored_network_def name db")
  case (Some stored)
  then have b: "backfill db (name, d) = []" by (simp add: backfill_def split: list.split)
  show ?thesis using stored_exists [OF assms(1) Some] Some assms(2)
    by (simp add: reconcile_network_def segment_exists_def b)
next
  case None
  let ?db = "db\<lparr>db_defs := db_defs db @ bf\<rparr>"
  let ?rows = "filter (\<lambda>r. sr_name r = name) (db_segments db)"
  have ex: "segment_exists name db \<longleftrightarrow> ?rows \<noteq> []" by (auto simp: segment_exists_def filter_empty_conv)
  consider "?rows = []" | r where "?rows = [r]" | r r' rs where "?rows = r # r' # rs" by (metis list.exhaust)
  then show ?thesis
  proof cases
    case 1
    then show ?thesis using ex None assms(2) by (simp add: reconcile_network_def segment_exists_def backfill_def)
  next
    case 2
    then have "r \<in> set ?rows" by simp
    then have r: "r \<in> set (db_segments ?db)" "sr_name r = name" by simp_all
    have "name \<notin> fst ` set (db_defs db)" using None by (simp add: stored_network_def_def map_of_eq_None_iff)
    then have "\<forall>e \<in> set (db_defs ?db). fst e \<noteq> name" using assms(3) by auto
    note ins = insert_network_def_ok [OF assms(2) r(1), unfolded r(2), OF this]
    show ?thesis using ex None ins 2 by (simp add: reconcile_network_def segment_exists_def backfill_def attempt_def)
  next
    case 3
    then show ?thesis using ex None assms(2) by (simp add: reconcile_network_def segment_exists_def backfill_def)
  qed
qed

lemma backfill_names: "e \<in> set (backfill db (name, d)) \<Longrightarrow> fst e = name"
  by (auto simp: backfill_def split: list.splits if_splits)

lemma reconcile_networks_run:
  assumes "defs_wf db"
  shows "\<lbrakk>distinct (map fst ds); defs_wf (db\<lparr>db_defs := db_defs db @ bf\<rparr>); \<forall>e \<in> set bf. fst e \<notin> fst ` set ds\<rbrakk> \<Longrightarrow>
    reconcile_networks db ds (to_create, drifts, db\<lparr>db_defs := db_defs db @ bf\<rparr>) =
      Some (Inr (to_create @ filter (\<lambda>nd. \<not> segment_exists (fst nd) db) ds,
        drifts @ concat (map (\<lambda>(name, d). case stored_network_def name db of
            Some stored \<Rightarrow> if stored = d then [] else [Changed name] | None \<Rightarrow> []) ds),
        db\<lparr>db_defs := db_defs db @ bf @ concat (map (backfill db) ds)\<rparr>)) \<and>
    defs_wf (db\<lparr>db_defs := db_defs db @ bf @ concat (map (backfill db) ds)\<rparr>)"
proof (induction ds arbitrary: to_create drifts bf)
  case (Cons nd ds)
  obtain name d where nd: "nd = (name, d)" by (cases nd)
  have "\<forall>e \<in> set bf. fst e \<noteq> name" using Cons.prems(3) nd by auto
  note step = reconcile_network_step [OF assms Cons.prems(2) this, of d to_create drifts]
  have "\<forall>e \<in> set (bf @ backfill db (name, d)). fst e \<notin> fst ` set ds"
    using Cons.prems(1,3) by (auto simp: nd dest: backfill_names)
  note rest = Cons.IH [OF _ _ this, of "to_create @ (if segment_exists name db then [] else [(name, d)])"
      "drifts @ (case stored_network_def name db of Some stored \<Rightarrow> if stored = d then [] else [Changed name] | None \<Rightarrow> [])"]
  have "distinct (map fst ds)" using Cons.prems(1) by simp
  note rest = rest [OF this step [THEN conjunct2]]
  show ?case
    unfolding nd reconcile_networks.simps step [THEN conjunct1] option.case sum.case
    using rest by simp
qed simp

text \<open>
  C16: Reconciling declared network definitions with the stored ones never reaches the arm that the code calls
  unreachable and never fails on a constraint: it returns exactly the declared networks without a
  segment, reports exactly the changed and the dropped definitions, stores a definition for each
  segment that alone has a declared name and had none, and changes nothing else. Each stored definition
  still belongs to the segment of its name.
\<close>

theorem reconcile_network_defs_outcome:
  assumes "defs_wf db" "distinct (map fst declared)"
  shows "\<exists>db'. reconcile_network_defs declared db =
      Some (Inr (filter (\<lambda>nd. \<not> segment_exists (fst nd) db) declared,
        concat (map (\<lambda>(name, d). case stored_network_def name db of
            Some stored \<Rightarrow> if stored = d then [] else [Changed name] | None \<Rightarrow> []) declared) @
        map Dropped (filter (\<lambda>name. name \<notin> fst ` set declared) (map fst (db_defs db))), db')) \<and>
    db' = db\<lparr>db_defs := db_defs db @ concat (map (backfill db) declared)\<rparr> \<and> defs_wf db'"
  using reconcile_networks_run [OF assms(1,2), of "[]" "[]" "[]"] assms(1) by (simp add: reconcile_network_defs_def)

text \<open>The deletion of a segment keeps it so.\<close>

lemma final_delete_defs_wf:
  assumes "defs_wf db" "final_delete i db = Inr db'"
  shows "defs_wf db'"
proof -
  have db': "db' = db\<lparr>db_segments := filter (\<lambda>r. \<not> with_id i r) (db_segments db),
      db_prefixes := filter (\<lambda>p. np_segment_id p \<noteq> i) (db_prefixes db),
      db_defs := filter (\<lambda>d. fst (snd d) \<noteq> i) (db_defs db)\<rparr>"
    using assms(2) by (auto simp: final_delete_def delete_segment_row_def delete_prefixes_for_segment_def split: if_splits)
  have "\<exists>r \<in> set (db_segments db'). sr_id r = fst (snd e) \<and> sr_name r = fst e" if e: "e \<in> set (db_defs db')" for e
  proof -
    obtain r where "r \<in> set (db_segments db)" "sr_id r = fst (snd e)" "sr_name r = fst e"
      using assms(1) e unfolding defs_wf_def db' by auto
    then show ?thesis using e by (intro bexI [of _ r]) (auto simp: db' with_id_def)
  qed
  then show ?thesis using assms(1) by (simp add: defs_wf_def segment_keys_def db' distinct_map_filter)
qed

section \<open>Declared networks\<close>

definition definition_ok :: "'n network_ops \<Rightarrow> 'n network_definition \<Rightarrow> bool" where
  "definition_ok N d \<longleftrightarrow> MTU_MIN \<le> nd_mtu d \<and> nd_mtu d \<le> MTU_MAX \<and> 0 \<le> nd_reserve_first d \<and>
     (nw_family N (nd_prefix d) = ip_address_family.Ipv4 \<longrightarrow> nd_gateway d \<noteq> None) \<and>
     (\<forall>p \<in> set_option (nd_prefix_v6 d). nw_family N p = ip_address_family.Ipv6 \<and> nw_family N (nd_prefix d) = ip_address_family.Ipv4) \<and>
     (\<forall>a \<in> set_option (nd_dhcpv6_link_address d). addr_family a = ip_address_family.Ipv6 \<and>
        (nd_prefix_v6 d \<noteq> None \<or> nw_family N (nd_prefix d) = ip_address_family.Ipv6))"

definition segment_shape :: "'n network_ops \<Rightarrow> 'n new_network_segment \<Rightarrow> bool" where
  "segment_shape N s \<longleftrightarrow> MTU_MIN \<le> nn_mtu s \<and> nn_mtu s \<le> MTU_MAX \<and> nn_segment_type s \<noteq> Tenant \<and>
     nn_prefixes s \<noteq> [] \<and> distinct (map (\<lambda>p. nw_family N (nnp_prefix p)) (nn_prefixes s)) \<and>
     (\<forall>p \<in> set (nn_prefixes s). 0 \<le> nnp_num_reserved p \<and>
        (if nw_family N (nnp_prefix p) = ip_address_family.Ipv4 then nnp_gateway p \<noteq> None \<and> nnp_dhcpv6_link_address p = None
         else nnp_gateway p = None \<and> (\<forall>a \<in> set_option (nnp_dhcpv6_link_address p). addr_family a = ip_address_family.Ipv6)))"

lemma family_cases: "f \<noteq> ip_address_family.Ipv6 \<longleftrightarrow> f = ip_address_family.Ipv4"
  by (cases f) simp_all

lemma not_ipv4: "f \<noteq> ip_address_family.Ipv4 \<longleftrightarrow> f = ip_address_family.Ipv6"
  by (cases f) simp_all

text \<open>
  C27: A segment built from a definition of the configuration is well-formed: its MTU is within the bounds, it has
  one prefix of each family at most, no negative reservation, a gateway on its IPv4 prefix and none on
  its IPv6 prefix, an IPv6 link address that sits on the IPv6 prefix alone and is not lost, and it is no
  tenant segment. Every definition that has this shape is accepted.
\<close>

theorem built_segment_is_well_formed:
  "if definition_ok N d
   then \<exists>s. build_from N uuid name domain_id d = Inr s \<and> segment_shape N s \<and> nn_name s = name \<and>
      (\<forall>a \<in> set_option (nd_dhcpv6_link_address d). \<exists>p \<in> set (nn_prefixes s). nnp_dhcpv6_link_address p = Some a)
   else \<exists>m. build_from N uuid name domain_id d = Inl (ModelInvalidArgument m)"
proof (cases "definition_ok N d")
  case True
  then have v: "validate_definition N name d = Inr ()"
    by (auto simp: definition_ok_def validate_definition_def)
  have t: "from_definition_type (nd_segment_type d) \<noteq> Tenant" by (cases "nd_segment_type d") simp_all
  show ?thesis
    using True t
    by (cases "nd_prefix_v6 d"; cases "nd_dhcpv6_link_address d")
       (auto simp: definition_ok_def build_from_def v segment_shape_def definition_prefixes_def Let_def family_cases not_ipv4)
next
  case False
  then show ?thesis
    by (cases "nd_prefix_v6 d"; cases "nd_dhcpv6_link_address d")
       (auto simp: definition_ok_def build_from_def validate_definition_def Let_def family_cases not_ipv4)
qed

definition example_definition :: "ref_net network_definition" where
  "example_definition = \<lparr>nd_segment_type = DefAdmin, nd_prefix = net_v4 8 29, nd_prefix_v6 = None, nd_gateway = Some (AddrV4 9),
     nd_dhcpv6_link_address = None, nd_mtu = 1500, nd_reserve_first = 2, nd_allocation_strategy = Dynamic,
     nd_infer_slaac_eui64_addresses = False, nd_vpc_name = None\<rparr>"

theorem built_segment_is_well_formed_witness:
  "\<exists>s. build_from ref_nw ''u'' ''admin'' ''d'' example_definition = Inr s \<and> segment_shape ref_nw s"
proof -
  have "definition_ok ref_nw example_definition"
    by (simp add: definition_ok_def example_definition_def MTU_MIN_def MTU_MAX_def net_v4_simps del: ref_nw_simps)
  with built_segment_is_well_formed [of ref_nw example_definition "''u''" "''admin''" "''d''"] show ?thesis by auto
qed

definition named_row :: "string \<Rightarrow> string \<Rightarrow> int segment_row" where
  "named_row i name = \<lparr>sr_id = i, sr_name = name, sr_subdomain_id = None, sr_vpc_id = None, sr_mtu = 1500,
     sr_version = \<lparr>version_nr = 1, timestamp = 0\<rparr>,
     sr_controller_state = \<lparr>value_of = Ready, version = \<lparr>version_nr = 2, timestamp = 0\<rparr>\<rparr>,
     sr_controller_state_outcome = None, sr_vlan_id = None, sr_vni_id = None, sr_network_segment_type = Admin,
     sr_can_stretch = None, sr_allocation_strategy = Dynamic, sr_infer_slaac_eui64_addresses = False,
     sr_created = 0, sr_updated = 0, sr_deleted = None\<rparr>"

definition example_tables :: "int segment_row list \<Rightarrow> ref_net network_prefix list \<Rightarrow> (string \<times> string \<times> ref_net network_definition) list
    \<Rightarrow> (ref_net, int) segment_db" where
  "example_tables rows ps defs = \<lparr>db_segments = rows, db_prefixes = ps, db_history = [], db_defs = defs, db_interfaces = [],
     db_interface_addresses = [], db_instance_addresses = [], db_instances = [], db_machines = [], db_vpcs = [], db_pools = []\<rparr>"

theorem reconcile_network_defs_outcome_witness:
  "\<exists>db'. reconcile_network_defs [(''a'', example_definition), (''b'', example_definition)]
      (example_tables [named_row ''1'' ''a''] [] []) = Some (Inr ([(''b'', example_definition)], [], db')) \<and>
    db_defs db' = [(''a'', ''1'', example_definition)]"
proof -
  let ?db = "example_tables [named_row ''1'' ''a''] [] []"
  have wf: "defs_wf ?db" by (simp add: defs_wf_def segment_keys_def example_tables_def)
  show ?thesis
    using reconcile_network_defs_outcome [OF wf, of "[(''a'', example_definition), (''b'', example_definition)]"]
    by (auto simp: example_tables_def named_row_def segment_exists_def stored_network_def_def backfill_def)
qed

section \<open>The address of the switch\<close>

lemma scan_candidate:
  "scan N n len nets sz bc cur = Some (Inr (Some c)) \<Longrightarrow> \<exists>v. build_candidate_subnet N n v len = Inr c"
proof (induction N n len nets sz bc cur rule: scan.induct)
  case (1 N n len nets sz bc cur)
  show ?case
  proof (cases "sz = 0 \<or> \<not> cur \<le> bc")
    case True
    then show ?thesis using "1.prems" by (auto simp: scan.simps [of N n len nets sz bc cur] split: if_splits)
  next
    case False
    then show ?thesis
      using 1 by (auto simp: scan.simps [of N n len nets sz bc cur] split: sum.splits if_splits)
  qed
qed

lemma allocated_host:
  assumes "network_laws N" "allocate_in N al p = Some (Inr c)" "al_address_strategy al = NextAvailableIp"
  shows "nw_prefix N c = 32 \<or> nw_prefix N c = 128" "nw_prefix N c \<le> interface_prefix_len (addr_family (nw_ip N c))"
proof -
  let ?n = "ap_prefix p" and ?len = "if nw_family N (ap_prefix p) = ip_address_family.Ipv4 then 32 else 128 :: nat"
  obtain nets where "next_available_prefix N ?n ?len nets = Some (Inr (Some c))"
    using assms(2,3) by (auto simp: allocate_in_def resolve_prefix_length_def split: sum.splits option.splits)
  then consider "c = ?n" "nw_prefix N ?n = 128" "nw_family N ?n \<noteq> ip_address_family.Ipv4"
    | v where "build_candidate_subnet N ?n v ?len = Inr c"
    by (auto simp: next_available_prefix_def dest!: scan_candidate split: if_splits option.splits)
  then have "(nw_prefix N c = 32 \<or> nw_prefix N c = 128) \<and> nw_prefix N c \<le> interface_prefix_len (addr_family (nw_ip N c))"
  proof cases
    case 1
    then show ?thesis using network_laws.prefix_le [OF assms(1)] network_laws.ip_family [OF assms(1)] by (simp add: not_ipv4)
  next
    case 2
    then have new: "nw_new N (addr_of (nw_family N ?n) v) ?len = Inr c" by (auto simp: build_candidate_subnet_def split: sum.splits)
    have "?len \<le> interface_prefix_len (addr_family (addr_of (nw_family N ?n) v))" by (cases "nw_family N ?n") simp_all
    from network_laws.new_ok [OF assms(1) this] new show ?thesis by (cases "nw_family N ?n") auto
  qed
  then show "nw_prefix N c = 32 \<or> nw_prefix N c = 128" "nw_prefix N c \<le> interface_prefix_len (addr_family (nw_ip N c))" by blast+
qed

text \<open>
  C38: The address that a tenant segment sets aside for its switch is not set aside: when it came from the allocator, the
  next instance on the segment is assigned the same address, because the resolver of overlay
  networks ignores the busy addresses it is given.
\<close>

theorem svi_ip_is_assigned_to_instance:
  assumes "network_laws N" "sc_segment_type (ns_config s) = Tenant" "ns_prefixes s = [p]" "np_svi_ip p = None" "np_num_reserved p < 3"
    and "allocate_svi_ip N s db = Some (Inr (a, db'))"
  shows "\<exists>r. assign_overlay N slaac_enabled (s\<lparr>ns_prefixes := [p\<lparr>np_svi_ip := Some a\<rparr>]\<rparr>) db' = Some (Inr r) \<and>
    (as_ip_addrs r = [(np_id p, a)] \<or> (slaac_enabled \<and> nw_family N (np_prefix p) = ip_address_family.Ipv6))"
proof -
  let ?s = "s\<lparr>ns_prefixes := [p\<lparr>np_svi_ip := Some a\<rparr>]\<rparr>"
  let ?p = "\<lparr>ap_id = np_id p, ap_prefix = np_prefix p, ap_gateway = np_gateway p, ap_num_reserved = np_num_reserved p\<rparr>"
  have t: "is_tenant (sc_segment_type (ns_config s))" by (simp add: assms(2))
  obtain x where x: "allocate_free_ip N (s\<lparr>ns_prefixes := [p]\<rparr>) db = Some x" "map_sum id snd x = Inr a"
    and set: "set_svi_ip (np_id p) a db = Inr db'"
    using assms(3-6) by (auto simp: allocate_svi_ip_def choose_svi_ip_def split: option.splits sum.splits if_splits)
  then obtain i where free: "allocate_free_ip N (s\<lparr>ns_prefixes := [p]\<rparr>) db = Some (Inr (i, a))" by (cases x) auto
  obtain used where used: "overlay_used_prefixes (ns_id s) [] db = Inr used" by (simp add: overlay_used_prefixes_def)
  have used': "overlay_used_prefixes (ns_id ?s) (busy_svi_ips ?s) db' = Inr used"
    using set used by (auto simp: overlay_used_prefixes_def set_svi_ip_def split: if_splits)
  let ?al = "new_allocator ?s used NextAvailableIp"
  have al: "new_allocator (s\<lparr>ns_prefixes := [p]\<rparr>) used NextAvailableIp = ?al" "al_prefixes ?al = [?p]"
    "al_address_strategy ?al = NextAvailableIp" by (simp_all add: new_allocator_def)
  obtain c where c: "allocate_in N ?al ?p = Some (Inr c)" "nw_ip N c = a"
    using free t used
    by (auto simp: allocate_free_ip_def segment_used_prefixes_def al(1) allocator_next_def al(2) split: option.splits sum.splits)
  note host = allocated_host [OF assms(1) c(1) al(3)]
  have h: "get_host_ip N c = Inr a" using host(1) c(2) by (auto simp: get_host_ip_def)
  obtain n where n: "nw_new N a (nw_prefix N c) = Inr n" using network_laws.new_ok [OF assms(1) host(2)] c(2) by auto
  show ?thesis
    unfolding assign_overlay_def used'
    using al(2) c(1) h n by (auto simp: Let_def)
qed

definition tenant_prefix :: "ref_net network_prefix" where
  "tenant_prefix = \<lparr>np_id = ''p'', np_segment_id = ''1'', np_prefix = net_v4 8 29, np_gateway = Some (AddrV4 9),
     np_dhcpv6_link_address = None, np_num_reserved = 0, np_vpc_prefix_id = None, np_vpc_prefix = None, np_svi_ip = None,
     np_num_free_ips = None\<rparr>"

definition tenant_db :: "(ref_net, int) segment_db" where
  "tenant_db = example_tables [named_row ''1'' ''t''\<lparr>sr_network_segment_type := Tenant\<rparr>] [tenant_prefix] []"

definition tenant_segment :: "(ref_net, int) network_segment" where
  "tenant_segment = snapshot False tenant_db (named_row ''1'' ''t''\<lparr>sr_network_segment_type := Tenant\<rparr>)"

theorem svi_ip_is_assigned_to_instance_witness:
  "\<exists>a db' r. allocate_svi_ip ref_nw tenant_segment tenant_db = Some (Inr (a, db')) \<and>
     assign_overlay ref_nw False (tenant_segment\<lparr>ns_prefixes := [tenant_prefix\<lparr>np_svi_ip := Some a\<rparr>]\<rparr>) db' = Some (Inr r) \<and>
     as_ip_addrs r = [(''p'', a)]"
proof -
  have s: "ns_prefixes tenant_segment = [tenant_prefix]" "sc_segment_type (ns_config tenant_segment) = Tenant" "ns_id tenant_segment = ''1''"
    by (simp_all add: tenant_segment_def snapshot_def tenant_db_def example_tables_def segment_prefixes_def tenant_prefix_def named_row_def)
  have f: "np_svi_ip tenant_prefix = None" "np_num_reserved tenant_prefix < 3" "np_id tenant_prefix = ''p''" by (simp_all add: tenant_prefix_def)
  have al: "new_allocator (tenant_segment\<lparr>ns_prefixes := [tenant_prefix]\<rparr>) [] NextAvailableIp = example_allocator []"
    by (simp add: new_allocator_def example_allocator_def example_prefix_def tenant_prefix_def)
  have p: "al_prefixes (example_allocator []) = [example_prefix]" "0 \<le> ap_num_reserved example_prefix"
    "no_nesting ref_nw example_prefix (al_used_ips (example_allocator []))"
    "al_address_strategy (example_allocator []) = NextAvailableIp" "addr_val (nw_broadcast ref_nw (ap_prefix example_prefix)) < 2 ^ 128 - 1"
    using example_facts(2)
    by (simp_all add: example_allocator_def example_prefix_def no_nesting_def flat_networks_def used_in_def del: ref_nw_simps)
  have T: "taken ref_nw example_prefix (al_used_ips (example_allocator [])) = {AddrV4 8, AddrV4 9, AddrV4 15}"
    by (simp add: taken_def used_in_def example_allocator_def example_reserved)
  have "AddrV4 10 \<in> nw_addrs ref_nw (ap_prefix example_prefix)" by (simp add: example_facts(3))
  then have "\<not> nw_addrs ref_nw (ap_prefix example_prefix) \<subseteq> {AddrV4 8, AddrV4 9, AddrV4 15}" by auto
  with refnw.allocate_in_ip [OF p(2,3) _ example_facts(1) p(5)] p(4) T
  obtain c where c: "allocate_in ref_nw (example_allocator []) example_prefix = Some (Inr c)" by (auto split: if_splits)
  have o: "overlay_used_prefixes ''1'' [] tenant_db = Inr []" by (simp add: overlay_used_prefixes_def tenant_db_def example_tables_def)
  have "allocate_free_ip ref_nw (tenant_segment\<lparr>ns_prefixes := [tenant_prefix]\<rparr>) tenant_db = Some (Inr (''p'', nw_ip ref_nw c))"
    using c by (simp add: allocate_free_ip_def segment_used_prefixes_def s o al allocator_next_def p(1) del: ref_nw_simps)
       (simp add: example_prefix_def)
  then have "choose_svi_ip ref_nw tenant_segment tenant_prefix tenant_db = Some (Inr (nw_ip ref_nw c))"
    using f by (simp add: choose_svi_ip_def del: ref_nw_simps)
  moreover have "\<exists>db'. set_svi_ip ''p'' (nw_ip ref_nw c) tenant_db = Inr db'"
    by (simp add: set_svi_ip_def tenant_db_def example_tables_def f)
  ultimately obtain db' where a: "allocate_svi_ip ref_nw tenant_segment tenant_db = Some (Inr (nw_ip ref_nw c, db'))"
    by (auto simp: allocate_svi_ip_def s f simp del: ref_nw_simps)
  from svi_ip_is_assigned_to_instance [OF refnw.network_laws_axioms s(2,1) f(1,2) a, of False] a f(3) show ?thesis by auto
qed

end
