(* ===== verification/Dhcpv6.thy ===== *)
theory Dhcpv6
  imports Prelude
begin

text \<open>
  The decoder of DHCPv6 packets (\<open>crates/dhcpv6/src/lib.rs\<close>), which two DHCP services run on whatever arrives
  from the network.

  A packet is a list of bytes. The typed decoder of the \<open>dhcproto\<close> package is the record \<open>dhcproto\<close> of the
  functions that the crate calls; \<open>OptionCode\<close>, \<open>MessageType\<close>, options, messages and decoding errors
  are type variables. The outer \<open>None\<close> is a panic: an index or a slice out of range.
\<close>

section \<open>Data\<close>

type_synonym bytes = "u8 list"
type_synonym u16 = "16 word"

record ('c, 't, 'o, 'm, 'de) dhcproto =
  option_code :: "u16 \<Rightarrow> 'c"
  u16_of_code :: "'c \<Rightarrow> u16"
  oc_iana :: 'c
  oc_iata :: 'c
  oc_iaaddr :: 'c
  oc_relay_msg :: 'c
  oc_vendor_opts :: 'c
  oc_interface_id :: 'c
  oc_iapd :: 'c
  oc_iaprefix :: 'c
  oc_remote_id :: 'c
  oc_client_linklayer_addr :: 'c
  message_type :: "u8 \<Rightarrow> 't"
  mt_relay_forw :: 't
  message_decode :: "bytes \<Rightarrow> 'de + 'm"
  option_decode :: "bytes \<Rightarrow> 'de + 'o \<times> bytes"
  option_encode :: "'o \<Rightarrow> bytes option"
  unknown_option :: "'c \<Rightarrow> bytes \<Rightarrow> 'o"
  opts_insert :: "'o \<Rightarrow> 'm \<Rightarrow> 'm"

definition RELAY_FORWARD :: u8 where
  "RELAY_FORWARD = 12"

definition RELAY_REPLY :: u8 where
  "RELAY_REPLY = 13"

record relay_envelope =
  hop_count :: u8
  link_address :: bytes
  peer_address :: bytes
  interface_id :: "bytes option"
  remote_id :: "bytes option"
  client_link_layer :: "bytes option"

record 'm decoded_packet =
  dp_message :: 'm
  dp_relay :: "relay_envelope option"

datatype 'de decode_error =
  MalformedPacket string
| ClientMessageDecode 'de
| MissingRelayMessage
| NestedRelay
| RelayHopCountExceeded u8
| UnexpectedRelayReply

datatype duid_mac = Mac bytes | NoLinkLayerMac

datatype duid_error = Malformed

definition MAX_CLIENT_OPTION_NESTING_DEPTH :: nat where
  "MAX_CLIENT_OPTION_NESTING_DEPTH = 8"

definition MAX_CLIENT_OPTIONS :: nat where
  "MAX_CLIENT_OPTIONS = 256"

record raw_option =
  ro_code :: u16
  ro_data :: bytes
  ro_encoded :: bytes

text \<open>A result, or a panic.\<close>

type_synonym ('de, 'a) decoding = "('de decode_error + 'a) option"

definition ok :: "'a \<Rightarrow> ('e + 'a) option" where
  "ok x = Some (Inr x)"

definition err :: "'e \<Rightarrow> ('e + 'a) option" where
  "err e = Some (Inl e)"

text \<open>The operator \<open>?\<close>.\<close>

definition and_then :: "('e + 'a) option \<Rightarrow> ('a \<Rightarrow> ('e + 'b) option) \<Rightarrow> ('e + 'b) option" where
  "and_then r f = (case r of None \<Rightarrow> None | Some (Inl e) \<Rightarrow> Some (Inl e) | Some (Inr x) \<Rightarrow> f x)"

lemma and_then_cong [fundef_cong]:
  "r = r' \<Longrightarrow> (\<And>x. r' = Some (Inr x) \<Longrightarrow> f x = f' x) \<Longrightarrow> and_then r f = and_then r' f'"
  by (auto simp: and_then_def split: option.splits sum.splits)

lemma and_then_simps [simp]:
  "and_then None f = None" "and_then (err e) f = err e" "and_then (ok x) f = f x"
  "and_then (Some (Inl e)) f = err e" "and_then (Some (Inr x)) f = f x"
  by (simp_all add: and_then_def ok_def err_def)

lemma ok_simps [simp]:
  "ok x \<noteq> None" "err e \<noteq> None" "(ok x = ok y) = (x = y)" "(err e = err e') = (e = e')" "ok x \<noteq> err e" "err e \<noteq> ok x"
  "(ok x = Some r) = (r = Inr x)" "(err e = Some r) = (r = Inl e)"
  by (auto simp: ok_def err_def)

lemma and_then_ok: "and_then r f = ok y \<longleftrightarrow> (\<exists>x. r = ok x \<and> f x = ok y)"
  by (auto simp: and_then_def ok_def split: option.splits sum.splits)

lemma and_then_None: "and_then r f = None \<longleftrightarrow> r = None \<or> (\<exists>x. r = ok x \<and> f x = None)"
  by (auto simp: and_then_def ok_def split: option.splits sum.splits)

text \<open>\<open>xs.get(i..)\<close>; where the source indexes \<open>xs[i..]\<close>, \<open>None\<close> is the panic.\<close>

definition slice_from :: "'a list \<Rightarrow> nat \<Rightarrow> 'a list option" where
  "slice_from xs i = (if i \<le> length xs then Some (drop i xs) else None)"

definition get_or :: "'e \<Rightarrow> 'a option \<Rightarrow> ('e + 'a) option" where
  "get_or e x = (case x of None \<Rightarrow> err e | Some y \<Rightarrow> ok y)"

definition u16_be :: "u8 \<Rightarrow> u8 \<Rightarrow> u16" where
  "u16_be hi lo = word_of_nat (256 * unat hi + unat lo)"

section \<open>Option framing\<close>

function parse_raw_options :: "bytes \<Rightarrow> ('de, raw_option list) decoding" where
  "parse_raw_options bs =
     (if bs = [] then ok []
      else if length bs < 4 then err (MalformedPacket ''truncated option header'')
      else (case bs of
          c1 # c2 # l1 # l2 # rest \<Rightarrow>
            (let code = u16_be c1 c2; len = unat (u16_be l1 l2) in
             if length bs - 4 < len then err (MalformedPacket ''truncated option payload'')
             else (let encoded = take (4 + len) bs; remaining = drop (4 + len) bs in
                   and_then (parse_raw_options remaining) (\<lambda>options.
                     ok (\<lparr>ro_code = code, ro_data = drop 4 encoded, ro_encoded = encoded\<rparr> # options))))
        | _ \<Rightarrow> None))"
  by pat_completeness auto
termination
  by (relation "measure length") auto

declare parse_raw_options.simps [simp del]

text \<open>The offset of the nested options of a container.\<close>

definition nested_option_payload ::
    "('c, 't, 'o, 'm, 'de) dhcproto \<Rightarrow> raw_option \<Rightarrow> ('de, bytes option) decoding" where
  "nested_option_payload D opt =
     (let c = option_code D (ro_code opt);
          at = (\<lambda>offset. case slice_from (ro_data opt) offset of
                  None \<Rightarrow> err (MalformedPacket ''invalid client option'') | Some bs \<Rightarrow> ok (Some bs))
      in if c = oc_iana D \<or> c = oc_iapd D then at 12
         else if c = oc_iata D then at 4
         else if c = oc_iaaddr D then at 24
         else if c = oc_iaprefix D then at 25
         else if c = oc_relay_msg D then err (MalformedPacket ''relay-message option in client message'')
         else ok None)"

definition is_vendor :: "('c, 't, 'o, 'm, 'de) dhcproto \<Rightarrow> raw_option \<Rightarrow> bool" where
  "is_vendor D opt = (option_code D (ro_code opt) = oc_vendor_opts D)"

text \<open>What a list of options weighs: the loops below go down to lighter lists.\<close>

definition weight :: "raw_option list \<Rightarrow> nat" where
  "weight opts = (\<Sum>opt \<leftarrow> opts. Suc (length (ro_data opt)))"

lemma weight_simps [simp]: "weight [] = 0" "weight (opt # opts) = Suc (length (ro_data opt)) + weight opts"
  by (simp_all add: weight_def)

definition header_option :: "u8 \<Rightarrow> u8 \<Rightarrow> u8 \<Rightarrow> u8 \<Rightarrow> bytes \<Rightarrow> raw_option" where
  "header_option c1 c2 l1 l2 payload =
     \<lparr>ro_code = u16_be c1 c2, ro_data = payload, ro_encoded = c1 # c2 # l1 # l2 # payload\<rparr>"

lemma parse_nil [simp]: "parse_raw_options [] = ok []"
  by (simp add: parse_raw_options.simps)

lemma parse_short: "bs \<noteq> [] \<Longrightarrow> length bs < 4 \<Longrightarrow> parse_raw_options bs = err (MalformedPacket ''truncated option header'')"
  by (subst parse_raw_options.simps) simp

lemma past_header [simp]:
  "drop (4 + n) (a # b # c # d # xs) = drop n xs" "take (4 + n) (a # b # c # d # xs) = a # b # c # d # take n xs"
  "drop 4 (a # b # c # d # xs) = xs" "take 4 (a # b # c # d # xs) = [a, b, c, d]"
  by (simp_all add: numeral_eq_Suc)

lemma parse_step:
  "parse_raw_options (c1 # c2 # l1 # l2 # rest) =
     (if length rest < unat (u16_be l1 l2) then err (MalformedPacket ''truncated option payload'')
      else and_then (parse_raw_options (drop (unat (u16_be l1 l2)) rest)) (\<lambda>options.
        ok (header_option c1 c2 l1 l2 (take (unat (u16_be l1 l2)) rest) # options)))"
  by (subst parse_raw_options.simps) (simp add: Let_def header_option_def)

lemma four_bytes: "\<not> length bs < 4 \<Longrightarrow> \<exists>c1 c2 l1 l2 rest. bs = c1 # c2 # l1 # l2 # rest"
  by (auto simp: not_less numeral_eq_Suc Suc_le_length_iff)

lemma parse_okE:
  assumes "parse_raw_options bs = (ok opts :: ('de, raw_option list) decoding)"
  obtains "bs = []" "opts = []"
  | c1 c2 l1 l2 payload rest os where "bs = c1 # c2 # l1 # l2 # payload @ rest" "length payload = unat (u16_be l1 l2)"
      "parse_raw_options rest = (ok os :: ('de, raw_option list) decoding)"
      "opts = header_option c1 c2 l1 l2 payload # os"
proof (cases "bs = [] \<or> length bs < 4")
  case True
  with assms that(1) show ?thesis by (cases "bs = []") (simp_all add: parse_short)
next
  case False
  then obtain c1 c2 l1 l2 rest where bs: "bs = c1 # c2 # l1 # l2 # rest" using four_bytes by blast
  let ?n = "unat (u16_be l1 l2)"
  have fits: "?n \<le> length rest" using assms by (auto simp: bs parse_step split: if_splits)
  with assms obtain os where "parse_raw_options (drop ?n rest) = (ok os :: ('de, raw_option list) decoding)"
    "opts = header_option c1 c2 l1 l2 (take ?n rest) # os"
    by (auto simp: bs parse_step and_then_ok)
  with fits show ?thesis by (intro that(2) [of c1 c2 l1 l2 "take ?n rest" "drop ?n rest"]) (simp_all add: bs)
qed

lemma parse_weight: "parse_raw_options bs = ok opts \<Longrightarrow> weight opts \<le> length bs"
proof (induction opts arbitrary: bs)
  case (Cons opt opts)
  from Cons.prems show ?case
    by (rule parse_okE) (auto simp: header_option_def dest!: Cons.IH)
qed simp

lemma nested_length: "nested_option_payload D opt = ok (Some nested) \<Longrightarrow> length nested \<le> length (ro_data opt)"
  by (auto simp: nested_option_payload_def Let_def slice_from_def split: if_splits option.splits)

lemma nested_weight:
  assumes "nested_option_payload D opt = ok (Some nested)" "parse_raw_options nested = ok opts"
  shows "weight opts \<le> length (ro_data opt)"
  using nested_length [OF assms(1)] parse_weight [OF assms(2)] by simp

lemma nested_lighter:
  assumes "nested_option_payload D opt = Some (Inr (Some nested))" "parse_raw_options nested = Some (Inr opts)"
  shows "weight opts < Suc (length (ro_data opt) + m)"
  using nested_weight [unfolded ok_def, OF assms] by simp

section \<open>Validation of client options\<close>

text \<open>The inner loop: the suboptions of a vendor option only count.\<close>

primrec count_vendor :: "raw_option list \<Rightarrow> nat \<Rightarrow> ('de, nat) decoding" where
  "count_vendor [] n = ok n"
| "count_vendor (opt # opts) n =
     (if Suc n > MAX_CLIENT_OPTIONS then err (MalformedPacket ''client option count limit exceeded'')
      else count_vendor opts (Suc n))"

text \<open>The loop over the options of one level; a level below starts with the check of its depth.\<close>

function budget_loop ::
    "('c, 't, 'o, 'm, 'de) dhcproto \<Rightarrow> raw_option list \<Rightarrow> nat \<Rightarrow> nat \<Rightarrow> ('de, nat) decoding" where
  "budget_loop D [] depth n = ok n"
| "budget_loop D (opt # opts) depth n =
     (let n = Suc n in
      if n > MAX_CLIENT_OPTIONS then err (MalformedPacket ''client option count limit exceeded'')
      else if is_vendor D opt then
        (if depth \<noteq> 0 then err (MalformedPacket ''vendor-specific option in nested client option'')
         else and_then (get_or (MalformedPacket ''invalid vendor-specific option'') (slice_from (ro_data opt) 4)) (\<lambda>payload.
              and_then (parse_raw_options payload) (\<lambda>sub.
              and_then (count_vendor sub n) (\<lambda>n. budget_loop D opts depth n))))
      else and_then (nested_option_payload D opt) (\<lambda>nested.
        case nested of
          None \<Rightarrow> budget_loop D opts depth n
        | Some payload \<Rightarrow> and_then (parse_raw_options payload) (\<lambda>sub.
            if sub = [] then budget_loop D opts depth n
            else if depth + 1 > MAX_CLIENT_OPTION_NESTING_DEPTH then
              err (MalformedPacket ''client option nesting limit exceeded'')
            else and_then (budget_loop D sub (depth + 1) n) (\<lambda>n. budget_loop D opts depth n))))"
  by pat_completeness auto
termination
  by (relation "measure (\<lambda>(D, opts, depth, n). weight opts)") (auto intro: nested_lighter)

definition validate_client_option_budget ::
    "('c, 't, 'o, 'm, 'de) dhcproto \<Rightarrow> raw_option list \<Rightarrow> nat \<Rightarrow> nat \<Rightarrow> ('de, nat) decoding" where
  "validate_client_option_budget D opts depth option_count =
     (if depth > MAX_CLIENT_OPTION_NESTING_DEPTH then err (MalformedPacket ''client option nesting limit exceeded'')
      else budget_loop D opts depth option_count)"

text \<open>One option on its own must decode, and encode again, in its full length.\<close>

definition validate_alone :: "('c, 't, 'o, 'm, 'de) dhcproto \<Rightarrow> raw_option \<Rightarrow> ('de, unit) decoding" where
  "validate_alone D opt =
     (case option_decode D (ro_encoded opt) of
        Inl e \<Rightarrow> err (ClientMessageDecode e)
      | Inr (decoded, buffer) \<Rightarrow>
          if buffer \<noteq> [] then err (MalformedPacket ''invalid client option length'')
          else (case option_encode D decoded of
              None \<Rightarrow> err (MalformedPacket ''unencodable client option'')
            | Some encoded \<Rightarrow>
                if length encoded \<noteq> length (ro_encoded opt) then err (MalformedPacket ''partially decoded client option'')
                else ok ()))"

function validate_client_option_semantics ::
    "('c, 't, 'o, 'm, 'de) dhcproto \<Rightarrow> raw_option list \<Rightarrow> ('de, unit) decoding" where
  "validate_client_option_semantics D [] = ok ()"
| "validate_client_option_semantics D (opt # opts) =
     (if is_vendor D opt then validate_client_option_semantics D opts
      else and_then (nested_option_payload D opt) (\<lambda>nested.
           and_then (case nested of
               None \<Rightarrow> ok ()
             | Some payload \<Rightarrow> and_then (parse_raw_options payload) (\<lambda>sub. validate_client_option_semantics D sub))
             (\<lambda>_. and_then (validate_alone D opt) (\<lambda>_. validate_client_option_semantics D opts))))"
  by pat_completeness auto
termination
  by (relation "measure (\<lambda>(D, opts). weight opts)") (auto intro: nested_lighter)

definition validate_client_options ::
    "('c, 't, 'o, 'm, 'de) dhcproto \<Rightarrow> raw_option list \<Rightarrow> ('de, unit) decoding" where
  "validate_client_options D opts =
     and_then (validate_client_option_budget D opts 0 0) (\<lambda>_. validate_client_option_semantics D opts)"

section \<open>Client messages\<close>

definition decode_client_message :: "('c, 't, 'o, 'm, 'de) dhcproto \<Rightarrow> bytes \<Rightarrow> ('de, 'm) decoding" where
  "decode_client_message D packet =
     and_then (get_or (MalformedPacket ''truncated client header'') (slice_from packet 4)) (\<lambda>bs.
     and_then (parse_raw_options bs) (\<lambda>options.
     and_then (validate_client_options D options) (\<lambda>_.
       let sanitized_packet =
             (if \<exists>opt \<in> set options. is_vendor D opt
              then Some (take 4 packet @ concat (map ro_encoded (filter (\<lambda>opt. \<not> is_vendor D opt) options)))
              else None);
           decode_packet = (case sanitized_packet of None \<Rightarrow> packet | Some p \<Rightarrow> p)
       in case message_decode D decode_packet of
            Inl e \<Rightarrow> err (ClientMessageDecode e)
          | Inr message \<Rightarrow>
              ok (fold (\<lambda>opt. opts_insert D (unknown_option D (oc_vendor_opts D) (ro_data opt)))
                    (filter (is_vendor D) options) message))))"

section \<open>Relayed messages\<close>

definition unique_raw_option ::
    "('c, 't, 'o, 'm, 'de) dhcproto \<Rightarrow> raw_option list \<Rightarrow> 'c \<Rightarrow> ('de, bytes option) decoding" where
  "unique_raw_option D options c =
     (case map ro_data (filter (\<lambda>opt. ro_code opt = u16_of_code D c) options) of
        [] \<Rightarrow> ok None
      | [value] \<Rightarrow> ok (Some value)
      | _ \<Rightarrow> err (MalformedPacket ''duplicate relay option''))"

definition owned_unique_raw_option ::
    "('c, 't, 'o, 'm, 'de) dhcproto \<Rightarrow> raw_option list \<Rightarrow> 'c \<Rightarrow> ('de, bytes option) decoding" where
  "owned_unique_raw_option D options c = unique_raw_option D options c"

text \<open>\<open>xs.first()\<close>.\<close>

definition first :: "'a list \<Rightarrow> 'a option" where
  "first xs = (case xs of [] \<Rightarrow> None | x # _ \<Rightarrow> Some x)"

text \<open>\<open>xs[i]\<close> and \<open>xs[i..j]\<close>, and \<open><[u8; 16]>::try_from\<close> on a slice.\<close>

definition index :: "'a list \<Rightarrow> nat \<Rightarrow> 'a option" where
  "index xs i = (if i < length xs then Some (xs ! i) else None)"

definition slice :: "'a list \<Rightarrow> nat \<Rightarrow> nat \<Rightarrow> 'a list option" where
  "slice xs i j = (if i \<le> j \<and> j \<le> length xs then Some (drop i (take j xs)) else None)"

definition octets16 :: "bytes \<Rightarrow> bytes option" where
  "octets16 bs = (if length bs = 16 then Some bs else None)"

definition decode_relay_forward ::
    "('c, 't, 'o, 'm, 'de) dhcproto \<Rightarrow> bytes \<Rightarrow> ('de, 'm decoded_packet) decoding" where
  "decode_relay_forward D packet =
     (if length packet < 34 then err (MalformedPacket ''truncated relay header'')
      else Option.bind (index packet 1) (\<lambda>hops.
        if hops \<noteq> 0 then err (RelayHopCountExceeded hops)
        else Option.bind (slice packet 2 18) (\<lambda>link.
          and_then (get_or (MalformedPacket ''invalid relay link-address'') (octets16 link)) (\<lambda>link.
          Option.bind (slice packet 18 34) (\<lambda>peer.
          and_then (get_or (MalformedPacket ''invalid relay peer-address'') (octets16 peer)) (\<lambda>peer.
          Option.bind (slice_from packet 34) (\<lambda>bs.
          and_then (parse_raw_options bs) (\<lambda>options.
          and_then (unique_raw_option D options (oc_relay_msg D)) (\<lambda>found.
          and_then (get_or MissingRelayMessage found) (\<lambda>relay_message.
            if first relay_message = Some RELAY_FORWARD \<or> first relay_message = Some RELAY_REPLY then err NestedRelay
            else
              and_then (decode_client_message D relay_message) (\<lambda>m.
              and_then (owned_unique_raw_option D options (oc_interface_id D)) (\<lambda>iface.
              and_then (owned_unique_raw_option D options (oc_remote_id D)) (\<lambda>remote.
              and_then (owned_unique_raw_option D options (oc_client_linklayer_addr D)) (\<lambda>lladdr.
                ok \<lparr>dp_message = m, dp_relay = Some \<lparr>hop_count = hops, link_address = link, peer_address = peer,
                      interface_id = iface, remote_id = remote, client_link_layer = lladdr\<rparr>\<rparr>))))))))))))))"

definition decode :: "('c, 't, 'o, 'm, 'de) dhcproto \<Rightarrow> bytes \<Rightarrow> ('de, 'm decoded_packet) decoding" where
  "decode D packet =
     (case first packet of
        None \<Rightarrow> err (MalformedPacket ''empty packet'')
      | Some t \<Rightarrow>
          if t = RELAY_FORWARD then decode_relay_forward D packet
          else if t = RELAY_REPLY then err UnexpectedRelayReply
          else and_then (decode_client_message D packet) (\<lambda>m. ok \<lparr>dp_message = m, dp_relay = None\<rparr>))"

text \<open>The scan for the type of the relayed message; its first argument is what is left of its iterations.\<close>

primrec relay_type_loop :: "('c, 't, 'o, 'm, 'de) dhcproto \<Rightarrow> nat \<Rightarrow> bytes \<Rightarrow> 't option" where
  "relay_type_loop D 0 options = None"
| "relay_type_loop D (Suc k) options =
     (if options = [] then None
      else (case options of
          c1 # c2 # l1 # l2 # rest \<Rightarrow>
            (let encoded_length = 4 + unat (u16_be l1 l2) in
             Option.bind (slice options 4 encoded_length) (\<lambda>payload.
             if option_code D (u16_be c1 c2) = oc_relay_msg D then map_option (message_type D) (first payload)
             else Option.bind (slice_from options encoded_length) (relay_type_loop D k)))
        | _ \<Rightarrow> None))"

definition relay_message_type :: "('c, 't, 'o, 'm, 'de) dhcproto \<Rightarrow> bytes \<Rightarrow> 't option" where
  "relay_message_type D packet = Option.bind (slice_from packet 34) (relay_type_loop D MAX_CLIENT_OPTIONS)"

definition request_message_type :: "('c, 't, 'o, 'm, 'de) dhcproto \<Rightarrow> bytes \<Rightarrow> 't" where
  "request_message_type D packet =
     (let outer_type = message_type D (case first packet of None \<Rightarrow> 0 | Some t \<Rightarrow> t) in
      if outer_type \<noteq> mt_relay_forw D then outer_type
      else (case relay_message_type D packet of None \<Rightarrow> outer_type | Some t \<Rightarrow> t))"

section \<open>Identities\<close>

definition parse_link_layer_duid :: "bytes \<Rightarrow> nat \<Rightarrow> (duid_error + duid_mac) option" where
  "parse_link_layer_duid bs time_length =
     (let link_layer_offset = 2 + time_length in
      if length bs \<le> link_layer_offset then err Malformed
      else Option.bind (index bs 0) (\<lambda>b0. Option.bind (index bs 1) (\<lambda>b1.
        if u16_be b0 b1 \<noteq> 1 then ok NoLinkLayerMac
        else Option.bind (slice_from bs link_layer_offset) (\<lambda>mac.
          if length mac \<noteq> 6 then err Malformed else ok (Mac mac)))))"

definition extract_mac_from_duid :: "bytes \<Rightarrow> (duid_error + duid_mac) option" where
  "extract_mac_from_duid duid =
     (if \<not> (3 \<le> length duid \<and> length duid \<le> 130) then err Malformed
      else Option.bind (index duid 0) (\<lambda>d0. Option.bind (index duid 1) (\<lambda>d1.
        let duid_type = u16_be d0 d1 in
        if duid_type = 1 then Option.bind (slice_from duid 2) (\<lambda>bs. parse_link_layer_duid bs 4)
        else if duid_type = 3 then Option.bind (slice_from duid 2) (\<lambda>bs. parse_link_layer_duid bs 0)
        else if duid_type = 2 \<and> length duid \<ge> 7 then ok NoLinkLayerMac
        else if duid_type = 4 \<and> length duid = 18 then ok NoLinkLayerMac
        else if duid_type = 2 \<or> duid_type = 4 then err Malformed
        else ok NoLinkLayerMac)))"

definition extract_mac_from_option79 :: "bytes \<Rightarrow> bytes option option" where
  "extract_mac_from_option79 payload =
     (if length payload \<noteq> 8 then Some None
      else Option.bind (index payload 0) (\<lambda>p0. Option.bind (index payload 1) (\<lambda>p1.
        Option.bind (slice payload 2 8) (\<lambda>mac. Some (if u16_be p0 p1 = 1 then Some mac else None)))))"

end
