(* ===== verification/Dhcpv6_Theorems.thy ===== *)
theory Dhcpv6_Theorems
  imports Dhcpv6
begin

text \<open>
  What the DHCPv6 decoder guarantees for every packet: it does not panic, it hands only complete
  and bounded option trees to the typed decoder, and the type it reports for metrics is that of the message it
  decodes.
\<close>

section \<open>Framing\<close>

definition be16 :: "u16 \<Rightarrow> bytes" where
  "be16 w = [word_of_nat (unat w div 256), word_of_nat (unat w mod 256)]"

definition framed_option :: "raw_option \<Rightarrow> bool" where
  "framed_option opt \<longleftrightarrow> length (ro_data opt) < 65536 \<and>
     ro_encoded opt = be16 (ro_code opt) @ be16 (word_of_nat (length (ro_data opt))) @ ro_data opt"

definition framed :: "bytes \<Rightarrow> raw_option list \<Rightarrow> bool" where
  "framed bs opts \<longleftrightarrow> bs = concat (map ro_encoded opts) \<and> list_all framed_option opts"

lemma unat_u16: "n < 2 ^ 16 \<Longrightarrow> unat (word_of_nat n :: u16) = n"
  by (simp add: unsigned_of_nat take_bit_nat_eq_self)

lemma unat_u16_be: "unat (u16_be a b) = 256 * unat a + unat b"
proof -
  have "unat a < 256" "unat b < 256" using unsigned_less [of a] unsigned_less [of b] by simp_all
  then have "256 * unat a + unat b < 2 ^ 16" by simp
  then show ?thesis unfolding u16_be_def by (rule unat_u16)
qed

lemma be16_u16_be [simp]: "be16 (u16_be a b) = [a, b]"
proof -
  have "unat b < 256" using unsigned_less [of b] by simp
  then show ?thesis by (simp add: be16_def unat_u16_be)
qed

lemma unat_byte: "n < 256 \<Longrightarrow> unat (word_of_nat n :: u8) = n"
  by (simp add: unsigned_of_nat take_bit_nat_eq_self)

lemma be16E: obtains a b where "be16 w = [a, b]" "u16_be a b = w"
proof -
  have "unat w < 65536" using unsigned_less [of w] by simp
  then have "u16_be (word_of_nat (unat w div 256)) (word_of_nat (unat w mod 256)) = w"
    by (simp add: u16_be_def unat_byte)
  then show thesis by (intro that) (simp_all add: be16_def)
qed

lemma framed_option_iff:
  "framed_option opt \<longleftrightarrow> (\<exists>c1 c2 l1 l2 payload. length payload = unat (u16_be l1 l2) \<and> opt = header_option c1 c2 l1 l2 payload)"
    (is "_ \<longleftrightarrow> ?R")
proof
  assume f: "framed_option opt"
  obtain c1 c2 where c: "be16 (ro_code opt) = [c1, c2]" "u16_be c1 c2 = ro_code opt" by (rule be16E)
  obtain l1 l2 where l: "be16 (word_of_nat (length (ro_data opt))) = [l1, l2]"
    "u16_be l1 l2 = word_of_nat (length (ro_data opt))" by (rule be16E)
  have "length (ro_data opt) = unat (u16_be l1 l2)"
    using f by (simp add: l(2) framed_option_def unsigned_of_nat take_bit_nat_eq_self)
  moreover have "opt = header_option c1 c2 l1 l2 (ro_data opt)"
    using f by (simp add: framed_option_def header_option_def c l(1))
  ultimately show ?R by blast
next
  assume ?R
  then obtain c1 c2 l1 l2 payload where o: "length payload = unat (u16_be l1 l2)" "opt = header_option c1 c2 l1 l2 payload"
    by blast
  have "length payload < 65536" using unsigned_less [of "u16_be l1 l2"] by (simp add: o(1))
  then show "framed_option opt" using o by (simp add: framed_option_def header_option_def)
qed

lemma parse_framed: "parse_raw_options bs = ok opts \<Longrightarrow> framed bs opts"
proof (induction opts arbitrary: bs)
  case Nil
  then show ?case by (rule parse_okE) (simp_all add: framed_def)
next
  case (Cons opt opts)
  from Cons.prems show ?case
  proof (rule parse_okE)
    fix c1 c2 l1 l2 payload rest os
    assume *: "bs = c1 # c2 # l1 # l2 # payload @ rest" "length payload = unat (u16_be l1 l2)"
      "parse_raw_options rest = (ok os :: ('a, raw_option list) decoding)" "opt # opts = header_option c1 c2 l1 l2 payload # os"
    then have "framed rest opts" using Cons.IH by simp
    moreover have "framed_option opt" using *(2,4) unfolding framed_option_iff by blast
    ultimately show ?thesis using * by (simp add: framed_def header_option_def)
  qed simp
qed

lemma framed_parse: "framed bs opts \<Longrightarrow> parse_raw_options bs = ok opts"
proof (induction opts arbitrary: bs)
  case (Cons opt opts)
  then obtain c1 c2 l1 l2 payload where o: "length payload = unat (u16_be l1 l2)" "opt = header_option c1 c2 l1 l2 payload"
    by (auto simp: framed_def framed_option_iff)
  have "framed (concat (map ro_encoded opts)) opts" using Cons.prems by (simp add: framed_def)
  from Cons.IH [OF this] show ?case
    using Cons.prems o by (simp add: framed_def header_option_def parse_step)
qed (simp add: framed_def)

text \<open>Parsing and framing are inverse to each other.\<close>

lemma parse_iff: "parse_raw_options bs = ok opts \<longleftrightarrow> framed bs opts"
  using parse_framed framed_parse by blast

section \<open>No panics\<close>

definition returns :: "'a option \<Rightarrow> bool" where
  "returns r \<longleftrightarrow> r \<noteq> None"

named_theorems no_panic \<open>calls that return\<close>

lemma returns_basic [no_panic]: "returns (ok x)" "returns (err e)" "returns (get_or e y)" "returns (Some z)"
  by (simp_all add: returns_def get_or_def split: option.splits)

lemma returns_and_then [no_panic]: "returns r \<Longrightarrow> (\<And>x. r = ok x \<Longrightarrow> returns (f x)) \<Longrightarrow> returns (and_then r f)"
  by (auto simp: returns_def and_then_def ok_def split: option.splits sum.splits)

lemma returns_if [no_panic]: "(b \<Longrightarrow> returns r) \<Longrightarrow> (\<not> b \<Longrightarrow> returns s) \<Longrightarrow> returns (if b then r else s)"
  by simp

lemma returns_bind [no_panic]: "returns x \<Longrightarrow> (\<And>y. x = Some y \<Longrightarrow> returns (f y)) \<Longrightarrow> returns (Option.bind x f)"
  by (auto simp: returns_def)

lemma returns_option [no_panic]:
  "(y = None \<Longrightarrow> returns a) \<Longrightarrow> (\<And>x. y = Some x \<Longrightarrow> returns (b x)) \<Longrightarrow> returns (case y of None \<Rightarrow> a | Some x \<Rightarrow> b x)"
  by (cases y) simp_all

lemma returns_sum [no_panic]:
  "(\<And>e. returns (a e)) \<Longrightarrow> (\<And>x. y = Inr x \<Longrightarrow> returns (b x)) \<Longrightarrow> returns (case y of Inl e \<Rightarrow> a e | Inr x \<Rightarrow> b x)"
  by (cases y) simp_all

lemma parse_returns [no_panic]: "returns (parse_raw_options bs)"
proof (induction bs rule: measure_induct_rule [of length])
  case (less bs)
  show ?case
  proof (cases "bs = [] \<or> length bs < 4")
    case True
    then show ?thesis by (cases "bs = []") (simp_all add: parse_short no_panic)
  next
    case False
    then obtain c1 c2 l1 l2 rest where bs: "bs = c1 # c2 # l1 # l2 # rest" using four_bytes by blast
    show ?thesis unfolding bs parse_step by (intro no_panic less) (simp add: bs)
  qed
qed

lemma nested_returns [no_panic]: "returns (nested_option_payload D opt)"
  unfolding nested_option_payload_def Let_def by (intro no_panic)

lemma count_vendor_returns [no_panic]: "returns (count_vendor opts n)"
  by (induction opts arbitrary: n) (simp_all add: no_panic)

lemma budget_returns [no_panic]: "returns (budget_loop D opts depth n)"
proof (induction D opts depth n rule: budget_loop.induct)
  case (2 D opt opts depth n)
  then show ?case
    unfolding budget_loop.simps(2) Let_def by (intro no_panic) (simp_all add: ok_def)
qed (simp add: no_panic)

lemma alone_returns [no_panic]: "returns (validate_alone D opt)"
  unfolding validate_alone_def by (auto intro!: no_panic split: prod.split)

lemma semantics_returns [no_panic]: "returns (validate_client_option_semantics D opts)"
proof (induction D opts rule: validate_client_option_semantics.induct)
  case (2 D opt opts)
  then show ?case
    unfolding validate_client_option_semantics.simps(2) by (intro no_panic) (simp_all add: ok_def)
qed (simp add: no_panic)

lemma client_message_returns [no_panic]: "returns (decode_client_message D packet)"
  unfolding decode_client_message_def validate_client_options_def validate_client_option_budget_def Let_def
  by (intro no_panic)

lemma unique_returns [no_panic]: "returns (unique_raw_option D opts c)" "returns (owned_unique_raw_option D opts c)"
  unfolding unique_raw_option_def owned_unique_raw_option_def by (auto simp: no_panic split: list.split)

lemma in_range [no_panic]:
  "i < length xs \<Longrightarrow> returns (index xs i)" "i \<le> length xs \<Longrightarrow> returns (slice_from xs i)"
  "i \<le> j \<Longrightarrow> j \<le> length xs \<Longrightarrow> returns (slice xs i j)"
  by (simp_all add: index_def slice_from_def slice_def returns_def)

lemma relay_returns [no_panic]: "returns (decode_relay_forward D packet)"
  unfolding decode_relay_forward_def by (intro no_panic) (auto simp: slice_from_def split: if_splits)

lemma duid_returns: "returns (extract_mac_from_duid duid)"
  unfolding extract_mac_from_duid_def parse_link_layer_duid_def Let_def
  by (intro no_panic) (auto simp: slice_from_def split: if_splits)


section \<open>The option tree\<close>

text \<open>The offset of the nested options of a container, if the option is one.\<close>

definition container_offset :: "('c, 't, 'o, 'm, 'de) dhcproto \<Rightarrow> raw_option \<Rightarrow> nat option" where
  "container_offset D opt =
     (let c = option_code D (ro_code opt) in
      if c = oc_iana D \<or> c = oc_iapd D then Some 12 else if c = oc_iata D then Some 4
      else if c = oc_iaaddr D then Some 24 else if c = oc_iaprefix D then Some 25 else None)"

definition is_relay_msg :: "('c, 't, 'o, 'm, 'de) dhcproto \<Rightarrow> raw_option \<Rightarrow> bool" where
  "is_relay_msg D opt = (option_code D (ro_code opt) = oc_relay_msg D \<and> container_offset D opt = None)"

text \<open>The options in the payload of an option from an offset on.\<close>

definition suboptions :: "raw_option \<Rightarrow> nat \<Rightarrow> raw_option list" where
  "suboptions opt offset = (case parse_raw_options (drop offset (ro_data opt)) :: (unit, raw_option list) decoding of
     Some (Inr sub) \<Rightarrow> sub | _ \<Rightarrow> [])"

definition nested :: "('c, 't, 'o, 'm, 'de) dhcproto \<Rightarrow> raw_option \<Rightarrow> raw_option list" where
  "nested D opt = (if is_vendor D opt then [] else
     case container_offset D opt of None \<Rightarrow> [] | Some offset \<Rightarrow> suboptions opt offset)"

lemma suboptions_weight: "weight (suboptions opt offset) \<le> length (ro_data opt)"
proof -
  have "weight (suboptions opt offset) \<le> length (drop offset (ro_data opt))"
    unfolding suboptions_def by (auto split: option.splits sum.splits simp flip: ok_def dest: parse_weight)
  then show ?thesis by simp
qed

lemma nested_weight_less: "weight (nested D opt) < Suc (length (ro_data opt) + m)"
  using suboptions_weight [of opt] by (auto simp: nested_def less_Suc_eq_le trans_le_add1 split: option.splits)

text \<open>All options of a message with the depth at which they stand.\<close>

function option_tree :: "('c, 't, 'o, 'm, 'de) dhcproto \<Rightarrow> nat \<Rightarrow> raw_option list \<Rightarrow> (nat \<times> raw_option) list" where
  "option_tree D d [] = []"
| "option_tree D d (opt # opts) = (d, opt) # option_tree D (Suc d) (nested D opt) @ option_tree D d opts"
  by pat_completeness auto
termination
  by (relation "measure (\<lambda>(D, d, opts). weight opts)") (auto simp: nested_weight_less)

text \<open>An option that is complete down to its suboptions and stands where it may.\<close>

definition well_placed :: "('c, 't, 'o, 'm, 'de) dhcproto \<Rightarrow> nat \<times> raw_option \<Rightarrow> bool" where
  "well_placed D x = (case x of (d, opt) \<Rightarrow> d \<le> 8 \<and>
     (if is_vendor D opt then d = 0 \<and> 4 \<le> length (ro_data opt) \<and> (\<exists>sub. framed (drop 4 (ro_data opt)) sub)
      else \<not> is_relay_msg D opt \<and>
        (case container_offset D opt of None \<Rightarrow> True
         | Some offset \<Rightarrow> offset \<le> length (ro_data opt) \<and> (\<exists>sub. framed (drop offset (ro_data opt)) sub))))"

text \<open>Vendor suboptions count although they are not decoded.\<close>

definition option_count :: "('c, 't, 'o, 'm, 'de) dhcproto \<Rightarrow> (nat \<times> raw_option) list \<Rightarrow> nat" where
  "option_count D tree = (\<Sum>x \<leftarrow> tree. Suc (if is_vendor D (snd x) then length (suboptions (snd x) 4) else 0))"

text \<open>The option decodes and encodes again on its own, in full length.\<close>

definition decodes_alone :: "('c, 't, 'o, 'm, 'de) dhcproto \<Rightarrow> raw_option \<Rightarrow> bool" where
  "decodes_alone D opt \<longleftrightarrow> (\<exists>decoded encoded. option_decode D (ro_encoded opt) = Inr (decoded, []) \<and>
     option_encode D decoded = Some encoded \<and> length encoded = length (ro_encoded opt))"

lemma suboptions_framed: "framed (drop offset (ro_data opt)) sub \<Longrightarrow> suboptions opt offset = sub"
  by (simp add: suboptions_def framed_parse ok_def)

lemma option_count_simps [simp]:
  "option_count D [] = 0" "option_count D (xs @ ys) = option_count D xs + option_count D ys"
  "option_count D ((d, opt) # xs) = Suc (if is_vendor D opt then length (suboptions opt 4) else 0) + option_count D xs"
  by (simp_all add: option_count_def)

lemma count_vendor_ok: "n \<le> 256 \<Longrightarrow> count_vendor sub n = ok n' \<longleftrightarrow> n' = n + length sub \<and> n' \<le> 256"
  by (induction sub arbitrary: n) (auto simp: MAX_CLIENT_OPTIONS_def)

lemma nested_payload_ok:
  "\<not> is_vendor D opt \<Longrightarrow> nested_option_payload D opt = ok x \<longleftrightarrow> \<not> is_relay_msg D opt \<and>
     (case container_offset D opt of None \<Rightarrow> x = None
      | Some offset \<Rightarrow> offset \<le> length (ro_data opt) \<and> x = Some (drop offset (ro_data opt)))"
  by (auto simp: nested_option_payload_def container_offset_def is_relay_msg_def Let_def slice_from_def)

lemma validate_alone_ok: "validate_alone D opt = ok u \<longleftrightarrow> decodes_alone D opt"
  by (auto simp: validate_alone_def decodes_alone_def split: sum.splits prod.splits if_splits option.splits)


text \<open>What one option adds to the count, and the condition on it, before the loop goes on.\<close>

lemma budget_step:
  assumes "d \<le> 8" "n \<le> 256"
    and IH: "\<And>n1 n2. n1 \<le> 256 \<Longrightarrow> Suc d \<le> 8 \<Longrightarrow> budget_loop D (nested D opt) (Suc d) n1 = ok n2 \<longleftrightarrow>
      list_all (well_placed D) (option_tree D (Suc d) (nested D opt)) \<and>
      n2 = n1 + option_count D (option_tree D (Suc d) (nested D opt)) \<and> n2 \<le> 256"
  shows "budget_loop D (opt # opts) d n = ok n' \<longleftrightarrow>
    (\<exists>n1. well_placed D (d, opt) \<and> list_all (well_placed D) (option_tree D (Suc d) (nested D opt)) \<and>
      n1 = n + option_count D ((d, opt) # option_tree D (Suc d) (nested D opt)) \<and> n1 \<le> 256 \<and> budget_loop D opts d n1 = ok n')"
proof (cases "n = 256")
  case True
  then show ?thesis by (simp add: MAX_CLIENT_OPTIONS_def)
next
  case False
  with assms have n: "Suc n \<le> 256" by simp
  consider (vendor) "is_vendor D opt" | (relay) "\<not> is_vendor D opt" "is_relay_msg D opt"
    | (plain) "\<not> is_vendor D opt" "\<not> is_relay_msg D opt" "container_offset D opt = None"
    | (container) offset where "\<not> is_vendor D opt" "\<not> is_relay_msg D opt" "container_offset D opt = Some offset"
    by (cases "container_offset D opt") blast+
  then show ?thesis
  proof cases
    case vendor
    then show ?thesis using n assms(1)
      by (auto simp: Let_def MAX_CLIENT_OPTIONS_def and_then_ok get_or_def slice_from_def parse_iff count_vendor_ok well_placed_def
          nested_def suboptions_framed)
  next
    case relay
    then show ?thesis by (auto simp: Let_def well_placed_def and_then_ok nested_payload_ok)
  next
    case plain
    then show ?thesis using n assms(1)
      by (auto simp: Let_def MAX_CLIENT_OPTIONS_def and_then_ok nested_payload_ok well_placed_def nested_def)
  next
    case (container offset)
    show ?thesis
    proof (cases "offset \<le> length (ro_data opt) \<and> (\<exists>sub. framed (drop offset (ro_data opt)) sub)")
      case False
      then show ?thesis using container n
        by (auto simp: Let_def well_placed_def and_then_ok nested_payload_ok parse_iff split: if_splits)
    next
      case True
      then obtain sub where sub: "offset \<le> length (ro_data opt)" "framed (drop offset (ro_data opt)) sub" by blast
      have nested: "nested D opt = sub" using container sub by (simp add: nested_def suboptions_framed)
      have placed: "well_placed D (d, opt)" using container sub assms(1) by (auto simp: well_placed_def)
      have "nested_option_payload D opt = ok (Some (drop offset (ro_data opt)))"
        using container sub by (simp add: nested_payload_ok)
      then have loop: "budget_loop D (opt # opts) d n =
          (if sub = [] then budget_loop D opts d (Suc n)
           else if Suc d > 8 then err (MalformedPacket ''client option nesting limit exceeded'')
           else and_then (budget_loop D sub (Suc d) (Suc n)) (budget_loop D opts d))"
        using container(1) n sub(2)
        by (simp add: Let_def MAX_CLIENT_OPTIONS_def MAX_CLIENT_OPTION_NESTING_DEPTH_def framed_parse)
      have deep: "\<not> list_all (well_placed D) (option_tree D (Suc d) sub)" if "sub \<noteq> []" "\<not> Suc d \<le> 8"
        using that by (cases sub) (simp_all add: well_placed_def)
      show ?thesis
        using IH [OF n] placed deep n container(1) unfolding loop nested by (auto simp: and_then_ok)
    qed
  qed
qed


lemma budget_ok:
  "n \<le> 256 \<Longrightarrow> d \<le> 8 \<Longrightarrow> budget_loop D opts d n = ok n' \<longleftrightarrow>
    list_all (well_placed D) (option_tree D d opts) \<and> n' = n + option_count D (option_tree D d opts) \<and> n' \<le> 256"
proof (induction D d opts arbitrary: n n' rule: option_tree.induct)
  case (2 D d opt opts)
  have "budget_loop D (opt # opts) d n = ok n' \<longleftrightarrow>
    (\<exists>n1. well_placed D (d, opt) \<and> list_all (well_placed D) (option_tree D (Suc d) (nested D opt)) \<and>
      n1 = n + option_count D ((d, opt) # option_tree D (Suc d) (nested D opt)) \<and> n1 \<le> 256 \<and> budget_loop D opts d n1 = ok n')"
    by (rule budget_step [OF "2.prems"(2,1)]) (rule "2.IH"(1))
  moreover have "option_count D (option_tree D d (opt # opts)) =
      option_count D ((d, opt) # option_tree D (Suc d) (nested D opt)) + option_count D (option_tree D d opts)" by simp
  ultimately show ?case
    using "2.IH"(2) [OF _ "2.prems"(2)] by (auto simp del: budget_loop.simps option_count_simps)
qed auto

lemma semantics_ok:
  "list_all (well_placed D) (option_tree D d opts) \<Longrightarrow> validate_client_option_semantics D opts = ok u \<longleftrightarrow>
    list_all (\<lambda>x. is_vendor D (snd x) \<or> decodes_alone D (snd x)) (option_tree D d opts)"
proof (induction D d opts arbitrary: u rule: option_tree.induct)
  case (2 D d opt opts)
  have placed: "well_placed D (d, opt)" and IH:
    "validate_client_option_semantics D (nested D opt) = ok () \<longleftrightarrow>
      list_all (\<lambda>x. is_vendor D (snd x) \<or> decodes_alone D (snd x)) (option_tree D (Suc d) (nested D opt))"
    "validate_client_option_semantics D opts = ok () \<longleftrightarrow>
      list_all (\<lambda>x. is_vendor D (snd x) \<or> decodes_alone D (snd x)) (option_tree D d opts)"
    using 2 by auto
  show ?case
  proof (cases "is_vendor D opt")
    case True
    then show ?thesis using IH by (simp add: nested_def)
  next
    case False
    then show ?thesis
    proof (cases "container_offset D opt")
      case None
      then show ?thesis using False placed IH
        by (auto simp: and_then_ok nested_payload_ok well_placed_def nested_def validate_alone_ok)
    next
      case (Some offset)
      then obtain sub where sub: "offset \<le> length (ro_data opt)" "framed (drop offset (ro_data opt)) sub"
        using placed False by (auto simp: well_placed_def)
      have "nested D opt = sub" using False Some sub by (simp add: nested_def suboptions_framed)
      then show ?thesis using False Some placed IH sub
        by (auto simp: and_then_ok nested_payload_ok well_placed_def validate_alone_ok framed_parse)
    qed
  qed
qed simp

lemma validate_ok:
  "validate_client_options D opts = ok u \<longleftrightarrow>
    (let tree = option_tree D 0 opts in list_all (well_placed D) tree \<and> option_count D tree \<le> 256 \<and>
      list_all (\<lambda>x. is_vendor D (snd x) \<or> decodes_alone D (snd x)) tree)"
  using budget_ok [of 0 0 D opts] semantics_ok [of D 0 opts]
  by (auto simp: validate_client_options_def validate_client_option_budget_def and_then_ok Let_def)


lemma bind_ok: "Option.bind x f = ok y \<longleftrightarrow> (\<exists>z. x = Some z \<and> f z = ok y)"
  by (cases x) (simp_all add: ok_def)

lemma get_or_ok: "get_or e v = ok x \<longleftrightarrow> v = Some x"
  by (auto simp: get_or_def split: option.splits)

lemma slice_from_Some: "slice_from xs i = Some ys \<longleftrightarrow> i \<le> length xs \<and> ys = drop i xs"
  by (auto simp: slice_from_def)

lemma decoded_ok: "(case r of Inl e \<Rightarrow> err (g e) | Inr x \<Rightarrow> ok (f x)) = ok y \<longleftrightarrow> (\<exists>x. r = Inr x \<and> y = f x)"
  by (cases r) auto

text \<open>
  C8: The decoder accepts a client message exactly when its options are framed to the last byte; every option of the option tree
  is complete, at most 8 levels deep, and decodes and encodes alone in its full length, or is a framed vendor option at the top;
  there are at most 256 options; and the typed decoder accepts the message without its vendor options. The
  result is that message with the payloads of the vendor options, unchanged and in order.
\<close>

theorem accepted_client_message:
  "decode_client_message D packet = ok m \<longleftrightarrow>
    (\<exists>opts m0. 4 \<le> length packet \<and> framed (drop 4 packet) opts \<and>
      (\<forall>x \<in> set (option_tree D 0 opts). well_placed D x \<and> (is_vendor D (snd x) \<or> decodes_alone D (snd x))) \<and>
      option_count D (option_tree D 0 opts) \<le> 256 \<and>
      message_decode D (take 4 packet @ concat (map ro_encoded (filter (\<lambda>opt. \<not> is_vendor D opt) opts))) = Inr m0 \<and>
      m = fold (\<lambda>opt. opts_insert D (unknown_option D (oc_vendor_opts D) (ro_data opt))) (filter (is_vendor D) opts) m0)"
proof -
  let ?S = "\<lambda>opts. take 4 packet @ concat (map ro_encoded (filter (\<lambda>opt. \<not> is_vendor D opt) opts))"
  let ?V = "\<lambda>opts. case if \<exists>opt \<in> set opts. is_vendor D opt then Some (?S opts) else None of None \<Rightarrow> packet | Some p \<Rightarrow> p"
  let ?F = "\<lambda>p opts. case message_decode D p of Inl e \<Rightarrow> err (ClientMessageDecode e)
    | Inr m0 \<Rightarrow> ok (fold (\<lambda>opt. opts_insert D (unknown_option D (oc_vendor_opts D) (ro_data opt))) (filter (is_vendor D) opts) m0)"
  have sanitized: "?V opts = ?S opts" if "framed (drop 4 packet) opts" for opts
  proof (cases "\<exists>opt \<in> set opts. is_vendor D opt")
    case False
    then have "filter (\<lambda>opt. \<not> is_vendor D opt) opts = opts" by (auto simp: filter_id_conv)
    moreover have "concat (map ro_encoded opts) = drop 4 packet" using that by (simp add: framed_def)
    ultimately show ?thesis using False by simp
  qed simp
  have "decode_client_message D packet = ok m \<longleftrightarrow> 4 \<le> length packet \<and>
      (\<exists>opts. framed (drop 4 packet) opts \<and> validate_client_options D opts = ok () \<and> ?F (?V opts) opts = ok m)"
    unfolding decode_client_message_def Let_def and_then_ok parse_iff get_or_ok slice_from_Some by (simp only: ex_simps) auto
  also have "\<dots> \<longleftrightarrow> 4 \<le> length packet \<and>
      (\<exists>opts. framed (drop 4 packet) opts \<and> validate_client_options D opts = ok () \<and> ?F (?S opts) opts = ok m)"
    by (intro conj_cong refl arg_cong [where f = Ex] ext) (simp only: sanitized)
  finally show ?thesis unfolding decoded_ok validate_ok Let_def list_all_iff by blast
qed

section \<open>Relayed messages\<close>

definition payloads :: "('c, 't, 'o, 'm, 'de) dhcproto \<Rightarrow> 'c \<Rightarrow> raw_option list \<Rightarrow> bytes list" where
  "payloads D c opts = map ro_data (filter (\<lambda>opt. ro_code opt = u16_of_code D c) opts)"

definition maybe_one :: "'a option \<Rightarrow> 'a list" where
  "maybe_one v = (case v of None \<Rightarrow> [] | Some x \<Rightarrow> [x])"

lemma unique_ok:
  "unique_raw_option D opts c = ok v \<longleftrightarrow> payloads D c opts = maybe_one v"
  "owned_unique_raw_option D opts c = ok v \<longleftrightarrow> payloads D c opts = maybe_one v"
  by (auto simp: unique_raw_option_def owned_unique_raw_option_def payloads_def maybe_one_def split: list.splits option.splits)

lemma relay_header:
  assumes "length link = 16" "length peer = 16"
  shows "take 16 (drop 2 (t # h # link @ peer @ bs)) = link" "slice (t # h # link @ peer @ bs) 2 18 = Some link"
    "slice (t # h # link @ peer @ bs) 18 34 = Some peer" "slice_from (t # h # link @ peer @ bs) 34 = Some bs"
  using assms by (simp_all add: slice_def slice_from_def take_Cons' drop_Cons')

text \<open>
  C14: A relayed packet is accepted exactly when its hop count is 0, its options are framed to the last byte and hold one relay message
  that is an acceptable client message and not itself relayed, and none of the three options that
  identify the client occurs twice. The result is that message with the link and peer address of
  the header and the payloads of the three options.
\<close>

theorem relay_decoding:
  assumes "length link = 16" "length peer = 16"
  shows "decode D (RELAY_FORWARD # hops # link @ peer @ bs) = ok p \<longleftrightarrow>
    hops = 0 \<and> (\<exists>opts msg m iface remote lladdr. framed bs opts \<and>
      payloads D (oc_relay_msg D) opts = [msg] \<and> hd msg \<noteq> RELAY_FORWARD \<and> hd msg \<noteq> RELAY_REPLY \<and>
      decode_client_message D msg = ok m \<and>
      payloads D (oc_interface_id D) opts = maybe_one iface \<and> payloads D (oc_remote_id D) opts = maybe_one remote \<and>
      payloads D (oc_client_linklayer_addr D) opts = maybe_one lladdr \<and>
      p = \<lparr>dp_message = m, dp_relay = Some \<lparr>hop_count = 0, link_address = link, peer_address = peer,
             interface_id = iface, remote_id = remote, client_link_layer = lladdr\<rparr>\<rparr>)"
proof -
  have msg: "msg \<noteq> []" if "decode_client_message D msg = ok m" for msg m
    using that by (auto simp: decode_client_message_def and_then_ok get_or_def slice_from_def)
  have first: "first msg = Some t \<longleftrightarrow> msg \<noteq> [] \<and> hd msg = t" for msg t by (cases msg) (auto simp: first_def)
  have relay: "decode_relay_forward D (RELAY_FORWARD # hops # link @ peer @ bs) = ok p \<longleftrightarrow> hops = 0 \<and>
    (\<exists>opts found msg. framed bs opts \<and> payloads D (oc_relay_msg D) opts = maybe_one found \<and> found = Some msg \<and>
      first msg \<noteq> Some RELAY_FORWARD \<and> first msg \<noteq> Some RELAY_REPLY \<and> (\<exists>m. decode_client_message D msg = ok m \<and>
      (\<exists>iface. payloads D (oc_interface_id D) opts = maybe_one iface \<and>
      (\<exists>remote. payloads D (oc_remote_id D) opts = maybe_one remote \<and>
      (\<exists>lladdr. payloads D (oc_client_linklayer_addr D) opts = maybe_one lladdr \<and>
      p = \<lparr>dp_message = m, dp_relay = Some \<lparr>hop_count = hops, link_address = link, peer_address = peer,
             interface_id = iface, remote_id = remote, client_link_layer = lladdr\<rparr>\<rparr>)))))"
    using assms
    by (simp add: decode_relay_forward_def index_def relay_header octets16_def and_then_ok get_or_ok unique_ok parse_iff) blast
  have dec: "decode D (RELAY_FORWARD # hops # link @ peer @ bs) = decode_relay_forward D (RELAY_FORWARD # hops # link @ peer @ bs)"
    by (simp add: decode_def first_def)
  have one: "maybe_one (Some x) = [x]" for x :: bytes by (simp add: maybe_one_def)
  show ?thesis unfolding dec relay first
  proof (intro conj_cong refl iffI, goal_cases)
    case 1
    then show ?case using msg one by (metis (no_types, lifting))
  next
    case 2
    then show ?case using one by (metis (no_types, lifting))
  qed
qed


section \<open>The contract of the typed decoder\<close>

text \<open>The codes and types of \<open>dhcproto\<close> are the numbers of the protocol.\<close>

locale dhcproto_laws =
  fixes D :: "('c, 't, 'o, 'm, 'de) dhcproto"
  assumes relay_msg_code: "option_code D w = oc_relay_msg D \<longleftrightarrow> w = u16_of_code D (oc_relay_msg D)"
    and relay_forw_type: "message_type D t = mt_relay_forw D \<longleftrightarrow> t = RELAY_FORWARD"
begin

lemma scan_finds:
  "framed bs opts \<Longrightarrow> relay_type_loop D n bs =
    Option.bind (find (\<lambda>opt. ro_code opt = u16_of_code D (oc_relay_msg D)) (take n opts)) (\<lambda>opt. map_option (message_type D) (first (ro_data opt)))"
proof (induction n arbitrary: bs opts)
  case (Suc n)
  show ?case
  proof (cases opts)
    case Nil
    then show ?thesis using Suc.prems by (simp add: framed_def)
  next
    case (Cons opt rest)
    then obtain c1 c2 l1 l2 payload where o: "length payload = unat (u16_be l1 l2)" "opt = header_option c1 c2 l1 l2 payload"
      using Suc.prems by (auto simp: framed_def framed_option_iff)
    let ?rest = "concat (map ro_encoded rest)"
    have f: "framed ?rest rest" "bs = c1 # c2 # l1 # l2 # payload @ ?rest"
      using Suc.prems by (simp_all add: Cons framed_def o header_option_def)
    have "slice bs 4 (4 + unat (u16_be l1 l2)) = Some payload" "slice_from bs (4 + unat (u16_be l1 l2)) = Some ?rest"
      using o(1) by (simp_all add: f(2) slice_def slice_from_def)
    then show ?thesis using Suc.IH [OF f(1)]
      by (simp add: f(2) Cons o(2) header_option_def Let_def relay_msg_code)
  qed
qed simp

end

text \<open>A reference implementation: options and messages stay bytes.\<close>

definition ref_dhcp :: "(u16, u8, bytes, bytes \<times> bytes list, string) dhcproto" where
  "ref_dhcp = \<lparr>option_code = id, u16_of_code = id, oc_iana = 3, oc_iata = 4, oc_iaaddr = 5, oc_relay_msg = 9,
     oc_vendor_opts = 17, oc_interface_id = 18, oc_iapd = 25, oc_iaprefix = 26, oc_remote_id = 37, oc_client_linklayer_addr = 79,
     message_type = id, mt_relay_forw = 12,
     message_decode = (\<lambda>bs. if length bs < 4 then Inl ''truncated'' else Inr (bs, [])),
     option_decode = (\<lambda>bs. Inr (bs, [])), option_encode = Some, unknown_option = (\<lambda>c bs. bs),
     opts_insert = (\<lambda>opt (bs, opts). (bs, opts @ [opt]))\<rparr>"

interpretation refdhcp: dhcproto_laws ref_dhcp
  by unfold_locales (simp_all add: ref_dhcp_def RELAY_FORWARD_def)

section \<open>Message types\<close>

lemma find_take:
  "\<forall>x \<in> set xs. \<not> P x \<Longrightarrow> P y \<Longrightarrow> find P (take n (xs @ y # ys)) = (if length xs < n then Some y else None)"
proof (induction xs arbitrary: n)
  case Nil
  then show ?case by (cases n) simp_all
next
  case (Cons x xs)
  then show ?case by (cases n) simp_all
qed

text \<open>
  C39: The type that is reported for the metrics of an accepted packet is the type of the message that was decoded: the first byte of a direct
  message, and for a relayed one the first byte of the relay message. The exception is a
  relay message behind at least 256 other options, for which the relay type is reported.
\<close>

theorem metric_type_agrees:
  assumes "dhcproto_laws D" "decode D packet = ok p"
  shows "if hd packet = RELAY_FORWARD
    then \<exists>opts k. framed (drop 34 packet) opts \<and> k < length opts \<and> payloads D (oc_relay_msg D) opts = [ro_data (opts ! k)] \<and>
      decode_client_message D (ro_data (opts ! k)) = ok (dp_message p) \<and>
      request_message_type D packet = (if k < 256 then message_type D (hd (ro_data (opts ! k))) else mt_relay_forw D)
    else decode_client_message D packet = ok (dp_message p) \<and> request_message_type D packet = message_type D (hd packet)"
proof (cases "hd packet = RELAY_FORWARD")
  case False
  have "packet \<noteq> []" using assms(2) by (auto simp: decode_def first_def)
  then obtain t rest where "packet = t # rest" by (cases packet) auto
  then show ?thesis using assms False dhcproto_laws.relay_forw_type [OF assms(1), of t]
    by (auto simp: decode_def first_def request_message_type_def and_then_ok split: if_splits)
next
  case True
  let ?is = "\<lambda>opt. ro_code opt = u16_of_code D (oc_relay_msg D)"
  have "packet \<noteq> []" using assms(2) by (auto simp: decode_def first_def)
  then obtain rest where packet: "packet = RELAY_FORWARD # rest" using True by (cases packet) auto
  then have "decode_relay_forward D packet = ok p" using assms(2) by (simp add: decode_def first_def)
  then obtain opts msg where opts: "34 \<le> length packet" "framed (drop 34 packet) opts" "payloads D (oc_relay_msg D) opts = [msg]"
      "decode_client_message D msg = ok (dp_message p)"
    by (auto simp: decode_relay_forward_def bind_ok and_then_ok get_or_ok slice_from_Some parse_iff unique_ok maybe_one_def
        split: if_splits)
  then obtain rel where o: "filter ?is opts = [rel]" "msg = ro_data rel" by (auto simp: payloads_def)
  then obtain xs ys where split: "opts = xs @ rel # ys" "\<forall>x \<in> set xs. \<not> ?is x" "?is rel"
    by (auto simp: filter_eq_Cons_iff)
  have msg: "first msg = Some (hd msg)"
    using opts(4) by (cases msg) (auto simp: decode_client_message_def and_then_ok get_or_ok slice_from_Some first_def)
  have type: "request_message_type D packet = (case relay_type_loop D 256 (drop 34 packet) of None \<Rightarrow> mt_relay_forw D | Some t \<Rightarrow> t)"
    using dhcproto_laws.relay_forw_type [OF assms(1), of RELAY_FORWARD] opts(1)
    by (simp add: packet request_message_type_def relay_message_type_def first_def slice_from_def MAX_CLIENT_OPTIONS_def)
  have "framed (drop 34 packet) opts \<and> length xs < length opts \<and> payloads D (oc_relay_msg D) opts = [ro_data (opts ! length xs)] \<and>
      decode_client_message D (ro_data (opts ! length xs)) = ok (dp_message p) \<and>
      request_message_type D packet = (if length xs < 256 then message_type D (hd (ro_data (opts ! length xs))) else mt_relay_forw D)"
    using opts o(2) msg
    by (simp add: type dhcproto_laws.scan_finds [OF assms(1) opts(2)] split(1) find_take [where P = ?is, OF split(2,3)] del: take_append)
  then show ?thesis using True by (auto simp del: split_paired_Ex)
qed

end
