(* ===== verification/Dhcpv6_Identity.thy ===== *)
theory Dhcpv6_Identity
  imports Dhcpv6_Theorems
begin

text \<open>
  The Ethernet addresses that identify DHCPv6 clients: from which client identifiers and link layer options one is taken.
\<close>

lemma u16_be_iff: "u16_be a b = w \<longleftrightarrow> [a, b] = be16 w"
proof
  assume "[a, b] = be16 w"
  then show "u16_be a b = w" by (metis be16E list.inject)
qed auto

lemma be16_small: "be16 1 = [0, 1]" "be16 2 = [0, 2]" "be16 3 = [0, 3]" "be16 4 = [0, 4]"
  by (simp_all add: be16_def)

lemma link_layer_mac:
  "parse_link_layer_duid bs t = ok (Mac mac) \<longleftrightarrow> length mac = 6 \<and> (\<exists>time. length time = t \<and> bs = [0, 1] @ time @ mac)"
proof
  assume "parse_link_layer_duid bs t = ok (Mac mac)"
  then have *: "2 + t < length bs" "u16_be (bs ! 0) (bs ! 1) = 1" "mac = drop (2 + t) bs" "length mac = 6"
    by (auto simp: parse_link_layer_duid_def Let_def bind_ok index_def slice_from_Some split: if_splits)
  then obtain a b rest where bs: "bs = a # b # rest" by (cases bs; cases "tl bs") auto
  then have "a = 0 \<and> b = 1" using *(2) by (simp add: u16_be_iff be16_small)
  then show "length mac = 6 \<and> (\<exists>time. length time = t \<and> bs = [0, 1] @ time @ mac)"
    using * bs by (intro conjI exI [of _ "take t rest"]) simp_all
next
  assume "length mac = 6 \<and> (\<exists>time. length time = t \<and> bs = [0, 1] @ time @ mac)"
  then obtain time where "length mac = 6" "length time = t" "bs = [0, 1] @ time @ mac" by blast
  then show "parse_link_layer_duid bs t = ok (Mac mac)"
    by (simp add: parse_link_layer_duid_def Let_def index_def slice_from_def u16_be_iff be16_small)
qed

lemma duid_mac:
  "extract_mac_from_duid (a # b # rest) = ok (Mac mac) \<longleftrightarrow> 1 \<le> length rest \<and> length rest \<le> 128 \<and>
     ([a, b] = [0, 1] \<and> parse_link_layer_duid rest 4 = ok (Mac mac) \<or> [a, b] = [0, 3] \<and> parse_link_layer_duid rest 0 = ok (Mac mac))"
  by (simp add: extract_mac_from_duid_def index_def slice_from_def Let_def u16_be_iff be16_small) blast

lemma option79_mac:
  "extract_mac_from_option79 (a # b # rest) = Some (Some mac) \<longleftrightarrow> length rest = 6 \<and> [a, b] = [0, 1] \<and> mac = rest"
  by (auto simp: extract_mac_from_option79_def index_def slice_def u16_be_iff be16_small)

lemma two_bytes: obtains "length bs < 2" | a b rest where "bs = a # b # rest"
  by (cases bs; cases "tl bs") auto

text \<open>
  C40: An Ethernet address is taken from a client identifier exactly when that is an identifier based on a link layer address, with or without
  time stamp, of hardware type Ethernet and with exactly six bytes of address; and from the link layer option
  exactly when that holds hardware type Ethernet and six bytes.
\<close>

theorem mac_extraction:
  "(extract_mac_from_duid duid = ok (Mac mac) \<longleftrightarrow> length mac = 6 \<and>
     (duid = [0, 3, 0, 1] @ mac \<or> (\<exists>time. length time = 4 \<and> duid = [0, 1, 0, 1] @ time @ mac))) \<and>
   (extract_mac_from_option79 payload = Some (Some mac) \<longleftrightarrow> length mac = 6 \<and> payload = [0, 1] @ mac)"
proof (rule conjI)
  show "extract_mac_from_duid duid = ok (Mac mac) \<longleftrightarrow> length mac = 6 \<and>
     (duid = [0, 3, 0, 1] @ mac \<or> (\<exists>time. length time = 4 \<and> duid = [0, 1, 0, 1] @ time @ mac))"
  proof (cases duid rule: two_bytes)
    case 1
    then show ?thesis by (auto simp: extract_mac_from_duid_def)
  next
    case (2 a b rest)
    show ?thesis unfolding 2 duid_mac link_layer_mac by auto
  qed
  show "extract_mac_from_option79 payload = Some (Some mac) \<longleftrightarrow> length mac = 6 \<and> payload = [0, 1] @ mac"
  proof (cases payload rule: two_bytes)
    case 1
    then show ?thesis by (auto simp: extract_mac_from_option79_def)
  next
    case (2 a b rest)
    show ?thesis unfolding 2 option79_mac by auto
  qed
qed

end
