(* ===== verification/Dhcpv6_Examples.thy ===== *)
theory Dhcpv6_Examples
  imports Dhcpv6_Theorems
begin

text \<open>Concrete packets for the theorems on the DHCPv6 decoder, on the reference implementation of the typed decoder.\<close>

text \<open>A solicitation with a vendor option, and its relayed form.\<close>

definition example_client :: bytes where
  "example_client = [1, 0, 0, 1, 0, 17, 0, 4, 0, 0, 22, 71]"

definition example_vendor :: raw_option where
  "example_vendor = header_option 0 17 0 4 [0, 0, 22, 71]"

definition example_relay :: raw_option where
  "example_relay = header_option 0 9 0 12 example_client"

definition example_relayed :: bytes where
  "example_relayed = RELAY_FORWARD # 0 # replicate 16 1 @ replicate 16 2 @ ro_encoded example_relay"

lemma header_framed: "length p = unat (u16_be l1 l2) \<Longrightarrow> framed (c1 # c2 # l1 # l2 # p) [header_option c1 c2 l1 l2 p]"
  unfolding framed_def by (auto simp: framed_option_iff header_option_def)

lemma example_framed: "framed (drop 4 example_client) [example_vendor]" "framed (ro_encoded example_relay) [example_relay]"
proof -
  have "drop 4 example_client = [0, 17, 0, 4, 0, 0, 22, 71]" by (simp add: example_client_def)
  then show "framed (drop 4 example_client) [example_vendor]"
    using header_framed [of "[0, 0, 22, 71]" 0 4 0 17] by (simp add: example_vendor_def u16_be_def)
  have "length example_client = 12" by (simp add: example_client_def)
  then show "framed (ro_encoded example_relay) [example_relay]"
    using header_framed [of example_client 0 12 0 9] by (simp add: example_relay_def u16_be_def header_option_def)
qed

lemma example_codes: "is_vendor ref_dhcp example_vendor" "ro_data example_vendor = [0, 0, 22, 71]"
  "ro_code example_relay = 9" "ro_data example_relay = example_client"
  by (simp_all add: is_vendor_def ref_dhcp_def example_vendor_def example_relay_def header_option_def u16_be_def)

lemma ref_functions:
  "message_decode ref_dhcp bs = (if length bs < 4 then Inl ''truncated'' else Inr (bs, []))"
  "unknown_option ref_dhcp c bs = bs" "opts_insert ref_dhcp opt (bs, opts) = (bs, opts @ [opt])" "message_type ref_dhcp = id"
  by (simp_all add: ref_dhcp_def)

lemma example_bytes: "length example_client = 12" "take 4 example_client = [1, 0, 0, 1]" "hd example_client = 1"
  "first example_client = Some 1" "first (t # bs) = Some t"
  by (simp_all add: example_client_def first_def)

theorem accepted_client_message_witness:
  "decode_client_message ref_dhcp example_client = ok ([1, 0, 0, 1], [[0, 0, 22, 71]])"
proof -
  have e: "framed [] []" by (simp add: framed_def)
  have tree: "option_tree ref_dhcp 0 [example_vendor] = [(0, example_vendor)]" by (simp add: nested_def example_codes)
  have "\<exists>sub. framed (drop 4 (ro_data example_vendor)) sub" using e by (auto simp: example_codes)
  then have 1: "\<forall>x \<in> set (option_tree ref_dhcp 0 [example_vendor]). well_placed ref_dhcp x \<and>
      (is_vendor ref_dhcp (snd x) \<or> decodes_alone ref_dhcp (snd x))"
    unfolding tree by (simp add: well_placed_def example_codes)
  have "suboptions example_vendor 4 = []" by (rule suboptions_framed) (simp add: example_codes e)
  then have 2: "option_count ref_dhcp (option_tree ref_dhcp 0 [example_vendor]) \<le> 256" unfolding tree by (simp add: example_codes)
  have 3: "message_decode ref_dhcp (take 4 example_client @
      concat (map ro_encoded (filter (\<lambda>opt. \<not> is_vendor ref_dhcp opt) [example_vendor]))) = Inr ([1, 0, 0, 1], [])"
    by (simp add: example_codes) (simp add: ref_dhcp_def example_client_def)
  have 4: "([1, 0, 0, 1], [[0, 0, 22, 71]]) = fold (\<lambda>opt. opts_insert ref_dhcp (unknown_option ref_dhcp (oc_vendor_opts ref_dhcp) (ro_data opt)))
      (filter (is_vendor ref_dhcp) [example_vendor]) ([1, 0, 0, 1], [])"
    by (simp add: example_codes) (simp add: ref_dhcp_def)
  have "4 \<le> length example_client" by (simp add: example_client_def)
  with example_framed(1) 1 2 3 4 show ?thesis
    by (intro accepted_client_message [THEN iffD2]) blast
qed

lemma client_accepted: "decode_client_message ref_dhcp example_client = ok ([1, 0, 0, 1], [[0, 0, 22, 71]])"
proof -
  have p: "parse_raw_options (drop 4 example_client) = (ok [example_vendor] :: (string, raw_option list) decoding)"
    by (rule framed_parse [OF example_framed(1)])
  have "validate_client_options ref_dhcp [example_vendor] = ok ()"
    by (simp add: validate_client_options_def validate_client_option_budget_def example_codes MAX_CLIENT_OPTIONS_def get_or_def slice_from_def)
  then show ?thesis
    using p by (simp add: decode_client_message_def get_or_def slice_from_def example_codes ref_functions example_bytes)
qed

lemma relay_payloads:
  "payloads ref_dhcp c [example_relay] = (if c = 9 then [example_client] else [])"
  by (simp add: payloads_def example_codes) (simp add: ref_dhcp_def)

lemma ref_codes: "oc_relay_msg ref_dhcp = 9" "oc_interface_id ref_dhcp = 18" "oc_remote_id ref_dhcp = 37"
  "oc_client_linklayer_addr ref_dhcp = 79"
  by (simp_all add: ref_dhcp_def)

theorem relay_decoding_witness:
  "decode ref_dhcp example_relayed = ok \<lparr>dp_message = ([1, 0, 0, 1], [[0, 0, 22, 71]]),
     dp_relay = Some \<lparr>hop_count = 0, link_address = replicate 16 1, peer_address = replicate 16 2,
       interface_id = None, remote_id = None, client_link_layer = None\<rparr>\<rparr>"
proof -
  have "payloads ref_dhcp (oc_relay_msg ref_dhcp) [example_relay] = [example_client]"
    "payloads ref_dhcp (oc_interface_id ref_dhcp) [example_relay] = maybe_one None"
    "payloads ref_dhcp (oc_remote_id ref_dhcp) [example_relay] = maybe_one None"
    "payloads ref_dhcp (oc_client_linklayer_addr ref_dhcp) [example_relay] = maybe_one None"
    by (simp_all add: relay_payloads ref_codes maybe_one_def)
  moreover have "hd example_client \<noteq> RELAY_FORWARD" "hd example_client \<noteq> RELAY_REPLY"
    by (simp_all add: example_client_def RELAY_FORWARD_def RELAY_REPLY_def)
  ultimately show ?thesis
    using example_framed(2) client_accepted unfolding example_relayed_def
    by (intro relay_decoding [THEN iffD2] conjI refl) (simp, simp, blast)
qed

lemma relayed_accepted:
  "decode ref_dhcp example_relayed = ok \<lparr>dp_message = ([1, 0, 0, 1], [[0, 0, 22, 71]]),
     dp_relay = Some \<lparr>hop_count = 0, link_address = replicate 16 1, peer_address = replicate 16 2,
       interface_id = None, remote_id = None, client_link_layer = None\<rparr>\<rparr>"
proof -
  have "unique_raw_option ref_dhcp [example_relay] c = ok (if c = 9 then Some example_client else None)" for c
    by (simp add: unique_ok relay_payloads maybe_one_def)
  moreover have "parse_raw_options (ro_encoded example_relay) = (ok [example_relay] :: (string, raw_option list) decoding)"
    by (rule framed_parse [OF example_framed(2)])
  ultimately show ?thesis
    by (simp add: example_relayed_def decode_def example_bytes decode_relay_forward_def index_def relay_header octets16_def get_or_def
        owned_unique_raw_option_def client_accepted ref_codes RELAY_FORWARD_def RELAY_REPLY_def)
qed

theorem metric_type_agrees_witness:
  "request_message_type ref_dhcp example_relayed = 1"
proof -
  have d: "drop 34 example_relayed = ro_encoded example_relay" "hd example_relayed = RELAY_FORWARD"
    using relay_header(4) [of "replicate 16 1" "replicate 16 2" RELAY_FORWARD 0 "ro_encoded example_relay"]
    by (simp_all add: example_relayed_def slice_from_Some)
  have one: "opts = [example_relay]" if "framed (ro_encoded example_relay) opts" for opts
  proof -
    have "(ok opts :: (unit, raw_option list) decoding) = ok [example_relay]"
      using framed_parse [OF that] framed_parse [OF example_framed(2)] by metis
    then show ?thesis by simp
  qed
  from metric_type_agrees [OF refdhcp.dhcproto_laws_axioms relayed_accepted]
  obtain opts k where k: "framed (ro_encoded example_relay) opts" "k < length opts" "request_message_type ref_dhcp example_relayed =
      (if k < 256 then message_type ref_dhcp (hd (ro_data (opts ! k))) else mt_relay_forw ref_dhcp)"
    unfolding d if_P [OF refl] by blast
  then show ?thesis using one [OF k(1)] by (simp add: example_codes ref_functions example_bytes)
qed

end
